(* ===== verification/Prelude.thy ===== *)
theory Prelude
  imports Main "HOL-Library.State_Monad" "HOL-Library.Sublist"
    "HOL-Library.Char_ord" "HOL-Library.List_Lexorder"
begin

text \<open>
  What every other theory shares: the state monad in which the Go code is written down, the
  two ways of reasoning about it, and the wrap-around of Go's 64-bit integers.

  A Go function that returns \<open>(T, error)\<close> is a computation of type \<open>(world, error + T) state\<close>;
  \<open>or_return m h k\<close> is the Go idiom
  \<^verbatim>\<open>x, err := m; if err != nil { return h(err) }; k(x)\<close>.

  \<^item> \<open>evolves R m\<close> says that every run of \<open>m\<close> relates the state before to the state after by
    \<open>R\<close>, whatever happens on the way (every fault, every early return). It is the form of the
    frame and safety facts; the rules in \<open>evolves_rules\<close> take a computation apart.
  \<^item> \<open>wp m Q s\<close> says that the run of \<open>m\<close> from \<open>s\<close> ends in a result and a state that satisfy
    \<open>Q\<close>. It is the form of the functional facts; \<open>wp_simps\<close> computes it.
\<close>

section \<open>Computations\<close>

named_theorems evolves_rules "rules for state relations kept by every run"
named_theorems wp_simps "weakest-precondition equations"
named_theorems fs_simps "lookups after updates of the file system"

definition or_return :: "('s, 'e + 'a) state \<Rightarrow> ('e \<Rightarrow> 'e) \<Rightarrow> ('a \<Rightarrow> ('s, 'e + 'b) state) \<Rightarrow> ('s, 'e + 'b) state" where
  "or_return m h k = do {
     r \<leftarrow> m;
     (case r of Inl e \<Rightarrow> State_Monad.return (Inl (h e)) | Inr x \<Rightarrow> k x)
   }"

definition ok :: "'a \<Rightarrow> ('s, 'e + 'a) state" where
  "ok x = State_Monad.return (Inr x)"

definition fail :: "'e \<Rightarrow> ('s, 'e + 'a) state" where
  "fail e = State_Monad.return (Inl e)"

definition gets :: "('s \<Rightarrow> 'a) \<Rightarrow> ('s, 'a) state" where
  "gets f = State (\<lambda>s. (f s, s))"

definition modify :: "('s \<Rightarrow> 's) \<Rightarrow> ('s, unit) state" where
  "modify f = State (\<lambda>s. ((), f s))"

lemma run_ok [simp]: "run_state (ok x) s = (Inr x, s)"
  by (simp add: ok_def)

lemma run_fail [simp]: "run_state (fail e) s = (Inl e, s)"
  by (simp add: fail_def)

lemma run_gets [simp]: "run_state (gets f) s = (f s, s)"
  by (simp add: gets_def)

lemma run_modify [simp]: "run_state (modify f) s = ((), f s)"
  by (simp add: modify_def)

lemma run_or_return [simp]:
  "run_state (or_return m h k) s =
     (case run_state m s of (Inl e, s') \<Rightarrow> (Inl (h e), s') | (Inr x, s') \<Rightarrow> run_state (k x) s')"
  by (auto simp: or_return_def split: prod.splits sum.splits)

section \<open>Every run\<close>

definition evolves :: "('s \<Rightarrow> 's \<Rightarrow> bool) \<Rightarrow> ('s, 'a) state \<Rightarrow> bool" where
  "evolves R m \<longleftrightarrow> (\<forall>s. R s (snd (run_state m s)))"

definition preorder_on_state :: "('s \<Rightarrow> 's \<Rightarrow> bool) \<Rightarrow> bool" where
  "preorder_on_state R \<longleftrightarrow> (\<forall>s. R s s) \<and> (\<forall>s t u. R s t \<longrightarrow> R t u \<longrightarrow> R s u)"

lemma evolvesD: "evolves R m \<Longrightarrow> run_state m s = (r, s') \<Longrightarrow> R s s'"
  by (metis evolves_def snd_conv)

lemma evolvesI: "(\<And>s r s'. run_state m s = (r, s') \<Longrightarrow> R s s') \<Longrightarrow> evolves R m"
  by (metis evolves_def prod.collapse)

lemma preorder_refl: "preorder_on_state R \<Longrightarrow> R s s"
  by (simp add: preorder_on_state_def)

lemma preorder_trans: "preorder_on_state R \<Longrightarrow> R s t \<Longrightarrow> R t u \<Longrightarrow> R s u"
  unfolding preorder_on_state_def by blast

lemma preorder_of_eq: "preorder_on_state (\<lambda>s t. f s = f t)"
  by (simp add: preorder_on_state_def)

lemma preorder_of_inv: "preorder_on_state (\<lambda>s t. P s \<longrightarrow> P t)"
  by (simp add: preorder_on_state_def)

lemma evolves_return [evolves_rules]:
  "preorder_on_state R \<Longrightarrow> evolves R (State_Monad.return x)"
  by (simp add: evolves_def preorder_refl)

lemma evolves_ok [evolves_rules]: "preorder_on_state R \<Longrightarrow> evolves R (ok x)"
  by (simp add: evolves_def preorder_refl)

lemma evolves_fail [evolves_rules]: "preorder_on_state R \<Longrightarrow> evolves R (fail x)"
  by (simp add: evolves_def preorder_refl)

lemma evolves_gets [evolves_rules]: "preorder_on_state R \<Longrightarrow> evolves R (gets f)"
  by (simp add: evolves_def preorder_refl)

lemma evolves_bind [evolves_rules]:
  assumes "preorder_on_state R" and "evolves R m" and "\<And>x. evolves R (f x)"
  shows "evolves R (State_Monad.bind m f)"
proof (rule evolvesI)
  fix s r s'
  assume run: "run_state (State_Monad.bind m f) s = (r, s')"
  obtain x t where m: "run_state m s = (x, t)" by (metis prod.collapse)
  with run have f: "run_state (f x) t = (r, s')" by simp
  from assms(2) m have "R s t" by (rule evolvesD)
  moreover from assms(3) f have "R t s'" by (rule evolvesD)
  ultimately show "R s s'" by (rule preorder_trans [OF assms(1)])
qed

lemma evolves_or_return [evolves_rules]:
  assumes "preorder_on_state R" and "evolves R m" and "\<And>x. evolves R (k x)"
  shows "evolves R (or_return m h k)"
  unfolding or_return_def
  by (rule evolves_bind [OF assms(1,2)])
    (auto intro: assms evolves_return split: sum.splits)

text \<open>The same, when the continuation is known only for the results that there can be.\<close>

lemma evolves_bind_result:
  assumes "preorder_on_state R" and "evolves R m"
    and "\<And>s x t. run_state m s = (x, t) \<Longrightarrow> evolves R (f x)"
  shows "evolves R (State_Monad.bind m f)"
proof (rule evolvesI)
  fix s r s'
  assume run: "run_state (State_Monad.bind m f) s = (r, s')"
  obtain x t where m: "run_state m s = (x, t)" by (metis prod.collapse)
  with run have f: "run_state (f x) t = (r, s')" by simp
  from assms(2) m have "R s t" by (rule evolvesD)
  moreover from assms(3) [OF m] f have "R t s'" by (rule evolvesD)
  ultimately show "R s s'" by (rule preorder_trans [OF assms(1)])
qed

lemma evolves_or_return_result:
  assumes "preorder_on_state R" and "evolves R m"
    and "\<And>s x t. run_state m s = (Inr x, t) \<Longrightarrow> evolves R (k x)"
  shows "evolves R (or_return m h k)"
  unfolding or_return_def
  by (rule evolves_bind_result [OF assms(1,2)])
    (auto intro: assms evolves_return split: sum.splits)

lemma evolves_if [evolves_rules]:
  "(b \<Longrightarrow> evolves R m) \<Longrightarrow> (\<not> b \<Longrightarrow> evolves R n) \<Longrightarrow> evolves R (if b then m else n)"
  by simp

lemma evolves_case_sum [evolves_rules]:
  "(\<And>e. r = Inl e \<Longrightarrow> evolves R (f e)) \<Longrightarrow> (\<And>x. r = Inr x \<Longrightarrow> evolves R (g x)) \<Longrightarrow>
     evolves R (case r of Inl e \<Rightarrow> f e | Inr x \<Rightarrow> g x)"
  by (simp split: sum.splits)

lemma evolves_case_option [evolves_rules]:
  "(r = None \<Longrightarrow> evolves R f) \<Longrightarrow> (\<And>x. r = Some x \<Longrightarrow> evolves R (g x)) \<Longrightarrow>
     evolves R (case r of None \<Rightarrow> f | Some x \<Rightarrow> g x)"
  by (simp split: option.splits)

lemma evolves_case_prod [evolves_rules]:
  "(\<And>x y. r = (x, y) \<Longrightarrow> evolves R (f x y)) \<Longrightarrow> evolves R (case r of (x, y) \<Rightarrow> f x y)"
  by (simp split: prod.splits)

lemma evolves_case_list [evolves_rules]:
  "(r = [] \<Longrightarrow> evolves R f) \<Longrightarrow> (\<And>x xs. r = x # xs \<Longrightarrow> evolves R (g x xs)) \<Longrightarrow>
     evolves R (case r of [] \<Rightarrow> f | x # xs \<Rightarrow> g x xs)"
  by (simp split: list.splits)

lemma evolves_let [evolves_rules]:
  "(\<And>x. x = e \<Longrightarrow> evolves R (f x)) \<Longrightarrow> evolves R (let x = e in f x)"
  by (simp add: Let_def)

lemma evolves_mono: "evolves R m \<Longrightarrow> (\<And>s t. R s t \<Longrightarrow> Q s t) \<Longrightarrow> evolves Q m"
  by (simp add: evolves_def)

section \<open>One run\<close>

definition wp :: "('s, 'a) state \<Rightarrow> ('a \<Rightarrow> 's \<Rightarrow> bool) \<Rightarrow> 's \<Rightarrow> bool" where
  "wp m Q s \<longleftrightarrow> (case run_state m s of (r, s') \<Rightarrow> Q r s')"

lemma wp_return [wp_simps]: "wp (State_Monad.return x) Q s = Q x s"
  by (simp add: wp_def)

lemma wp_ok [wp_simps]: "wp (ok x) Q s = Q (Inr x) s"
  by (simp add: wp_def)

lemma wp_fail [wp_simps]: "wp (fail e) Q s = Q (Inl e) s"
  by (simp add: wp_def)

lemma wp_gets [wp_simps]: "wp (gets f) Q s = Q (f s) s"
  by (simp add: wp_def)

lemma wp_modify [wp_simps]: "wp (modify f) Q s = Q () (f s)"
  by (simp add: wp_def)

lemma wp_bind [wp_simps]: "wp (State_Monad.bind m f) Q s = wp m (\<lambda>x. wp (f x) Q) s"
  by (simp add: wp_def split: prod.splits)

lemma wp_or_return [wp_simps]:
  "wp (or_return m h k) Q s =
     wp m (\<lambda>r t. (\<forall>e. r = Inl e \<longrightarrow> Q (Inl (h e)) t) \<and> (\<forall>x. r = Inr x \<longrightarrow> wp (k x) Q t)) s"
  by (auto simp: wp_def split: prod.splits sum.splits)

lemma wp_mono: "wp m P s \<Longrightarrow> (\<And>r t. P r t \<Longrightarrow> Q r t) \<Longrightarrow> wp m Q s"
  by (simp add: wp_def split: prod.splits)

lemma wp_conj: "wp m P s \<Longrightarrow> wp m Q s \<Longrightarrow> wp m (\<lambda>r t. P r t \<and> Q r t) s"
  by (simp add: wp_def split: prod.splits)

lemma wpD: "wp m Q s \<Longrightarrow> run_state m s = (r, t) \<Longrightarrow> Q r t"
  by (simp add: wp_def)

lemma wpI: "(\<And>r t. run_state m s = (r, t) \<Longrightarrow> Q r t) \<Longrightarrow> wp m Q s"
  by (simp add: wp_def split: prod.splits)

lemma evolves_wp: "evolves R m \<Longrightarrow> wp m (\<lambda>_ t. R s t) s"
  by (auto intro: wpI dest: evolvesD)

section \<open>Go's 64-bit integers\<close>

text \<open>
  \<open>int64\<close> and (on amd64) \<open>int\<close> are \<open>int\<close> with the wrap-around written out: \<open>wrap64\<close> is applied
  to the result of every addition and subtraction of the source. \<open>uwrap64\<close> is the same for
  \<open>uint64\<close>.
\<close>

definition wrap64 :: "int \<Rightarrow> int" where
  "wrap64 x = (x + 2 ^ 63) mod 2 ^ 64 - 2 ^ 63"

definition uwrap64 :: "int \<Rightarrow> int" where
  "uwrap64 x = x mod 2 ^ 64"

definition is_int64 :: "int \<Rightarrow> bool" where
  "is_int64 x \<longleftrightarrow> - (2 ^ 63) \<le> x \<and> x < 2 ^ 63"

lemma wrap64_id [simp]: "is_int64 x \<Longrightarrow> wrap64 x = x"
  by (simp add: wrap64_def is_int64_def)

lemma is_int64_wrap64 [simp]: "is_int64 (wrap64 x)"
proof -
  have "0 \<le> (x + 2 ^ 63) mod 2 ^ 64" and "(x + 2 ^ 63) mod 2 ^ 64 < 2 ^ 64"
    by simp_all
  then show ?thesis unfolding wrap64_def is_int64_def by simp
qed

lemma wrap64_add [simp]: "wrap64 (wrap64 a + b) = wrap64 (a + b)"
  by (simp add: wrap64_def) (metis (no_types, opaque_lifting) add.assoc add.commute mod_add_left_eq)

lemma wrap64_overflow: "wrap64 (2 ^ 63) = - (2 ^ 63)"
  by (simp add: wrap64_def)

end
