(* ===== verification/Go_Strings.thy ===== *)
theory Go_Strings
  imports Prelude
begin

text \<open>
  The part of Go's \<open>strings\<close>, \<open>strconv\<close> and \<open>fmt\<close> that the program uses, on \<open>string\<close>
  (a list of bytes): \<open>Split\<close>, \<open>Join\<close>, \<open>Replace\<close>, \<open>Contains\<close>, \<open>HasPrefix\<close>, \<open>TrimSpace\<close>,
  \<open>Itoa\<close>, \<open>Atoi\<close>, and \<open>Sscanf\<close> with the format \<open>%d:%d:%d\<close>. The lemmas are the laws the
  components rely on: splitting undoes joining, replacing the first occurrence finds it where it
  is, and reading a printed decimal gives the number back.
\<close>

section \<open>Splitting and joining\<close>

fun split_on :: "'a \<Rightarrow> 'a list \<Rightarrow> 'a list list" where
  "split_on c [] = [[]]"
| "split_on c (x # xs) =
     (if x = c then [] # split_on c xs
      else (case split_on c xs of [] \<Rightarrow> [[x]] | y # ys \<Rightarrow> (x # y) # ys))"

fun join_with :: "'a list \<Rightarrow> 'a list list \<Rightarrow> 'a list" where
  "join_with sep [] = []"
| "join_with sep [x] = x"
| "join_with sep (x # y # ys) = x @ sep @ join_with sep (y # ys)"

lemma split_on_not_Nil [simp]: "split_on c xs \<noteq> []"
  by (induction xs) (auto split: list.splits)

lemma split_on_plain [simp]: "c \<notin> set xs \<Longrightarrow> split_on c xs = [xs]"
  by (induction xs) auto

lemma split_on_append [simp]: "split_on c (xs @ c # ys) = split_on c xs @ split_on c ys"
proof (induction xs)
  case (Cons x xs)
  then show ?case by (cases "split_on c xs") auto
qed simp

lemma split_on_join:
  "xss \<noteq> [] \<Longrightarrow> \<forall>x\<in>set xss. c \<notin> set x \<Longrightarrow> split_on c (join_with [c] xss) = xss"
  by (induction "[c]" xss rule: join_with.induct) auto

lemma split_on_no_sep: "x \<in> set (split_on c xs) \<Longrightarrow> c \<notin> set x"
proof (induction xs arbitrary: x)
  case (Cons a xs)
  then show ?case
    by (cases "split_on c xs") (auto split: if_splits)
qed simp

lemma join_split: "join_with [c] (split_on c xs) = xs"
proof (induction xs)
  case (Cons a xs)
  show ?case
  proof (cases "split_on c xs")
    case (Cons y ys)
    with Cons.IH show ?thesis by (cases ys) auto
  qed simp
qed simp

lemma join_with_snoc: "xss \<noteq> [] \<Longrightarrow> join_with sep (xss @ [x]) = join_with sep xss @ sep @ x"
  by (induction sep xss rule: join_with.induct) auto

section \<open>Searching and replacing\<close>

fun contains :: "string \<Rightarrow> string \<Rightarrow> bool" where
  "contains [] sub = (sub = [])"
| "contains (c # cs) sub = (prefix sub (c # cs) \<or> contains cs sub)"

text \<open>\<open>strings.Replace(s, old, new, 1)\<close>: the first occurrence only.\<close>

fun replace_first :: "string \<Rightarrow> string \<Rightarrow> string \<Rightarrow> string" where
  "replace_first [] old new = (if old = [] then new else [])"
| "replace_first (c # cs) old new =
     (if prefix old (c # cs) then new @ drop (length old) (c # cs)
      else c # replace_first cs old new)"

text \<open>\<open>strings.Replace(s, old, new, -1)\<close> for a one-byte \<open>old\<close>.\<close>

definition replace_char :: "char \<Rightarrow> string \<Rightarrow> string \<Rightarrow> string" where
  "replace_char c new s = concat (map (\<lambda>x. if x = c then new else [x]) s)"

definition has_prefix :: "string \<Rightarrow> string \<Rightarrow> bool" where
  "has_prefix s p = prefix p s"

lemma contains_iff: "contains s sub \<longleftrightarrow> (\<exists>a b. s = a @ sub @ b)"
proof (induction s)
  case (Cons c cs)
  note Cons_IH = Cons.IH
  show ?case
  proof
    assume "contains (c # cs) sub"
    then show "\<exists>a b. c # cs = a @ sub @ b"
      using Cons.IH by (auto simp: prefix_def) (metis append_Cons append_Nil)+
  next
    assume "\<exists>a b. c # cs = a @ sub @ b"
    then obtain a b where eq: "c # cs = a @ sub @ b" by blast
    show "contains (c # cs) sub"
    proof (cases a)
      case Nil
      with eq have "prefix sub (c # cs)" by (metis append_Nil prefixI)
      then show ?thesis by simp
    next
      case (Cons x xs)
      with eq have "cs = xs @ sub @ b" by simp
      with Cons_IH show ?thesis by auto
    qed
  qed
qed auto

lemma contains_self [simp]: "contains s s"
  by (auto simp: contains_iff) (metis append_Nil append_Nil2)

lemma contains_appendI: "contains (a @ sub @ b) sub"
  by (auto simp: contains_iff)

lemma replace_first_prefix [simp]: "replace_first (old @ s) old new = new @ s"
proof (cases "old @ s")
  case (Cons c cs)
  then have "prefix old (c # cs)" and "drop (length old) (c # cs) = s"
    by (metis prefixI, metis append_eq_conv_conj)
  with Cons show ?thesis by simp
qed auto

lemma replace_first_absent: "\<not> contains s old \<Longrightarrow> replace_first s old new = s"
  by (induction s) auto

text \<open>
  The occurrence found is the first one: when no occurrence starts inside \<open>a\<close>, the text right
  after \<open>a\<close> is replaced.
\<close>

lemma replace_first_at:
  assumes "\<And>i. i < length a \<Longrightarrow> \<not> prefix old (drop i (a @ old @ b))"
  shows "replace_first (a @ old @ b) old new = a @ new @ b"
  using assms
proof (induction a)
  case Nil
  then show ?case by simp
next
  case (Cons c cs)
  have "\<not> prefix old (c # cs @ old @ b)"
    using Cons.prems [of 0] by simp
  moreover have "replace_first (cs @ old @ b) old new = cs @ new @ b"
  proof (rule Cons.IH)
    fix i assume "i < length cs"
    then show "\<not> prefix old (drop i (cs @ old @ b))"
      using Cons.prems [of "Suc i"] by simp
  qed
  ultimately show ?case by simp
qed

text \<open>
  A last component that does not occur before: it is the one replaced, since an occurrence that
  starts before it would hold the separator.
\<close>

lemma replace_first_last:
  assumes "c \<notin> set v" and "\<not> contains (a @ [c]) v"
  shows "replace_first ((a @ [c]) @ v) v new = (a @ [c]) @ new"
proof -
  have "\<not> prefix v (drop i ((a @ [c]) @ v @ []))" if i: "i < length (a @ [c])" for i
  proof
    let ?d = "drop i (a @ [c])"
    assume "prefix v (drop i ((a @ [c]) @ v @ []))"
    then have p: "prefix v (?d @ v)" using i by (simp only: drop_append append_Nil2) simp
    show False
    proof (cases "length v \<le> length ?d")
      case True
      with p have "prefix v ?d" by (metis prefixI prefix_length_prefix)
      then obtain t where "a @ [c] = take i (a @ [c]) @ v @ t"
        by (metis append_take_drop_id prefix_def)
      then have "contains (a @ [c]) v" unfolding contains_iff by blast
      with assms(2) show False by simp
    next
      case False
      then have "prefix ?d v" using p by (metis linorder_linear prefix_length_prefix prefixI)
      moreover have "c \<in> set ?d"
        using i by (metis drop_eq_Nil last_drop last_in_set last_snoc linorder_not_le)
      ultimately have "c \<in> set v" by (metis set_mono_prefix subsetD)
      with assms(1) show False by simp
    qed
  qed
  from replace_first_at [OF this, of new] show ?thesis by simp
qed

lemma set_replace_char: "c \<notin> set new \<Longrightarrow> c \<notin> set (replace_char c new s)"
  by (auto simp: replace_char_def split: if_splits)

lemma replace_char_absent: "c \<notin> set s \<Longrightarrow> replace_char c new s = s"
  by (induction s) (auto simp: replace_char_def)

section \<open>White space\<close>

definition is_space :: "char \<Rightarrow> bool" where
  "is_space c \<longleftrightarrow> c \<in> {CHR '' '', CHR 0x09, CHR 0x0A, CHR 0x0B, CHR 0x0C, CHR 0x0D}"

definition trim_space :: "string \<Rightarrow> string" where
  "trim_space s = rev (dropWhile is_space (rev (dropWhile is_space s)))"

text \<open>\<open>strings.Fields\<close>: the maximal runs of bytes that are not white space.\<close>

fun fields_acc :: "string \<Rightarrow> string \<Rightarrow> string list" where
  "fields_acc cur [] = (if cur = [] then [] else [rev cur])"
| "fields_acc cur (c # cs) =
     (if is_space c then (if cur = [] then fields_acc [] cs else rev cur # fields_acc [] cs)
      else fields_acc (c # cur) cs)"

definition fields :: "string \<Rightarrow> string list" where
  "fields s = fields_acc [] s"

section \<open>Decimal numbers\<close>

definition digit_char :: "nat \<Rightarrow> char" where
  "digit_char n = char_of (48 + n)"

definition is_digit :: "char \<Rightarrow> bool" where
  "is_digit c \<longleftrightarrow> (48::nat) \<le> of_char c \<and> of_char c \<le> (57::nat)"

definition digit_val :: "char \<Rightarrow> nat" where
  "digit_val c = of_char c - 48"

fun show_nat :: "nat \<Rightarrow> string" where
  "show_nat n = (if n < 10 then [digit_char n] else show_nat (n div 10) @ [digit_char (n mod 10)])"

declare show_nat.simps [simp del]

text \<open>\<open>strconv.Itoa\<close>, \<open>strconv.FormatInt(_, 10)\<close> and the verb \<open>%d\<close>.\<close>

definition show_int :: "int \<Rightarrow> string" where
  "show_int i = (if i < 0 then CHR ''-'' # show_nat (nat (- i)) else show_nat (nat i))"

text \<open>For evaluation, the same on binary integers.\<close>

function show_pos :: "int \<Rightarrow> string" where
  "show_pos i = (if i < 10 then [digit_char (nat i)] else show_pos (i div 10) @ [digit_char (nat (i mod 10))])"
  by pat_completeness auto
termination by (relation "measure nat") auto

declare show_pos.simps [simp del]

lemma show_nat_pos: "0 \<le> i \<Longrightarrow> show_nat (nat i) = show_pos i"
proof (induction i rule: show_pos.induct)
  case (1 i)
  then show ?case
    by (subst show_nat.simps, subst show_pos.simps) (auto simp: nat_div_distrib nat_mod_distrib)
qed

lemma show_int_code [code]: "show_int i = (if i < 0 then CHR ''-'' # show_pos (- i) else show_pos i)"
  by (simp add: show_int_def show_nat_pos)

definition digits_val :: "string \<Rightarrow> nat" where
  "digits_val ds = foldl (\<lambda>n c. 10 * n + digit_val c) 0 ds"

text \<open>An optional sign, then at least one digit; what follows is left over.\<close>

definition scan_int :: "string \<Rightarrow> (int \<times> string) option" where
  "scan_int s =
     (let (neg, t) = (case s of [] \<Rightarrow> (False, [])
                      | c # cs \<Rightarrow> if c = CHR ''-'' then (True, cs)
                                  else if c = CHR ''+'' then (False, cs) else (False, s));
          ds = takeWhile is_digit t;
          v = (if neg then - int (digits_val ds) else int (digits_val ds))
      in if ds = [] \<or> \<not> is_int64 v then None else Some (v, dropWhile is_digit t))"

text \<open>\<open>strconv.Atoi\<close> and \<open>strconv.ParseInt(_, 10, 64)\<close>: the whole text is one number.\<close>

definition atoi :: "string \<Rightarrow> int option" where
  "atoi s = (case scan_int s of Some (v, []) \<Rightarrow> Some v | _ \<Rightarrow> None)"

text \<open>
  \<open>fmt.Sscanf(v, "%d:%d:%d", ...)\<close>: each \<open>%d\<close> skips blanks, each colon must match; input after
  the third number is not looked at.
\<close>

definition skip_blanks :: "string \<Rightarrow> string" where
  "skip_blanks s = dropWhile (\<lambda>c. c = CHR '' '' \<or> c = CHR 0x09) s"

definition sscanf3 :: "string \<Rightarrow> (int \<times> int \<times> int) option" where
  "sscanf3 s =
     (case scan_int (skip_blanks s) of
        Some (a, CHR '':'' # s1) \<Rightarrow>
          (case scan_int (skip_blanks s1) of
             Some (b, CHR '':'' # s2) \<Rightarrow>
               (case scan_int (skip_blanks s2) of Some (c, _) \<Rightarrow> Some (a, b, c) | None \<Rightarrow> None)
           | _ \<Rightarrow> None)
      | _ \<Rightarrow> None)"

lemma digit_char_val [simp]: "n < 10 \<Longrightarrow> digit_val (digit_char n) = n"
  by (simp add: digit_val_def digit_char_def)

lemma is_digit_digit_char [simp]: "n < 10 \<Longrightarrow> is_digit (digit_char n)"
  by (simp add: is_digit_def digit_char_def)

lemma show_nat_digits: "\<forall>c\<in>set (show_nat n). is_digit c"
proof (induction n rule: show_nat.induct)
  case (1 n)
  then show ?case by (subst show_nat.simps) auto
qed

lemma show_nat_not_Nil [simp]: "show_nat n \<noteq> []"
  by (subst show_nat.simps) auto

lemma digits_val_snoc: "digits_val (ds @ [c]) = 10 * digits_val ds + digit_val c"
  by (simp add: digits_val_def)

lemma digits_val_show_nat [simp]: "digits_val (show_nat n) = n"
proof (induction n rule: show_nat.induct)
  case (1 n)
  show ?case
  proof (cases "n < 10")
    case True
    then show ?thesis by (subst show_nat.simps) (simp add: digits_val_def)
  next
    case False
    with 1 show ?thesis by (subst show_nat.simps) (simp add: digits_val_snoc)
  qed
qed

lemma takeWhile_digits_show_nat [simp]:
  "(r = [] \<or> \<not> is_digit (hd r)) \<Longrightarrow> takeWhile is_digit (show_nat n @ r) = show_nat n"
  by (cases r) (auto simp: takeWhile_append show_nat_digits)

lemma dropWhile_digits_show_nat [simp]:
  "(r = [] \<or> \<not> is_digit (hd r)) \<Longrightarrow> dropWhile is_digit (show_nat n @ r) = r"
  by (cases r) (auto simp: dropWhile_append show_nat_digits)

lemma is_digit_sign [simp]:
  "\<not> is_digit (CHR ''-'')" "\<not> is_digit (CHR ''+'')" "\<not> is_digit (CHR '':'')"
  "\<not> is_digit (CHR '' '')" "\<not> is_digit (CHR 0x09)" "\<not> is_digit (CHR ''/'')"
  "\<not> is_digit (CHR ''g'')" "\<not> is_digit (CHR 0x0A)" "\<not> is_digit (CHR '','')"
  "\<not> is_digit (CHR ''}'')" "\<not> is_digit (CHR '']'')"
  by (simp_all add: is_digit_def)

lemma show_nat_hd: "\<exists>c cs. show_nat n = c # cs \<and> is_digit c"
  using show_nat_digits [of n] by (cases "show_nat n") auto

lemma scan_int_show:
  assumes "is_int64 i" and "r = [] \<or> \<not> is_digit (hd r)"
  shows "scan_int (show_int i @ r) = Some (i, r)"
proof -
  obtain c cs where c: "show_nat (nat i) = c # cs" "is_digit c"
    using show_nat_hd by blast
  then have "c \<noteq> CHR ''-''" "c \<noteq> CHR ''+''" by auto
  moreover from c have "takeWhile is_digit (c # cs @ r) = show_nat (nat i)"
    and "dropWhile is_digit (c # cs @ r) = r"
    using takeWhile_digits_show_nat [OF assms(2), of "nat i"]
      dropWhile_digits_show_nat [OF assms(2), of "nat i"] by auto
  ultimately show ?thesis
    using assms by (auto simp: show_int_def scan_int_def Let_def c)
      (metis c(1) digits_val_show_nat int_nat_eq linorder_not_less)+
qed

lemma atoi_show_int: "is_int64 i \<Longrightarrow> atoi (show_int i) = Some i"
  using scan_int_show [of i "[]"] by (simp add: atoi_def)

lemma skip_blanks_show_int [simp]: "skip_blanks (show_int i @ r) = show_int i @ r"
proof -
  obtain c cs where "show_nat (nat i) = c # cs" "is_digit c"
    using show_nat_hd by blast
  then show ?thesis
    by (auto simp: skip_blanks_def show_int_def is_digit_def)
qed

lemma sscanf3_show:
  assumes "is_int64 a" "is_int64 b" "is_int64 c"
  shows "sscanf3 (show_int a @ '':'' @ show_int b @ '':'' @ show_int c) = Some (a, b, c)"
  using scan_int_show [OF assms(1), of "'':'' @ show_int b @ '':'' @ show_int c"]
    scan_int_show [OF assms(2), of "'':'' @ show_int c"] scan_int_show [OF assms(3), of "[]"]
    skip_blanks_show_int [of c "[]"]
  by (simp add: sscanf3_def)

end
