(* ===== verification/Go_Path.thy ===== *)
theory Go_Path
  imports Go_Strings
begin

text \<open>
  Go's \<open>path/filepath\<close> on Unix: \<open>Clean\<close>, \<open>Join\<close>, \<open>Dir\<close> and \<open>Base\<close> on strings, and \<open>resolve\<close>,
  the list of directory entries that a path names. \<open>resolve\<close> reads a path the way the kernel
  walks it in directories without symbolic links, a relative path from the working directory
  \<open>/\<close>. The main law is \<open>resolve_Join\<close>: joining a plain name to a path appends one entry.
\<close>

type_synonym path = "string list"

definition slash :: char where
  "slash = CHR ''/''"

lemma slash_simps [simp]: "slash = CHR ''/''" by (simp add: slash_def)

section \<open>Walking the entries\<close>

text \<open>The stack holds the entries so far, the last one first.\<close>

fun norm_step :: "bool \<Rightarrow> string \<Rightarrow> string list \<Rightarrow> string list" where
  "norm_step rooted c st =
     (if c = [] \<or> c = ''.'' then st
      else if c = ''..'' then
        (case st of [] \<Rightarrow> (if rooted then [] else [''..''])
         | t # ts \<Rightarrow> if t = ''..'' then ''..'' # st else ts)
      else c # st)"

definition norm :: "bool \<Rightarrow> string list \<Rightarrow> string list \<Rightarrow> string list" where
  "norm rooted cs st = fold (norm_step rooted) cs st"

definition resolve :: "string \<Rightarrow> path" where
  "resolve s = rev (norm True (split_on (CHR ''/'') s) [])"

definition rooted :: "string \<Rightarrow> bool" where
  "rooted s \<longleftrightarrow> (case s of [] \<Rightarrow> False | c # _ \<Rightarrow> c = CHR ''/'')"

definition Clean :: "string \<Rightarrow> string" where
  "Clean s =
     (let cs = rev (norm (rooted s) (split_on (CHR ''/'') s) [])
      in if rooted s then ''/'' @ join_with ''/'' cs
         else if cs = [] then ''.'' else join_with ''/'' cs)"

definition Join :: "string list \<Rightarrow> string" where
  "Join elems =
     (let es = filter (\<lambda>e. e \<noteq> []) elems
      in if es = [] then [] else Clean (join_with ''/'' es))"

text \<open>\<open>Dir\<close> cleans what is left of the last slash, the slash included.\<close>

definition Dir :: "string \<Rightarrow> string" where
  "Dir s = Clean (rev (dropWhile (\<lambda>c. c \<noteq> CHR ''/'') (rev s)))"

definition Base :: "string \<Rightarrow> string" where
  "Base s =
     (if s = [] then ''.''
      else let t = rev (dropWhile (\<lambda>c. c = CHR ''/'') (rev s))
           in if t = [] then ''/'' else rev (takeWhile (\<lambda>c. c \<noteq> CHR ''/'') (rev t)))"

section \<open>Plain names\<close>

definition plain_name :: "string \<Rightarrow> bool" where
  "plain_name s \<longleftrightarrow> s \<noteq> [] \<and> s \<noteq> ''.'' \<and> s \<noteq> ''..'' \<and> CHR ''/'' \<notin> set s"

lemma plain_nameD:
  "plain_name s \<Longrightarrow> s \<noteq> [] \<and> s \<noteq> ''.'' \<and> s \<noteq> ''..'' \<and> CHR ''/'' \<notin> set s"
  by (simp add: plain_name_def)

lemma norm_Nil [simp]: "norm r [] st = st"
  by (simp add: norm_def)

lemma norm_Cons [simp]: "norm r (c # cs) st = norm r cs (norm_step r c st)"
  by (simp add: norm_def)

lemma norm_append [simp]: "norm r (cs @ ds) st = norm r ds (norm r cs st)"
  by (simp add: norm_def)

lemma norm_step_empty [simp]: "norm_step r [] st = st"
  by simp

lemma norm_step_dot [simp]: "norm_step r ''.'' st = st"
  by simp

lemma norm_step_dotdot_Nil [simp]: "norm_step True ''..'' [] = []"
  by simp

lemma norm_step_plain [simp]: "plain_name c \<Longrightarrow> norm_step r c st = c # st"
  by (auto dest!: plain_nameD)

declare norm_step.simps [simp del]

lemma norm_plain: "\<forall>c\<in>set cs. plain_name c \<Longrightarrow> norm r cs st = rev cs @ st"
  by (induction cs arbitrary: st) simp_all

text \<open>Every entry of a walked path is a plain name; a relative one may start with \<open>..\<close> entries.\<close>

lemma norm_rooted_plain:
  assumes "\<forall>c\<in>set cs. CHR ''/'' \<notin> set c" and "\<forall>c\<in>set st. plain_name c"
  shows "\<forall>c\<in>set (norm True cs st). plain_name c"
  using assms
proof (induction cs arbitrary: st)
  case (Cons c cs)
  have "\<forall>d\<in>set (norm_step True c st). plain_name d"
    using Cons.prems by (auto simp: plain_name_def norm_step.simps split: list.splits)
  then have "\<forall>d\<in>set (norm True cs (norm_step True c st)). plain_name d"
    using Cons.prems(1) by (intro Cons.IH) auto
  then show ?case by (simp only: norm_Cons)
qed simp

lemma resolve_plain: "\<forall>c\<in>set (resolve s). plain_name c"
  using norm_rooted_plain [of "split_on (CHR ''/'') s" "[]"]
  by (auto simp: resolve_def dest: split_on_no_sep)

text \<open>A relative walk and a rooted one agree but for leading \<open>..\<close> entries.\<close>

lemma norm_relative:
  assumes "\<forall>c\<in>set cs. CHR ''/'' \<notin> set c" and "\<forall>p\<in>set ps. plain_name p"
  shows "\<exists>qs j. norm False cs (ps @ replicate k ''..'') = qs @ replicate j ''..'' \<and>
            norm True cs ps = qs \<and> (\<forall>q\<in>set qs. plain_name q)"
  using assms
proof (induction cs arbitrary: ps k)
  case (Cons c cs)
  have "\<exists>ps' k'. norm_step False c (ps @ replicate k ''..'') = ps' @ replicate k' ''..'' \<and>
          norm_step True c ps = ps' \<and> (\<forall>q\<in>set ps'. plain_name q)"
  proof (cases "c = [] \<or> c = ''.''")
    case True
    with Cons.prems show ?thesis by (auto simp: norm_step.simps)
  next
    case ndot: False
    show ?thesis
    proof (cases "c = ''..''")
      case True
      show ?thesis
      proof (cases ps)
        case Nil
        have "norm_step False c (replicate k ''..'') = replicate (Suc k) ''..''"
          using True by (cases k) (auto simp: norm_step.simps)
        moreover have "norm_step True c [] = []" using True by simp
        ultimately show ?thesis using Nil by (metis append_Nil empty_iff empty_set)
      next
        case (Cons p qs)
        with Cons.prems True have "p \<noteq> ''..''" by (auto simp: plain_name_def)
        with Cons True Cons.prems show ?thesis by (auto simp: norm_step.simps)
      qed
    next
      case False
      with ndot Cons.prems have "plain_name c" by (simp add: plain_name_def)
      with ndot False Cons.prems have
        "norm_step False c (ps @ replicate k ''..'') = (c # ps) @ replicate k ''..''"
        "norm_step True c ps = c # ps" "\<forall>q\<in>set (c # ps). plain_name q" by auto
      then show ?thesis by blast
    qed
  qed
  then obtain ps' k' where step: "norm_step False c (ps @ replicate k ''..'') = ps' @ replicate k' ''..''"
    "norm_step True c ps = ps'" "\<forall>q\<in>set ps'. plain_name q" by blast
  with Cons.IH [of ps' k'] Cons.prems(1) show ?case
    by (simp only: norm_Cons) auto
qed auto

lemma norm_dotdots: "norm True (replicate j ''..'') [] = []"
  by (induction j) auto

lemma split_join_plain:
  "\<forall>c\<in>set cs. CHR ''/'' \<notin> set c \<Longrightarrow> cs \<noteq> [] \<Longrightarrow> split_on (CHR ''/'') (join_with ''/'' cs) = cs"
  by (rule split_on_join) auto

lemma norm_join_plain:
  assumes "\<forall>c\<in>set ds. plain_name c"
  shows "norm True (split_on (CHR ''/'') (''/'' @ join_with ''/'' ds)) [] = rev ds"
proof (cases "ds = []")
  case False
  with assms have "split_on (CHR ''/'') (join_with ''/'' ds) = ds"
    by (intro split_join_plain) (auto simp: plain_name_def)
  with norm_plain [OF assms, of True "[]"] show ?thesis by simp
qed simp

lemma resolve_Clean_rooted:
  assumes "rooted s" shows "resolve (Clean s) = resolve s"
proof -
  have "\<forall>c\<in>set (rev (norm True (split_on (CHR ''/'') s) [])). plain_name c"
    using resolve_plain [of s] by (simp add: resolve_def)
  from norm_join_plain [OF this] show ?thesis
    using assms by (simp add: Clean_def resolve_def Let_def)
qed

lemma resolve_dot: "resolve ''.'' = []"
  by (simp add: resolve_def)

lemma resolve_join_relative:
  assumes "\<forall>q\<in>set qs. plain_name q" and "replicate j ''..'' @ rev qs \<noteq> []"
  shows "resolve (join_with ''/'' (replicate j ''..'' @ rev qs)) = rev qs"
proof -
  have "CHR ''/'' \<notin> set c" if "c \<in> set qs" for c
    using assms(1) that by (blast dest: plain_nameD)
  then have "\<forall>c\<in>set (replicate j ''..'' @ rev qs). CHR ''/'' \<notin> set c"
    by (auto dest: in_set_replicate [THEN iffD1])
  from split_join_plain [OF this assms(2)]
  have "split_on (CHR ''/'') (join_with ''/'' (replicate j ''..'' @ rev qs)) = replicate j ''..'' @ rev qs" .
  moreover have "norm True (rev qs) [] = qs"
    using norm_plain [of "rev qs" True "[]"] assms(1) by simp
  ultimately show ?thesis
    by (simp add: resolve_def norm_dotdots)
qed

lemma resolve_Clean_relative:
  assumes "\<not> rooted s" shows "resolve (Clean s) = resolve s"
proof -
  let ?cs = "split_on (CHR ''/'') s"
  have "\<forall>c\<in>set ?cs. CHR ''/'' \<notin> set c" by (auto dest: split_on_no_sep)
  then obtain qs j where q: "norm False ?cs [] = qs @ replicate j ''..''"
    "norm True ?cs [] = qs" "\<forall>q\<in>set qs. plain_name q"
    using norm_relative [of ?cs "[]" 0] by auto
  let ?ds = "replicate j ''..'' @ rev qs"
  have clean: "Clean s = (if ?ds = [] then ''.'' else join_with ''/'' ?ds)"
    using assms q(1) by (simp only: Clean_def Let_def rev_append rev_replicate if_False)
  have res: "resolve s = rev qs" using q(2) by (simp add: resolve_def)
  show ?thesis
  proof (cases "?ds = []")
    case True
    then have "qs = []" by simp
    with True clean res resolve_dot show ?thesis by simp
  next
    case False
    with clean res resolve_join_relative [OF q(3) False] show ?thesis by (simp only: if_False)
  qed
qed

lemma resolve_Clean [simp]: "resolve (Clean s) = resolve s"
  using resolve_Clean_rooted resolve_Clean_relative by blast

lemma resolve_Nil [simp]: "resolve [] = []"
  by (simp add: resolve_def)

lemma resolve_root [simp]: "resolve ''/'' = []"
  by (simp add: resolve_def)

lemma resolve_slash: "resolve (a @ CHR ''/'' # b) = rev (norm True (split_on (CHR ''/'') b) (rev (resolve a)))"
  by (simp add: resolve_def)

lemma resolve_slash_plain: "plain_name b \<Longrightarrow> resolve (a @ CHR ''/'' # b) = resolve a @ [b]"
  by (subst resolve_slash) (auto dest!: plain_nameD simp: plain_name_def)

lemma resolve_Join2 [simp]: "plain_name b \<Longrightarrow> resolve (Join [a, b]) = resolve a @ [b]"
  using resolve_slash_plain [of b a] resolve_slash_plain [of b "[]"]
  by (auto simp: Join_def Let_def dest!: plain_nameD)
    (simp add: plain_name_def resolve_def)

lemma resolve_Join3 [simp]:
  "plain_name b \<Longrightarrow> plain_name c \<Longrightarrow> resolve (Join [a, b, c]) = resolve a @ [b, c]"
  using resolve_slash_plain [of c "a @ CHR ''/'' # b"] resolve_slash_plain [of b a]
    resolve_slash_plain [of c b] resolve_slash_plain [of b "[]"]
  by (auto simp: Join_def Let_def dest!: plain_nameD)
    (simp add: plain_name_def resolve_def)

section \<open>Clean absolute paths\<close>

text \<open>
  The shape the store path has: absolute, cleaned, not the root. For such a path \<open>Join\<close> is
  plain concatenation.
\<close>

definition clean_abs :: "string \<Rightarrow> bool" where
  "clean_abs s \<longleftrightarrow> rooted s \<and> Clean s = s \<and> s \<noteq> ''/''"

lemma clean_abs_rooted: "clean_abs s \<Longrightarrow> rooted s"
  by (simp add: clean_abs_def)

lemma rooted_append: "rooted s \<Longrightarrow> rooted (s @ t)"
  by (cases s) (simp_all add: rooted_def)

lemma clean_abs_resolve: "clean_abs s \<Longrightarrow> s = ''/'' @ join_with ''/'' (resolve s) \<and> resolve s \<noteq> []"
  by (auto simp: clean_abs_def Clean_def resolve_def Let_def)

lemma Clean_plain_suffix:
  assumes "clean_abs s" and "\<forall>c\<in>set cs. plain_name c" and "cs \<noteq> []"
  shows "Clean (s @ ''/'' @ join_with ''/'' cs) = s @ ''/'' @ join_with ''/'' cs"
proof -
  have s: "s = ''/'' @ join_with ''/'' (resolve s)" "resolve s \<noteq> []"
    using clean_abs_resolve [OF assms(1)] by auto
  have r: "rooted (s @ t)" for t
    by (rule rooted_append [OF clean_abs_rooted [OF assms(1)]])
  have sp: "split_on (CHR ''/'') (join_with ''/'' cs) = cs"
    using assms by (intro split_join_plain) (auto simp: plain_name_def)
  have n: "norm True (split_on (CHR ''/'') (s @ ''/'' @ join_with ''/'' cs)) [] = rev (resolve s @ cs)"
    using norm_plain [OF assms(2), of True "rev (resolve s)"] sp by (simp add: resolve_def)
  have "join_with ''/'' (xs @ cs) = join_with ''/'' xs @ ''/'' @ join_with ''/'' cs" if "xs \<noteq> []" for xs
    using that assms(3)
  proof (induction xs rule: induct_list012)
    case (2 x)
    then show ?case by (cases cs) auto
  qed auto
  with s(2) have "''/'' @ join_with ''/'' (resolve s @ cs) = (''/'' @ join_with ''/'' (resolve s)) @ ''/'' @ join_with ''/'' cs"
    by simp
  also have "\<dots> = s @ ''/'' @ join_with ''/'' cs" using s(1) by simp
  finally show ?thesis by (simp add: Clean_def r n Let_def del: append.simps)
qed

lemma clean_abs_not_Nil [simp]: "clean_abs s \<Longrightarrow> s \<noteq> []"
  by (auto dest!: clean_abs_rooted simp: rooted_def)

lemma Join_plain2: "clean_abs s \<Longrightarrow> plain_name a \<Longrightarrow> Join [s, a] = s @ ''/'' @ a"
  using Clean_plain_suffix [of s "[a]"] by (auto simp: Join_def Let_def dest: plain_nameD)

lemma Join_plain3:
  "clean_abs s \<Longrightarrow> plain_name a \<Longrightarrow> plain_name b \<Longrightarrow> Join [s, a, b] = s @ ''/'' @ a @ ''/'' @ b"
  using Clean_plain_suffix [of s "[a, b]"] by (auto simp: Join_def Let_def dest: plain_nameD)

lemma clean_abs_Join2:
  assumes "clean_abs s" and "plain_name a"
  shows "clean_abs (Join [s, a])"
proof -
  have "Clean (s @ ''/'' @ a) = s @ ''/'' @ a"
    using Clean_plain_suffix [OF assms(1), of "[a]"] assms(2) by simp
  moreover have "rooted (s @ t)" for t
    by (rule rooted_append [OF clean_abs_rooted [OF assms(1)]])
  moreover have "s @ ''/'' @ a \<noteq> ''/''"
    using assms(2) clean_abs_not_Nil [OF assms(1)] by (cases s) (auto simp: plain_name_def)
  ultimately show ?thesis
    unfolding clean_abs_def Join_plain2 [OF assms] by blast
qed

lemma plain_no_slash [simp]: "plain_name c \<Longrightarrow> CHR ''/'' \<notin> set c"
  by (simp add: plain_name_def)

section \<open>Going up\<close>

lemma Clean_rooted: "rooted s \<Longrightarrow> Clean s = ''/'' @ join_with ''/'' (resolve s)"
  by (simp add: Clean_def resolve_def Let_def)

lemma rooted_Clean: "rooted s \<Longrightarrow> rooted (Clean s)"
  by (simp add: Clean_rooted) (simp add: rooted_def)

lemma Clean_Clean: "rooted s \<Longrightarrow> Clean (Clean s) = Clean s"
  by (metis Clean_rooted rooted_Clean resolve_Clean)

lemma join_plain_Nil: "\<forall>c\<in>set cs. plain_name c \<Longrightarrow> join_with ''/'' cs = [] \<longleftrightarrow> cs = []"
  by (cases cs rule: remdups_adj.cases) (auto simp: plain_name_def)

lemma Clean_abs: "rooted s \<Longrightarrow> Clean s = ''/'' \<or> clean_abs (Clean s)"
  by (simp add: clean_abs_def Clean_Clean rooted_Clean)

lemma clean_abs_snoc:
  assumes "clean_abs p"
  obtains x c where "p = x @ ''/'' @ c" and "plain_name c" and "resolve p = resolve x @ [c]"
    and "x = [] \<or> rooted x"
proof -
  have p: "p = ''/'' @ join_with ''/'' (resolve p)" and ne: "resolve p \<noteq> []"
    using clean_abs_resolve [OF assms] by auto
  then obtain cs c where r: "resolve p = cs @ [c]" by (metis rev_exhaust)
  then have pl: "\<forall>c\<in>set cs. plain_name c" and c: "plain_name c"
    using resolve_plain [of p] by auto
  define x where "x = (if cs = [] then [] else ''/'' @ join_with ''/'' cs)"
  have "p = x @ ''/'' @ c"
    using p r by (cases "cs = []") (simp_all add: x_def join_with_snoc)
  moreover from this c r have "resolve p = resolve x @ [c]" by (simp add: resolve_slash_plain)
  moreover have "x = [] \<or> rooted x" by (simp add: x_def rooted_def)
  ultimately show ?thesis using c that by blast
qed

lemma resolve_Dir: "clean_abs p \<Longrightarrow> resolve (Dir p) = butlast (resolve p)"
proof -
  assume "clean_abs p"
  then obtain x c where p: "p = x @ ''/'' @ c" "plain_name c" "resolve p = resolve x @ [c]"
    by (rule clean_abs_snoc)
  then have "CHR ''/'' \<notin> set c" by (auto simp: plain_name_def)
  then have "dropWhile (\<lambda>c. c \<noteq> CHR ''/'') (rev p) = CHR ''/'' # rev x"
    by (auto simp: p(1) dropWhile_append3)
  with p show ?thesis by (simp add: Dir_def resolve_slash)
qed

lemma Dir_abs: "rooted p \<Longrightarrow> Dir p = ''/'' \<or> clean_abs (Dir p)"
proof -
  assume r: "rooted p"
  then obtain t where p: "p = CHR ''/'' # t" by (cases p) (auto simp: rooted_def)
  have "rooted (rev (dropWhile (\<lambda>c. c \<noteq> CHR ''/'') (rev p)))"
  proof (cases "CHR ''/'' \<in> set t")
    case True
    then have "dropWhile (\<lambda>c. c \<noteq> CHR ''/'') (rev t @ [CHR ''/'']) = dropWhile (\<lambda>c. c \<noteq> CHR ''/'') (rev t) @ [CHR ''/'']"
      by (intro dropWhile_append1 [where x = "CHR ''/''"]) auto
    with p show ?thesis by (simp add: rooted_def)
  next
    case False
    then show ?thesis by (simp add: p rooted_def dropWhile_append3)
  qed
  then show ?thesis unfolding Dir_def by (rule Clean_abs)
qed

lemma Dir_root [simp]: "Dir ''/'' = ''/''"
  by (simp add: Dir_def Clean_def rooted_def Let_def)

lemma Dir_dot: "Dir ''.'' = ''.''"
  by (simp add: Dir_def Clean_def rooted_def Let_def)

text \<open>Going up from an absolute path comes to the root: the number of entries falls.\<close>

lemma Dir_shorter: "clean_abs p \<Longrightarrow> length (resolve (Dir p)) < length (resolve p)"
  using clean_abs_resolve [of p] by (simp add: resolve_Dir)

end
