(* ===== verification/Go_Errors.thy ===== *)
theory Go_Errors
  imports Go_Strings
begin

text \<open>
  Go's errors as values: the system-call errors of package \<open>os\<close>, plain messages
  (\<open>errors.New\<close>, \<open>Errorf\<close>) and the wrapping of \<open>github.com/pkg/errors\<close>. \<open>error_text\<close> is the
  method \<open>Error()\<close>, \<open>Cause\<close> unwraps, and \<open>IsNotExist\<close>, \<open>IsExist\<close>, \<open>IsPermission\<close> look, as
  package \<open>os\<close> does, at a system-call error only and never inside a wrapped one.
\<close>

datatype errno =
    ENOENT | EEXIST | ENOTEMPTY | ENOTDIR | EISDIR | EACCES | EPERM | EINVAL | EXDEV
  | EIO | ENOSPC | EBUSY | EINTR | ENOSYS | ELOOP

datatype error =
    PathError string string errno           \<comment> \<open>operation, path, number\<close>
  | LinkError string string string errno    \<comment> \<open>operation, old path, new path, number\<close>
  | SysError errno
  | Plain string
  | Wrap string error                       \<comment> \<open>message, cause\<close>
  | Panic string                            \<comment> \<open>not an error value: the goroutine panics\<close>

fun errno_text :: "errno \<Rightarrow> string" where
  "errno_text ENOENT = ''no such file or directory''"
| "errno_text EEXIST = ''file exists''"
| "errno_text ENOTEMPTY = ''directory not empty''"
| "errno_text ENOTDIR = ''not a directory''"
| "errno_text EISDIR = ''is a directory''"
| "errno_text EACCES = ''permission denied''"
| "errno_text EPERM = ''operation not permitted''"
| "errno_text EINVAL = ''invalid argument''"
| "errno_text EXDEV = ''invalid cross-device link''"
| "errno_text EIO = ''input/output error''"
| "errno_text ENOSPC = ''no space left on device''"
| "errno_text EBUSY = ''device or resource busy''"
| "errno_text EINTR = ''interrupted system call''"
| "errno_text ENOSYS = ''function not implemented''"
| "errno_text ELOOP = ''too many levels of symbolic links''"

fun error_text :: "error \<Rightarrow> string" where
  "error_text (PathError oper p e) = oper @ '' '' @ p @ '': '' @ errno_text e"
| "error_text (LinkError oper p q e) = oper @ '' '' @ p @ '' '' @ q @ '': '' @ errno_text e"
| "error_text (SysError e) = errno_text e"
| "error_text (Plain m) = m"
| "error_text (Wrap m e) = m @ '': '' @ error_text e"
| "error_text (Panic m) = ''panic: '' @ m"

fun Cause :: "error \<Rightarrow> error" where
  "Cause (Wrap m e) = Cause e"
| "Cause e = e"

definition is_panic :: "error \<Rightarrow> bool" where
  "is_panic e \<longleftrightarrow> (case e of Panic _ \<Rightarrow> True | _ \<Rightarrow> False)"

fun underlying :: "error \<Rightarrow> errno option" where
  "underlying (PathError _ _ e) = Some e"
| "underlying (LinkError _ _ _ e) = Some e"
| "underlying (SysError e) = Some e"
| "underlying _ = None"

definition IsNotExist :: "error \<Rightarrow> bool" where
  "IsNotExist e \<longleftrightarrow> underlying e = Some ENOENT"

definition IsExist :: "error \<Rightarrow> bool" where
  "IsExist e \<longleftrightarrow> underlying e = Some EEXIST \<or> underlying e = Some ENOTEMPTY"

definition IsPermission :: "error \<Rightarrow> bool" where
  "IsPermission e \<longleftrightarrow> underlying e = Some EACCES \<or> underlying e = Some EPERM"

lemma IsNotExist_Wrap [simp]: "\<not> IsNotExist (Wrap m e)"
  by (simp add: IsNotExist_def)

lemma Cause_not_Wrap: "Cause e \<noteq> Wrap m f"
  by (induction e) auto

end
