(* ===== verification/Go_OS.thy ===== *)
theory Go_OS
  imports Go_Path Go_Errors "HOL-Library.Word"
begin

unbundle bit_operations_syntax

text \<open>
  The operating system as the program sees it through package \<open>os\<close>, \<open>io/ioutil\<close>, \<open>os/exec\<close>,
  \<open>syscall\<close> and \<open>time\<close>. A \<open>world\<close> is a file system, the locks this process holds, a clock that
  counts system calls, what has been printed and emitted, and an environment \<open>env\<close> that no
  operation of the program changes.

  \<^item> The file system is a list of path/node pairs; the first entry for a path counts. The
    directories that the store consists of hold no symbolic links, so a path is walked entry by
    entry (\<open>resolve\<close>).
  \<^item> Every system call ticks the clock. \<open>e_faults\<close> says which ticks fail and with which error
    number: a failing call changes nothing but the clock. All error branches of the program are
    reached by some choice of \<open>e_faults\<close>, and a theorem without a hypothesis on it holds for
    every such choice.
  \<^item> External programs (\<open>btrfs\<close>, \<open>mkfs\<close>, \<open>mount\<close>, \<open>du\<close>, \<open>newuidmap\<close>) are the parameter
    \<open>e_progs\<close>: from the program's name, its arguments and the files to what it prints, its exit
    status and the files afterwards. Nothing is assumed about them here.
  \<^item> \<open>e_order\<close> is the order in which Go ranges over a map.
\<close>

section \<open>The file system\<close>

datatype kind = Directory | Subvolume | File string | Symlink string

type_synonym filemode = "32 word"

record node =
  nd_kind :: kind
  nd_mode :: filemode
  nd_uid :: int
  nd_gid :: int
  nd_mtime :: int

type_synonym fsys = "(path \<times> node) list"

definition is_dir :: "node \<Rightarrow> bool" where
  "is_dir n = (case nd_kind n of Directory \<Rightarrow> True | Subvolume \<Rightarrow> True | File _ \<Rightarrow> False | Symlink _ \<Rightarrow> False)"

definition mode_setuid :: filemode where
  "mode_setuid = push_bit 23 1"

definition fs_get :: "fsys \<Rightarrow> path \<Rightarrow> node option" where
  "fs_get fs p = map_of fs p"

definition dir_at :: "fsys \<Rightarrow> path \<Rightarrow> bool" where
  "dir_at fs p \<longleftrightarrow> (case fs_get fs p of Some n \<Rightarrow> is_dir n | None \<Rightarrow> False)"

definition fs_put :: "path \<Rightarrow> node \<Rightarrow> fsys \<Rightarrow> fsys" where
  "fs_put p n fs = (p, n) # filter (\<lambda>(q, _). q \<noteq> p) fs"

definition fs_rm :: "path \<Rightarrow> fsys \<Rightarrow> fsys" where
  "fs_rm p fs = filter (\<lambda>(q, _). q \<noteq> p) fs"

definition fs_rm_tree :: "path \<Rightarrow> fsys \<Rightarrow> fsys" where
  "fs_rm_tree p fs = filter (\<lambda>(q, _). \<not> prefix p q) fs"

text \<open>Moving \<open>p\<close> to \<open>q\<close> takes everything below along.\<close>

definition fs_move :: "path \<Rightarrow> path \<Rightarrow> fsys \<Rightarrow> fsys" where
  "fs_move p q fs = map (\<lambda>(r, n). (if prefix p r then q @ drop (length p) r else r, n)) (fs_rm_tree q fs)"

definition fs_copy :: "path \<Rightarrow> path \<Rightarrow> fsys \<Rightarrow> fsys" where
  "fs_copy p q fs = map (\<lambda>(r, n). (q @ drop (length p) r, n)) (filter (\<lambda>(r, _). prefix p r) fs) @ fs_rm_tree q fs"

text \<open>A directory has no entry whose name is not a plain one.\<close>

definition fs_children :: "path \<Rightarrow> fsys \<Rightarrow> string list" where
  "fs_children p fs =
     sort (remdups (filter plain_name (map (last \<circ> fst) (filter (\<lambda>(r, _). r \<noteq> [] \<and> butlast r = p) fs))))"

lemma fs_get_put [fs_simps]: "fs_get (fs_put p n fs) q = (if q = p then Some n else fs_get fs q)"
  by (induction fs) (auto simp: fs_get_def fs_put_def)

lemma fs_get_rm [fs_simps]: "fs_get (fs_rm p fs) q = (if q = p then None else fs_get fs q)"
  by (induction fs) (auto simp: fs_get_def fs_rm_def)

lemma fs_get_rm_tree [fs_simps]:
  "fs_get (fs_rm_tree p fs) q = (if prefix p q then None else fs_get fs q)"
  by (induction fs) (auto simp: fs_get_def fs_rm_tree_def)

lemma fs_get_Nil [simp]: "fs_get [] x = None"
  by (simp add: fs_get_def)

lemma fs_get_Cons: "fs_get ((k, v) # fs) x = (if k = x then Some v else fs_get fs x)"
  by (simp add: fs_get_def)

lemma fs_get_map_tree:
  "fs_get (map (\<lambda>(r, n). (if prefix p r then q @ drop (length p) r else r, n)) fs) (q @ x) =
     fs_get fs (p @ x)"
  if "\<And>r n. (r, n) \<in> set fs \<Longrightarrow> \<not> prefix q r"
  using that
proof (induction fs)
  case (Cons a fs)
  obtain r n where a: "a = (r, n)" by (cases a)
  with Cons.prems have nq: "\<not> prefix q r" by auto
  have "(if prefix p r then q @ drop (length p) r else r) = q @ x \<longleftrightarrow> r = p @ x"
    using nq by (auto simp: prefix_def)
  moreover have "fs_get (map (\<lambda>(r, n). (if prefix p r then q @ drop (length p) r else r, n)) fs) (q @ x) = fs_get fs (p @ x)"
    using Cons.prems by (intro Cons.IH) auto
  ultimately show ?case by (simp only: a list.map prod.case fs_get_Cons)
qed simp

lemma fs_get_map_other:
  "fs_get (map (\<lambda>(r, n). (if prefix p r then q @ drop (length p) r else r, n)) fs) x =
     (if prefix p x then None else fs_get fs x)"
  if "\<not> prefix q x"
  using that
proof (induction fs)
  case (Cons a fs)
  obtain r n where a: "a = (r, n)" by (cases a)
  have "(if prefix p r then q @ drop (length p) r else r) = x \<longleftrightarrow> \<not> prefix p r \<and> r = x"
    using Cons.prems by (auto simp: prefix_def)
  with Cons a show ?case by (auto simp: fs_get_Cons)
qed simp

lemma fs_get_move [fs_simps]:
  "fs_get (fs_move p q fs) x =
     (if prefix q x then fs_get (fs_rm_tree q fs) (p @ drop (length q) x)
      else if prefix p x then None else fs_get fs x)"
proof (cases "prefix q x")
  case True
  then obtain y where x: "x = q @ y" by (auto simp: prefix_def)
  have "\<And>r n. (r, n) \<in> set (fs_rm_tree q fs) \<Longrightarrow> \<not> prefix q r"
    by (auto simp: fs_rm_tree_def)
  from fs_get_map_tree [of "fs_rm_tree q fs" q p y, OF this]
  show ?thesis by (simp add: fs_move_def x)
next
  case False
  with fs_get_map_other [of q x p "fs_rm_tree q fs"] show ?thesis
    by (simp add: fs_move_def fs_get_rm_tree)
qed

lemma fs_get_copy_prefix:
  "fs_get (map (\<lambda>(r, n). (q @ drop (length p) r, n)) (filter (\<lambda>(r, _). prefix p r) fs)) (q @ y) =
     fs_get fs (p @ y)"
proof (induction fs)
  case (Cons a fs)
  obtain r n where a: "a = (r, n)" by (cases a)
  show ?case
  proof (cases "prefix p r")
    case True
    then have "q @ drop (length p) r = q @ y \<longleftrightarrow> r = p @ y" by (auto simp: prefix_def)
    with Cons True show ?thesis by (simp add: a fs_get_Cons)
  next
    case False
    then have "r \<noteq> p @ y" by auto
    with Cons False show ?thesis by (simp add: a fs_get_Cons)
  qed
qed simp

lemma fs_get_copy_other:
  "\<not> prefix q x \<Longrightarrow>
   fs_get (map (\<lambda>(r, n). (q @ drop (length p) r, n)) (filter (\<lambda>(r, _). prefix p r) fs)) x = None"
  by (induction fs) (auto simp: fs_get_def prefix_def)

lemma fs_get_append: "fs_get (xs @ ys) q = (case fs_get xs q of None \<Rightarrow> fs_get ys q | Some n \<Rightarrow> Some n)"
  by (simp add: fs_get_def map_add_def split: option.splits)

lemma fs_get_copy [fs_simps]:
  "fs_get (fs_copy p q fs) x =
     (if prefix q x then fs_get fs (p @ drop (length q) x) else fs_get fs x)"
proof (cases "prefix q x")
  case True
  then obtain y where "x = q @ y" by (auto simp: prefix_def)
  then show ?thesis
    using fs_get_copy_prefix [of q p fs y]
    by (auto simp: fs_copy_def fs_get_append fs_get_rm_tree split: option.splits)
next
  case False
  then show ?thesis
    using fs_get_copy_other [of q x p fs]
    by (simp add: fs_copy_def fs_get_append fs_get_rm_tree)
qed

lemma fs_get_dom: "fs_get fs p \<noteq> None \<longleftrightarrow> p \<in> fst ` set fs"
  by (simp add: fs_get_def map_of_eq_None_iff)

lemma set_fs_children: "set (fs_children p fs) = {c. plain_name c \<and> fs_get fs (p @ [c]) \<noteq> None}"
proof (rule set_eqI)
  fix c
  have "c \<in> set (fs_children p fs) \<longleftrightarrow> plain_name c \<and> (\<exists>r \<in> fst ` set fs. r \<noteq> [] \<and> butlast r = p \<and> last r = c)"
    by (force simp: fs_children_def)
  also have "\<dots> \<longleftrightarrow> plain_name c \<and> p @ [c] \<in> fst ` set fs"
    by (metis append_butlast_last_id butlast_snoc last_snoc snoc_eq_iff_butlast)
  finally show "c \<in> set (fs_children p fs) \<longleftrightarrow> c \<in> {c. plain_name c \<and> fs_get fs (p @ [c]) \<noteq> None}"
    by (simp only: fs_get_dom mem_Collect_eq)
qed

lemma distinct_fs_children: "distinct (fs_children p fs)"
  by (simp add: fs_children_def)

lemma sorted_fs_children: "sorted (fs_children p fs)"
  by (simp add: fs_children_def)

end
