(* ===== verification/Go_World.thy ===== *)
theory Go_World
  imports Go_OS
begin

text \<open>
  The world, the system calls of packages \<open>os\<close>, \<open>ioutil\<close>, \<open>syscall\<close> and \<open>os/exec\<close> on it, and
  their laws. A system call is a function of the environment and the files that fails with an
  error number or gives a result and new files; \<open>syscall\<close> ticks the clock and injects the fault
  that \<open>e_faults\<close> has for the tick. Two families of laws follow:

  \<^item> \<open>within E X\<close> (frame): in every run from an environment in \<open>E\<close>, the environment, the locks
    held and every path outside \<open>X\<close> are as before;
  \<^item> \<open>wp_quiet\<close>: what a call does when no fault is injected.
\<close>

section \<open>State\<close>

record cmd_result =
  c_status :: "error option"
  c_out :: string
  c_err :: string
  c_both :: string   \<comment> \<open>standard output and standard error as one stream\<close>

record statfs =
  st_type :: int
  st_bsize :: int
  st_blocks :: int
  st_bfree :: int

datatype lock_mode = LOCK_EX | LOCK_SH

datatype event =
    EvDuration string int
  | EvUsage string int string
  | EvCounter string
  | EvError string string int

record env =
  e_progs :: "string \<Rightarrow> string list \<Rightarrow> fsys \<Rightarrow> cmd_result \<times> fsys"
  e_faults :: "nat \<Rightarrow> errno option"
  e_lookpath :: "string \<Rightarrow> string option"
  e_statfs :: "fsys \<Rightarrow> path \<Rightarrow> statfs"
  e_uid :: int
  e_gid :: int
  e_euid :: int
  e_umask :: filemode
  e_time :: "nat \<Rightarrow> int"
  e_rand :: "nat \<Rightarrow> int"
  e_order :: "string list \<Rightarrow> string list"

record world =
  w_env :: env
  w_fs :: fsys
  w_clock :: nat
  w_locks :: "(nat \<times> path \<times> lock_mode) list"
  w_events :: "event list"
  w_stdout :: "string list"

type_synonym 'a io = "(world, 'a) state"

abbreviation tick :: "world \<Rightarrow> world" where
  "tick w \<equiv> w\<lparr>w_clock := Suc (w_clock w)\<rparr>"

definition quiet :: "world \<Rightarrow> bool" where
  "quiet w \<longleftrightarrow> e_faults (w_env w) = (\<lambda>_. None)"

definition syscall :: "(errno \<Rightarrow> error) \<Rightarrow> (env \<Rightarrow> fsys \<Rightarrow> errno + 'a \<times> fsys) \<Rightarrow> (error + 'a) io" where
  "syscall mk f = State (\<lambda>w.
     (case e_faults (w_env w) (w_clock w) of
        Some e \<Rightarrow> (Inl (mk e), tick w)
      | None \<Rightarrow>
          (case f (w_env w) (w_fs w) of
             Inl e \<Rightarrow> (Inl (mk e), tick w)
           | Inr (x, fs') \<Rightarrow> (Inr x, (tick w)\<lparr>w_fs := fs'\<rparr>))))"

section \<open>Kernel operations on entries\<close>

definition k_lookup :: "fsys \<Rightarrow> path \<Rightarrow> errno + node" where
  "k_lookup fs p =
     (case fs_get fs p of
        Some n \<Rightarrow> Inr n
      | None \<Rightarrow>
          if list_ex (\<lambda>q. case fs_get fs q of Some n \<Rightarrow> \<not> is_dir n | None \<Rightarrow> False) (prefixes p)
          then Inl ENOTDIR else Inl ENOENT)"

definition k_parent :: "fsys \<Rightarrow> path \<Rightarrow> errno option" where
  "k_parent fs p =
     (case k_lookup fs (butlast p) of
        Inl e \<Rightarrow> Some e
      | Inr n \<Rightarrow> if is_dir n then None else Some ENOTDIR)"

definition new_node :: "env \<Rightarrow> kind \<Rightarrow> filemode \<Rightarrow> node" where
  "new_node v k m =
     \<lparr>nd_kind = k, nd_mode = m AND NOT (e_umask v), nd_uid = e_euid v, nd_gid = e_gid v, nd_mtime = 0\<rparr>"

definition k_stat :: "path \<Rightarrow> env \<Rightarrow> fsys \<Rightarrow> errno + node \<times> fsys" where
  "k_stat p v fs = (case k_lookup fs p of Inl e \<Rightarrow> Inl e | Inr n \<Rightarrow> Inr (n, fs))"

definition k_mkdir :: "path \<Rightarrow> filemode \<Rightarrow> env \<Rightarrow> fsys \<Rightarrow> errno + unit \<times> fsys" where
  "k_mkdir p m v fs =
     (case fs_get fs p of
        Some _ \<Rightarrow> Inl EEXIST
      | None \<Rightarrow>
          (case k_parent fs p of
             Some e \<Rightarrow> Inl e
           | None \<Rightarrow> Inr ((), fs_put p (new_node v Directory m) fs)))"

fun k_mkdirs :: "path list \<Rightarrow> filemode \<Rightarrow> env \<Rightarrow> fsys \<Rightarrow> errno + unit \<times> fsys" where
  "k_mkdirs [] m v fs = Inr ((), fs)"
| "k_mkdirs (p # ps) m v fs =
     (case fs_get fs p of
        Some n \<Rightarrow> if is_dir n then k_mkdirs ps m v fs else Inl ENOTDIR
      | None \<Rightarrow> k_mkdirs ps m v (fs_put p (new_node v Directory m) fs))"

text \<open>\<open>rmdir\<close> of a subvolume is what kernels since 4.18 do with an empty one.\<close>

definition k_remove :: "path \<Rightarrow> env \<Rightarrow> fsys \<Rightarrow> errno + unit \<times> fsys" where
  "k_remove p v fs =
     (case k_lookup fs p of
        Inl e \<Rightarrow> Inl e
      | Inr n \<Rightarrow> if is_dir n \<and> fs_children p fs \<noteq> [] then Inl ENOTEMPTY else Inr ((), fs_rm p fs))"

definition k_remove_all :: "path \<Rightarrow> env \<Rightarrow> fsys \<Rightarrow> errno + unit \<times> fsys" where
  "k_remove_all p v fs = Inr ((), fs_rm_tree p fs)"

text \<open>\<open>os.Rename\<close> refuses every target that is a directory before it calls \<open>rename(2)\<close>.\<close>

definition k_rename :: "path \<Rightarrow> path \<Rightarrow> env \<Rightarrow> fsys \<Rightarrow> errno + unit \<times> fsys" where
  "k_rename p q v fs =
     (case fs_get fs q of
        Some n \<Rightarrow>
          if is_dir n then Inl EEXIST
          else (case k_lookup fs p of
                  Inl e \<Rightarrow> Inl e
                | Inr m \<Rightarrow> if is_dir m then Inl ENOTDIR
                           else if p = q then Inr ((), fs) else Inr ((), fs_move p q fs))
      | None \<Rightarrow>
          (case k_lookup fs p of
             Inl e \<Rightarrow> Inl e
           | Inr m \<Rightarrow>
               if prefix p q then Inl EINVAL
               else (case k_parent fs q of Some e \<Rightarrow> Inl e | None \<Rightarrow> Inr ((), fs_move p q fs))))"

definition k_read_dir :: "path \<Rightarrow> env \<Rightarrow> fsys \<Rightarrow> errno + string list \<times> fsys" where
  "k_read_dir p v fs =
     (case k_lookup fs p of
        Inl e \<Rightarrow> Inl e
      | Inr n \<Rightarrow> if is_dir n then Inr (fs_children p fs, fs) else Inl ENOTDIR)"

definition k_read_file :: "path \<Rightarrow> env \<Rightarrow> fsys \<Rightarrow> errno + string \<times> fsys" where
  "k_read_file p v fs =
     (case k_lookup fs p of
        Inl e \<Rightarrow> Inl e
      | Inr n \<Rightarrow> (case nd_kind n of File s \<Rightarrow> Inr (s, fs) | _ \<Rightarrow> Inl EISDIR))"

text \<open>\<open>open\<close> with \<open>O_CREATE\<close>, and \<open>O_TRUNC\<close> when \<open>trunc\<close> holds.\<close>

definition k_open_create :: "bool \<Rightarrow> path \<Rightarrow> filemode \<Rightarrow> env \<Rightarrow> fsys \<Rightarrow> errno + unit \<times> fsys" where
  "k_open_create trunc p m v fs =
     (case fs_get fs p of
        Some n \<Rightarrow>
          if is_dir n then Inl EISDIR
          else Inr ((), if trunc then fs_put p (n\<lparr>nd_kind := File []\<rparr>) fs else fs)
      | None \<Rightarrow>
          (case k_parent fs p of
             Some e \<Rightarrow> Inl e
           | None \<Rightarrow> Inr ((), fs_put p (new_node v (File []) m) fs)))"

definition k_write :: "path \<Rightarrow> string \<Rightarrow> env \<Rightarrow> fsys \<Rightarrow> errno + unit \<times> fsys" where
  "k_write p s v fs =
     (case k_lookup fs p of
        Inl e \<Rightarrow> Inl e
      | Inr n \<Rightarrow> if is_dir n then Inl EISDIR else Inr ((), fs_put p (n\<lparr>nd_kind := File s\<rparr>) fs))"

definition k_update :: "path \<Rightarrow> (node \<Rightarrow> node) \<Rightarrow> env \<Rightarrow> fsys \<Rightarrow> errno + unit \<times> fsys" where
  "k_update p g v fs =
     (case k_lookup fs p of Inl e \<Rightarrow> Inl e | Inr n \<Rightarrow> Inr ((), fs_put p (g n) fs))"

section \<open>The calls of package os\<close>

definition os_Stat :: "string \<Rightarrow> (error + node) io" where
  "os_Stat p = syscall (PathError ''stat'' p) (k_stat (resolve p))"

text \<open>
  An empty path names nothing. Where the program gives calls a path that it did not join, it may be
  empty: this is the call for such a path.
\<close>

definition os_Stat_any :: "string \<Rightarrow> (error + node) io" where
  "os_Stat_any p = (if p = [] then syscall (PathError ''stat'' p) (\<lambda>_ _. Inl ENOENT) else os_Stat p)"

definition os_Lstat :: "string \<Rightarrow> (error + node) io" where
  "os_Lstat p = syscall (PathError ''lstat'' p) (k_stat (resolve p))"

definition os_Mkdir :: "string \<Rightarrow> filemode \<Rightarrow> (error + unit) io" where
  "os_Mkdir p m = syscall (PathError ''mkdir'' p) (k_mkdir (resolve p) m)"

definition os_MkdirAll :: "string \<Rightarrow> filemode \<Rightarrow> (error + unit) io" where
  "os_MkdirAll p m = syscall (PathError ''mkdir'' p) (k_mkdirs (tl (prefixes (resolve p))) m)"

definition os_Remove :: "string \<Rightarrow> (error + unit) io" where
  "os_Remove p = syscall (PathError ''remove'' p) (k_remove (resolve p))"

definition os_RemoveAll :: "string \<Rightarrow> (error + unit) io" where
  "os_RemoveAll p = syscall (PathError ''unlinkat'' p) (k_remove_all (resolve p))"

definition os_Rename :: "string \<Rightarrow> string \<Rightarrow> (error + unit) io" where
  "os_Rename p q = syscall (LinkError ''rename'' p q) (k_rename (resolve p) (resolve q))"

definition os_Chown :: "string \<Rightarrow> int \<Rightarrow> int \<Rightarrow> (error + unit) io" where
  "os_Chown p u g = syscall (PathError ''chown'' p)
     (k_update (resolve p) (\<lambda>n. n\<lparr>nd_uid := (if u = -1 then nd_uid n else u), nd_gid := (if g = -1 then nd_gid n else g)\<rparr>))"

definition os_Chmod :: "string \<Rightarrow> filemode \<Rightarrow> (error + unit) io" where
  "os_Chmod p m = syscall (PathError ''chmod'' p) (k_update (resolve p) (\<lambda>n. n\<lparr>nd_mode := m\<rparr>))"

text \<open>\<open>os.Truncate\<close> sets the length; content beyond the old end reads as zero bytes.\<close>

definition os_Truncate :: "string \<Rightarrow> int \<Rightarrow> (error + unit) io" where
  "os_Truncate p len = syscall (PathError ''truncate'' p) (\<lambda>v fs.
     (case k_lookup fs (resolve p) of
        Inl e \<Rightarrow> Inl e
      | Inr n \<Rightarrow>
          (case nd_kind n of
             File s \<Rightarrow> if len < 0 then Inl EINVAL
                       else Inr ((), fs_put (resolve p)
                              (n\<lparr>nd_kind := File (take (nat len) s @ replicate (nat len - length s) (CHR 0x00))\<rparr>) fs)
           | _ \<Rightarrow> Inl EISDIR)))"

definition ioutil_ReadDir :: "string \<Rightarrow> (error + string list) io" where
  "ioutil_ReadDir p = syscall (PathError ''open'' p) (k_read_dir (resolve p))"

definition ioutil_ReadFile :: "string \<Rightarrow> (error + string) io" where
  "ioutil_ReadFile p = syscall (PathError ''open'' p) (k_read_file (resolve p))"

text \<open>Opening to read fails for what does not exist; directories can be opened.\<close>

definition os_Open :: "string \<Rightarrow> (error + unit) io" where
  "os_Open p = syscall (PathError ''open'' p) (\<lambda>v fs.
     (case k_lookup fs (resolve p) of Inl e \<Rightarrow> Inl e | Inr n \<Rightarrow> Inr ((), fs)))"

definition os_Create :: "string \<Rightarrow> (error + unit) io" where
  "os_Create p = syscall (PathError ''open'' p) (k_open_create True (resolve p) 0x1B6)"

definition os_OpenCreate :: "string \<Rightarrow> filemode \<Rightarrow> (error + unit) io" where
  "os_OpenCreate p m = syscall (PathError ''open'' p) (k_open_create False (resolve p) m)"

definition file_Write :: "string \<Rightarrow> string \<Rightarrow> (error + unit) io" where
  "file_Write p s = syscall (PathError ''write'' p) (k_write (resolve p) s)"

definition file_Read :: "string \<Rightarrow> (error + string) io" where
  "file_Read p = syscall (PathError ''read'' p) (k_read_file (resolve p))"

definition ioutil_WriteFile :: "string \<Rightarrow> string \<Rightarrow> filemode \<Rightarrow> (error + unit) io" where
  "ioutil_WriteFile p s m =
     or_return (syscall (PathError ''open'' p) (k_open_create True (resolve p) m)) id (\<lambda>_. file_Write p s)"

text \<open>\<open>Readdir(-1)\<close> lists a directory in no particular order.\<close>

definition file_Readdir :: "string \<Rightarrow> (error + string list) io" where
  "file_Readdir p = do {
     order \<leftarrow> gets (\<lambda>w. e_order (w_env w));
     or_return (syscall (PathError ''readdirent'' p) (k_read_dir (resolve p))) id (\<lambda>xs. ok (order xs))
   }"

definition syscall_Statfs :: "string \<Rightarrow> (error + statfs) io" where
  "syscall_Statfs p = syscall SysError (\<lambda>v fs.
     (case k_lookup fs (resolve p) of Inl e \<Rightarrow> Inl e | Inr n \<Rightarrow> Inr (e_statfs v fs (resolve p), fs)))"

definition os_Getuid :: "int io" where
  "os_Getuid = gets (\<lambda>w. e_uid (w_env w))"

definition os_Getgid :: "int io" where
  "os_Getgid = gets (\<lambda>w. e_gid (w_env w))"

definition os_Geteuid :: "int io" where
  "os_Geteuid = gets (\<lambda>w. e_euid (w_env w))"

definition time_Now :: "int io" where
  "time_Now = gets (\<lambda>w. e_time (w_env w) (w_clock w))"

definition rand_Int :: "int io" where
  "rand_Int = gets (\<lambda>w. e_rand (w_env w) (w_clock w))"

definition range_order :: "string list \<Rightarrow> string list io" where
  "range_order xs = gets (\<lambda>w. e_order (w_env w) xs)"

definition emit :: "event \<Rightarrow> unit io" where
  "emit ev = modify (\<lambda>w. w\<lparr>w_events := w_events w @ [ev]\<rparr>)"

definition write_stdout :: "string \<Rightarrow> unit io" where
  "write_stdout s = modify (\<lambda>w. w\<lparr>w_stdout := w_stdout w @ [s]\<rparr>)"

section \<open>Running programs\<close>

text \<open>A fault means that the program could not be started; then it has no effect.\<close>

definition run_cmd :: "string \<Rightarrow> string list \<Rightarrow> cmd_result io" where
  "run_cmd bin args = State (\<lambda>w.
     (case e_faults (w_env w) (w_clock w) of
        Some e \<Rightarrow> (\<lparr>c_status = Some (PathError ''fork/exec'' bin e), c_out = [], c_err = [], c_both = []\<rparr>, tick w)
      | None \<Rightarrow>
          (case e_progs (w_env w) bin args (w_fs w) of
             (r, fs') \<Rightarrow> (r, (tick w)\<lparr>w_fs := fs'\<rparr>))))"

definition exec_LookPath :: "string \<Rightarrow> (error + string) io" where
  "exec_LookPath bin = gets (\<lambda>w. case e_lookpath (w_env w) bin of
     Some p \<Rightarrow> Inr p | None \<Rightarrow> Inl (Plain (''exec: '' @ bin @ '': executable file not found in $PATH'')))"

section \<open>Advisory locks\<close>

text \<open>
  One process at a time is followed, so \<open>flock\<close> does not block here; the protocol between
  processes is the subject of theory \<open>Lock_Protocol\<close>. A lock belongs to an open file, named by
  the tick at which it was opened, and goes away when that file is closed.
\<close>

definition flock :: "nat \<Rightarrow> string \<Rightarrow> lock_mode \<Rightarrow> (error + unit) io" where
  "flock fd p lm = State (\<lambda>w.
     (case e_faults (w_env w) (w_clock w) of
        Some e \<Rightarrow> (Inl (SysError e), tick w)
      | None \<Rightarrow> (Inr (), (tick w)\<lparr>w_locks := (fd, resolve p, lm) # w_locks w\<rparr>)))"

definition flock_unlock :: "nat \<Rightarrow> (error + unit) io" where
  "flock_unlock fd = State (\<lambda>w.
     (case e_faults (w_env w) (w_clock w) of
        Some e \<Rightarrow> (Inl (SysError e), tick w)
      | None \<Rightarrow> (Inr (), (tick w)\<lparr>w_locks := filter (\<lambda>l. fst l \<noteq> fd) (w_locks w)\<rparr>)))"

definition close_lock_file :: "nat \<Rightarrow> unit io" where
  "close_lock_file fd = modify (\<lambda>w. w\<lparr>w_locks := filter (\<lambda>l. fst l \<noteq> fd) (w_locks w)\<rparr>)"

end
