(* ===== verification/Go_Laws.thy ===== *)
theory Go_Laws
  imports Go_World
begin

text \<open>
  Laws of the system calls of \<open>Go_World\<close>. \<open>within E X\<close> is the frame relation (only paths in \<open>X\<close>
  may change, if the environment satisfies \<open>E\<close>), \<open>same_env\<close> and \<open>same_locks\<close> say that the
  environment and the locks held stay (and the clock does not go back); each has one rule per call, in \<open>evolves_rules\<close>. The
  \<open>wp_*\<close> lemmas give the effect of a call when no fault is injected.
\<close>

section \<open>Frame relations\<close>

definition same_env :: "world \<Rightarrow> world \<Rightarrow> bool" where
  "same_env w w' \<longleftrightarrow> w_env w' = w_env w"

definition same_locks :: "world \<Rightarrow> world \<Rightarrow> bool" where
  "same_locks w w' \<longleftrightarrow> w_locks w' = w_locks w \<and> w_clock w \<le> w_clock w'"

definition within :: "(env \<Rightarrow> bool) \<Rightarrow> path set \<Rightarrow> world \<Rightarrow> world \<Rightarrow> bool" where
  "within E X w w' \<longleftrightarrow>
     (E (w_env w) \<longrightarrow> w_env w' = w_env w \<and> (\<forall>p. p \<notin> X \<longrightarrow> fs_get (w_fs w') p = fs_get (w_fs w) p))"

text \<open>Everything at or below a path.\<close>

definition below :: "path \<Rightarrow> path set" where
  "below p = {q. prefix p q}"

lemma below_iff [simp]: "q \<in> below p \<longleftrightarrow> prefix p q"
  by (simp add: below_def)

lemma preorder_same_env [simp, evolves_rules]: "preorder_on_state same_env"
  by (simp add: preorder_on_state_def same_env_def)

lemma preorder_same_locks [simp, evolves_rules]: "preorder_on_state same_locks"
  by (auto simp: preorder_on_state_def same_locks_def)

lemma preorder_within [simp, evolves_rules]: "preorder_on_state (within E X)"
  by (simp add: preorder_on_state_def within_def)

lemma within_mono: "within E X w w' \<Longrightarrow> X \<subseteq> Y \<Longrightarrow> within E Y w w'"
  by (auto simp: within_def)

lemma within_trans: "within E X w w' \<Longrightarrow> within E X w' w'' \<Longrightarrow> within E X w w''"
  by (auto simp: within_def)

lemma within_refl [simp]: "within E X w w"
  by (simp add: within_def)

lemma withinD:
  "within E X w w' \<Longrightarrow> E (w_env w) \<Longrightarrow> p \<notin> X \<Longrightarrow> fs_get (w_fs w') p = fs_get (w_fs w) p"
  by (simp add: within_def)

lemma within_envD: "within E X w w' \<Longrightarrow> E (w_env w) \<Longrightarrow> w_env w' = w_env w"
  by (simp add: within_def)

section \<open>Generic rules\<close>

lemma evolves_syscall:
  assumes "\<And>w. R w (tick w)"
    and "\<And>w x fs'. f (w_env w) (w_fs w) = Inr (x, fs') \<Longrightarrow> R w ((tick w)\<lparr>w_fs := fs'\<rparr>)"
  shows "evolves R (syscall mk f)"
  using assms by (auto simp: evolves_def syscall_def split: option.splits sum.splits)

lemma syscall_same_env [evolves_rules]: "evolves same_env (syscall mk f)"
  by (rule evolves_syscall) (simp_all add: same_env_def)

lemma syscall_same_locks [evolves_rules]: "evolves same_locks (syscall mk f)"
  by (rule evolves_syscall) (simp_all add: same_locks_def)

lemma syscall_within:
  assumes "\<And>v fs x fs' p. f v fs = Inr (x, fs') \<Longrightarrow> p \<notin> X \<Longrightarrow> fs_get fs' p = fs_get fs p"
  shows "evolves (within E X) (syscall mk f)"
  using assms by (intro evolves_syscall) (auto simp: within_def)

lemma evolves_modify: "(\<And>w. R w (f w)) \<Longrightarrow> evolves R (modify f)"
  by (simp add: evolves_def)

lemma run_cmd_within:
  assumes "\<And>v fs r fs' p. E v \<Longrightarrow> e_progs v bin args fs = (r, fs') \<Longrightarrow> p \<notin> X \<Longrightarrow> fs_get fs' p = fs_get fs p"
  shows "evolves (within E X) (run_cmd bin args)"
proof (rule evolvesI)
  fix w r w'
  assume run: "run_state (run_cmd bin args) w = (r, w')"
  show "within E X w w'"
  proof (cases "e_faults (w_env w) (w_clock w)")
    case None
    obtain r' fs' where p: "e_progs (w_env w) bin args (w_fs w) = (r', fs')" by fastforce
    with None run have "w' = (tick w)\<lparr>w_fs := fs'\<rparr>" by (simp add: run_cmd_def)
    with assms [OF _ p] show ?thesis by (simp add: within_def)
  next
    case (Some e)
    with run show ?thesis by (auto simp: run_cmd_def within_def)
  qed
qed

lemma run_cmd_same_env [evolves_rules]: "evolves same_env (run_cmd bin args)"
  by (auto simp: evolves_def run_cmd_def same_env_def split: option.splits prod.splits)

lemma run_cmd_same_locks [evolves_rules]: "evolves same_locks (run_cmd bin args)"
  by (auto simp: evolves_def run_cmd_def same_locks_def split: option.splits prod.splits)

lemma emit_same_env [evolves_rules]: "evolves same_env (emit ev)"
  by (simp add: emit_def evolves_modify same_env_def)

lemma emit_same_locks [evolves_rules]: "evolves same_locks (emit ev)"
  by (simp add: emit_def evolves_modify same_locks_def)

lemma emit_within [evolves_rules]: "evolves (within E X) (emit ev)"
  by (simp add: emit_def evolves_modify within_def)

lemma write_stdout_same_env [evolves_rules]: "evolves same_env (write_stdout s)"
  by (simp add: write_stdout_def evolves_modify same_env_def)

lemma write_stdout_same_locks [evolves_rules]: "evolves same_locks (write_stdout s)"
  by (simp add: write_stdout_def evolves_modify same_locks_def)

lemma write_stdout_within [evolves_rules]: "evolves (within E X) (write_stdout s)"
  by (simp add: write_stdout_def evolves_modify within_def)

section \<open>What each call may change\<close>

lemmas kernel_defs = k_stat_def k_mkdir_def k_remove_def k_remove_all_def k_rename_def
  k_read_dir_def k_read_file_def k_open_create_def k_write_def k_update_def

lemma k_mkdirs_frame:
  "k_mkdirs ps m v fs = Inr (x, fs') \<Longrightarrow> p \<notin> set ps \<Longrightarrow> fs_get fs' p = fs_get fs p"
  by (induction ps m v fs rule: k_mkdirs.induct)
    (auto simp: fs_simps split: option.splits if_splits)

lemma os_Stat_within [evolves_rules]: "evolves (within E X) (os_Stat p)"
  unfolding os_Stat_def by (rule syscall_within) (auto simp: kernel_defs split: sum.splits)

lemma os_Stat_any_rules [evolves_rules]:
  "evolves (within E X) (os_Stat_any p)" "evolves same_env (os_Stat_any p)" "evolves same_locks (os_Stat_any p)"
  unfolding os_Stat_any_def
  by (intro evolves_if syscall_within os_Stat_within; simp) (simp_all add: os_Stat_def syscall_same_env syscall_same_locks)

lemma os_Lstat_within [evolves_rules]: "evolves (within E X) (os_Lstat p)"
  unfolding os_Lstat_def by (rule syscall_within) (auto simp: kernel_defs split: sum.splits)

lemma os_Mkdir_within [evolves_rules]: "resolve p \<in> X \<Longrightarrow> evolves (within E X) (os_Mkdir p m)"
  unfolding os_Mkdir_def
  by (rule syscall_within) (auto simp: kernel_defs fs_simps split: option.splits)

lemma os_MkdirAll_within [evolves_rules]:
  "{q. strict_prefix [] q \<and> prefix q (resolve p)} \<subseteq> X \<Longrightarrow> evolves (within E X) (os_MkdirAll p m)"
  unfolding os_MkdirAll_def
proof (rule syscall_within)
  fix v fs x fs' q
  assume sub: "{q. strict_prefix [] q \<and> prefix q (resolve p)} \<subseteq> X"
    and run: "k_mkdirs (tl (prefixes (resolve p))) m v fs = Inr (x, fs')" and "q \<notin> X"
  have "set (tl (prefixes (resolve p))) \<subseteq> {q. strict_prefix [] q \<and> prefix q (resolve p)}"
  proof
    fix r assume r: "r \<in> set (tl (prefixes (resolve p)))"
    then have "prefix r (resolve p)"
      by (metis in_set_prefixes list.set_sel(2) prefixes_not_Nil)
    moreover have "r \<noteq> []"
    proof
      assume "r = []"
      with r have "hd (prefixes (resolve p)) \<in> set (tl (prefixes (resolve p)))" by simp
      moreover have "distinct (hd (prefixes (resolve p)) # tl (prefixes (resolve p)))"
        by (simp only: list.collapse [OF prefixes_not_Nil] distinct_prefixes)
      ultimately show False by simp
    qed
    ultimately show "r \<in> {q. strict_prefix [] q \<and> prefix q (resolve p)}"
      by (simp add: strict_prefix_def)
  qed
  with sub \<open>q \<notin> X\<close> have "q \<notin> set (tl (prefixes (resolve p)))" by blast
  with run show "fs_get fs' q = fs_get fs q" by (rule k_mkdirs_frame)
qed

lemma os_Remove_within [evolves_rules]: "resolve p \<in> X \<Longrightarrow> evolves (within E X) (os_Remove p)"
  unfolding os_Remove_def
  by (rule syscall_within) (auto simp: kernel_defs fs_simps split: sum.splits if_splits)

lemma os_RemoveAll_within [evolves_rules]: "below (resolve p) \<subseteq> X \<Longrightarrow> evolves (within E X) (os_RemoveAll p)"
  unfolding os_RemoveAll_def
  by (rule syscall_within) (auto simp: kernel_defs fs_simps)

lemma fs_move_frame:
  "below p \<subseteq> X \<Longrightarrow> below q \<subseteq> X \<Longrightarrow> x \<notin> X \<Longrightarrow> fs_get (fs_move p q fs) x = fs_get fs x"
  by (auto simp: fs_get_move subset_iff)

lemma os_Rename_within [evolves_rules]:
  assumes "below (resolve p) \<subseteq> X" and "below (resolve q) \<subseteq> X"
  shows "evolves (within E X) (os_Rename p q)"
  unfolding os_Rename_def
  by (rule syscall_within)
    (auto simp: k_rename_def fs_move_frame [OF assms] split: sum.splits option.splits if_splits)

lemma os_Chown_within [evolves_rules]: "resolve p \<in> X \<Longrightarrow> evolves (within E X) (os_Chown p u g)"
  unfolding os_Chown_def
  by (rule syscall_within) (auto simp: kernel_defs fs_simps split: sum.splits)

lemma os_Chmod_within [evolves_rules]: "resolve p \<in> X \<Longrightarrow> evolves (within E X) (os_Chmod p m)"
  unfolding os_Chmod_def
  by (rule syscall_within) (auto simp: kernel_defs fs_simps split: sum.splits)

lemma os_Truncate_within [evolves_rules]: "resolve p \<in> X \<Longrightarrow> evolves (within E X) (os_Truncate p n)"
  unfolding os_Truncate_def
  by (rule syscall_within) (auto simp: fs_simps split: sum.splits kind.splits if_splits)

lemma ioutil_ReadDir_within [evolves_rules]: "evolves (within E X) (ioutil_ReadDir p)"
  unfolding ioutil_ReadDir_def
  by (rule syscall_within) (auto simp: kernel_defs split: sum.splits if_splits)

lemma ioutil_ReadFile_within [evolves_rules]: "evolves (within E X) (ioutil_ReadFile p)"
  unfolding ioutil_ReadFile_def
  by (rule syscall_within) (auto simp: kernel_defs split: sum.splits kind.splits)

lemma os_Open_within [evolves_rules]: "evolves (within E X) (os_Open p)"
  unfolding os_Open_def
  by (rule syscall_within) (auto split: sum.splits)

lemma file_Read_within [evolves_rules]: "evolves (within E X) (file_Read p)"
  unfolding file_Read_def
  by (rule syscall_within) (auto simp: kernel_defs split: sum.splits kind.splits)

lemma os_Create_within [evolves_rules]: "resolve p \<in> X \<Longrightarrow> evolves (within E X) (os_Create p)"
  unfolding os_Create_def
  by (rule syscall_within) (auto simp: kernel_defs fs_simps split: sum.splits option.splits if_splits)

lemma os_OpenCreate_within [evolves_rules]:
  "resolve p \<in> X \<Longrightarrow> evolves (within E X) (os_OpenCreate p m)"
  unfolding os_OpenCreate_def
  by (rule syscall_within) (auto simp: kernel_defs fs_simps split: sum.splits option.splits if_splits)

lemma file_Write_within [evolves_rules]: "resolve p \<in> X \<Longrightarrow> evolves (within E X) (file_Write p s)"
  unfolding file_Write_def
  by (rule syscall_within) (auto simp: kernel_defs fs_simps split: sum.splits if_splits)

lemma ioutil_WriteFile_within [evolves_rules]:
  assumes "resolve p \<in> X" shows "evolves (within E X) (ioutil_WriteFile p s m)"
proof -
  have "evolves (within E X) (syscall (PathError ''open'' p) (k_open_create True (resolve p) m))"
    using assms by (intro syscall_within)
      (auto simp: kernel_defs fs_simps split: sum.splits option.splits if_splits)
  with assms show ?thesis
    unfolding ioutil_WriteFile_def by (intro evolves_rules)
qed

lemma file_Readdir_within [evolves_rules]: "evolves (within E X) (file_Readdir p)"
proof -
  have "evolves (within E X) (syscall (PathError ''readdirent'' p) (k_read_dir (resolve p)))"
    by (rule syscall_within) (auto simp: kernel_defs split: sum.splits if_splits)
  then show ?thesis unfolding file_Readdir_def by (intro evolves_rules)
qed

lemma syscall_Statfs_within [evolves_rules]: "evolves (within E X) (syscall_Statfs p)"
  unfolding syscall_Statfs_def
  by (rule syscall_within) (auto split: sum.splits)

lemmas pure_io_defs = os_Getuid_def os_Getgid_def os_Geteuid_def time_Now_def rand_Int_def
  range_order_def exec_LookPath_def

lemma evolves_pure_io [evolves_rules]:
  assumes "preorder_on_state R"
  shows "evolves R os_Getuid" "evolves R os_Getgid" "evolves R os_Geteuid" "evolves R time_Now"
    "evolves R rand_Int" "evolves R (range_order xs)" "evolves R (exec_LookPath b)"
  using assms by (simp_all add: pure_io_defs evolves_gets)

lemmas os_defs = os_Stat_def os_Lstat_def os_Mkdir_def os_MkdirAll_def os_Remove_def
  os_RemoveAll_def os_Rename_def os_Chown_def os_Chmod_def os_Truncate_def ioutil_ReadDir_def
  ioutil_ReadFile_def os_Open_def os_Create_def os_OpenCreate_def file_Write_def file_Read_def
  syscall_Statfs_def

lemma os_same_env [evolves_rules]:
  "evolves same_env (os_Stat p)" "evolves same_env (os_Lstat p)" "evolves same_env (os_Mkdir p m)"
  "evolves same_env (os_MkdirAll p m)" "evolves same_env (os_Remove p)"
  "evolves same_env (os_RemoveAll p)" "evolves same_env (os_Rename p q)"
  "evolves same_env (os_Chown p u g)" "evolves same_env (os_Chmod p m)"
  "evolves same_env (os_Truncate p n)" "evolves same_env (ioutil_ReadDir p)"
  "evolves same_env (ioutil_ReadFile p)" "evolves same_env (os_Open p)"
  "evolves same_env (os_Create p)" "evolves same_env (os_OpenCreate p m)"
  "evolves same_env (file_Write p s)" "evolves same_env (file_Read p)"
  "evolves same_env (syscall_Statfs p)"
  by (simp_all only: os_defs syscall_same_env)

lemma os_same_locks [evolves_rules]:
  "evolves same_locks (os_Stat p)" "evolves same_locks (os_Lstat p)"
  "evolves same_locks (os_Mkdir p m)" "evolves same_locks (os_MkdirAll p m)"
  "evolves same_locks (os_Remove p)" "evolves same_locks (os_RemoveAll p)"
  "evolves same_locks (os_Rename p q)" "evolves same_locks (os_Chown p u g)"
  "evolves same_locks (os_Chmod p m)" "evolves same_locks (os_Truncate p n)"
  "evolves same_locks (ioutil_ReadDir p)" "evolves same_locks (ioutil_ReadFile p)"
  "evolves same_locks (os_Open p)" "evolves same_locks (os_Create p)"
  "evolves same_locks (os_OpenCreate p m)" "evolves same_locks (file_Write p s)"
  "evolves same_locks (file_Read p)" "evolves same_locks (syscall_Statfs p)"
  by (simp_all only: os_defs syscall_same_locks)

lemma ioutil_WriteFile_same [evolves_rules]:
  "evolves same_env (ioutil_WriteFile p s m)" "evolves same_locks (ioutil_WriteFile p s m)"
  unfolding ioutil_WriteFile_def by (intro evolves_rules)+

lemma file_Readdir_same [evolves_rules]:
  "evolves same_env (file_Readdir p)" "evolves same_locks (file_Readdir p)"
  unfolding file_Readdir_def by (intro evolves_rules)+

section \<open>Runs without faults\<close>

lemma quiet_simps [simp]:
  "quiet (w\<lparr>w_clock := c\<rparr>) = quiet w" "quiet (w\<lparr>w_fs := f\<rparr>) = quiet w"
  "quiet (w\<lparr>w_locks := l\<rparr>) = quiet w" "quiet (w\<lparr>w_events := ev\<rparr>) = quiet w"
  "quiet (w\<lparr>w_stdout := sx\<rparr>) = quiet w"
  by (simp_all add: quiet_def)

lemma quiet_same_env: "same_env w w' \<Longrightarrow> quiet w' = quiet w"
  by (simp add: same_env_def quiet_def)

lemma wp_syscall [wp_simps]:
  "quiet w \<Longrightarrow> wp (syscall mk f) Q w =
     (case f (w_env w) (w_fs w) of
        Inl e \<Rightarrow> Q (Inl (mk e)) (tick w)
      | Inr (x, fs') \<Rightarrow> Q (Inr x) ((tick w)\<lparr>w_fs := fs'\<rparr>))"
  by (auto simp: wp_def syscall_def quiet_def split: sum.splits)

lemma wp_run_cmd [wp_simps]:
  "quiet w \<Longrightarrow> wp (run_cmd bin args) Q w =
     (case e_progs (w_env w) bin args (w_fs w) of (r, fs') \<Rightarrow> Q r ((tick w)\<lparr>w_fs := fs'\<rparr>))"
  by (auto simp: wp_def run_cmd_def quiet_def split: prod.splits)

text \<open>With any faults: a call fails and changes nothing, or does what it does.\<close>

lemma wp_syscall_any:
  assumes "\<And>e. Q (Inl (mk e)) (tick w)"
    and "\<And>x fs'. f (w_env w) (w_fs w) = Inr (x, fs') \<Longrightarrow> Q (Inr x) ((tick w)\<lparr>w_fs := fs'\<rparr>)"
  shows "wp (syscall mk f) Q w"
  using assms by (auto simp: wp_def syscall_def split: option.splits sum.splits)

lemma wp_emit [wp_simps]: "wp (emit ev) Q w = Q () (w\<lparr>w_events := w_events w @ [ev]\<rparr>)"
  by (simp add: emit_def wp_modify)

lemma wp_write_stdout [wp_simps]: "wp (write_stdout s) Q w = Q () (w\<lparr>w_stdout := w_stdout w @ [s]\<rparr>)"
  by (simp add: write_stdout_def wp_modify)

lemma wp_pure_io [wp_simps]:
  "wp os_Getuid Q w = Q (e_uid (w_env w)) w" "wp os_Getgid Q w = Q (e_gid (w_env w)) w"
  "wp os_Geteuid Q w = Q (e_euid (w_env w)) w"
  "wp time_Now Q w = Q (e_time (w_env w) (w_clock w)) w"
  "wp rand_Int Q w = Q (e_rand (w_env w) (w_clock w)) w"
  "wp (range_order xs) P w = P (e_order (w_env w) xs) w"
  by (simp_all add: pure_io_defs wp_gets)

lemma wp_os_Stat [wp_simps]:
  "quiet w \<Longrightarrow> wp (os_Stat p) Q w =
     (case k_lookup (w_fs w) (resolve p) of
        Inl e \<Rightarrow> Q (Inl (PathError ''stat'' p e)) (tick w) | Inr n \<Rightarrow> Q (Inr n) (tick w))"
  by (simp add: os_Stat_def wp_syscall k_stat_def split: sum.splits)

lemma wp_ioutil_ReadDir [wp_simps]:
  "quiet w \<Longrightarrow> wp (ioutil_ReadDir p) Q w =
     (case k_read_dir (resolve p) (w_env w) (w_fs w) of
        Inl e \<Rightarrow> Q (Inl (PathError ''open'' p e)) (tick w) | Inr (xs, _) \<Rightarrow> Q (Inr xs) (tick w))"
  by (simp add: ioutil_ReadDir_def wp_syscall k_read_dir_def split: sum.splits)

lemma k_lookup_get: "fs_get fs p = Some n \<Longrightarrow> k_lookup fs p = Inr n"
  by (simp add: k_lookup_def)

lemma k_lookup_Inr [simp]: "k_lookup fs p = Inr n \<longleftrightarrow> fs_get fs p = Some n"
  by (auto simp: k_lookup_def split: option.splits)

lemma k_lookup_Inl: "k_lookup fs p = Inl e \<Longrightarrow> fs_get fs p = None"
  by (auto simp: k_lookup_def split: option.splits)

lemma k_lookup_None: "fs_get fs p = None \<Longrightarrow> k_lookup fs p = Inl ENOENT \<or> k_lookup fs p = Inl ENOTDIR"
  by (simp add: k_lookup_def)

end
