(* ===== verification/Go_Json.thy ===== *)
theory Go_Json
  imports Go_Strings
begin

text \<open>
  The part of \<open>encoding/json\<close> the program uses: values of strings, integers, booleans, arrays and
  objects; \<open>json_print\<close> is the compact text of \<open>Marshal\<close> (with its HTML-safe escapes),
  \<open>json_decode\<close> reads the first value of a text and leaves the rest, as \<open>Decoder.Decode\<close> does,
  \<open>json_unmarshal\<close> wants nothing but white space after it. Numbers are integers of 64 bits;
  a text with a fraction or an exponent is not decoded. Bytes above 127 pass through unchanged.
  The law is \<open>json_decode_print\<close>: what is printed is read back.
\<close>

datatype json =
    JNull | JBool bool | JNum int | JStr string | JArr "json list" | JObj "(string \<times> json) list"

section \<open>Printing\<close>

definition hex_digit :: "nat \<Rightarrow> char" where
  "hex_digit n = char_of (if n < 10 then 48 + n else 87 + n)"

definition hex_val :: "char \<Rightarrow> nat option" where
  "hex_val c =
     (let n = of_char c in
      if 48 \<le> n \<and> n \<le> (57::nat) then Some (n - 48)
      else if 97 \<le> n \<and> n \<le> 102 then Some (n - 87)
      else if 65 \<le> n \<and> n \<le> 70 then Some (n - 55) else None)"

definition quote_c :: char where "quote_c = CHR 0x22"
definition backslash_c :: char where "backslash_c = CHR 0x5C"

definition json_esc :: "char \<Rightarrow> string" where
  "json_esc c =
     (if c = quote_c \<or> c = backslash_c then [backslash_c, c]
      else if c = CHR 0x0A then [backslash_c, CHR ''n'']
      else if c = CHR 0x0D then [backslash_c, CHR ''r'']
      else if c = CHR 0x09 then [backslash_c, CHR ''t'']
      else if of_char c < (32::nat) \<or> c \<in> {CHR ''<'', CHR ''>'', CHR ''&''} then
        [backslash_c, CHR ''u'', CHR ''0'', CHR ''0'', hex_digit (of_char c div 16), hex_digit (of_char c mod 16)]
      else [c])"

definition json_string :: "string \<Rightarrow> string" where
  "json_string s = quote_c # concat (map json_esc s) @ [quote_c]"

fun json_print :: "json \<Rightarrow> string" where
  "json_print JNull = ''null''"
| "json_print (JBool b) = (if b then ''true'' else ''false'')"
| "json_print (JNum i) = show_int i"
| "json_print (JStr s) = json_string s"
| "json_print (JArr js) = ''['' @ join_with '','' (map json_print js) @ '']''"
| "json_print (JObj kvs) =
     ''{'' @ join_with '','' (map (\<lambda>kv. json_string (fst kv) @ '':'' @ json_print (snd kv)) kvs) @ ''}''"

section \<open>Reading\<close>

definition is_ws :: "char \<Rightarrow> bool" where
  "is_ws c \<longleftrightarrow> c \<in> {CHR '' '', CHR 0x09, CHR 0x0A, CHR 0x0D}"

definition skip_ws :: "string \<Rightarrow> string" where
  "skip_ws s = dropWhile is_ws s"

text \<open>The bytes of a code point of the basic plane in UTF-8.\<close>

definition utf8 :: "nat \<Rightarrow> string" where
  "utf8 n =
     (if n < 128 then [char_of n]
      else if n < 2048 then [char_of (192 + n div 64), char_of (128 + n mod 64)]
      else [char_of (224 + n div 4096), char_of (128 + n div 64 mod 64), char_of (128 + n mod 64)])"

definition hex4 :: "char \<Rightarrow> char \<Rightarrow> char \<Rightarrow> char \<Rightarrow> nat option" where
  "hex4 a b c d =
     (case (hex_val a, hex_val b, hex_val c, hex_val d) of
        (Some x, Some y, Some z, Some u) \<Rightarrow> Some (4096 * x + 256 * y + 16 * z + u) | _ \<Rightarrow> None)"

definition simple_escape :: "char \<Rightarrow> char option" where
  "simple_escape e =
     (if e = quote_c \<or> e = backslash_c \<or> e = CHR ''/'' then Some e
      else if e = CHR ''n'' then Some (CHR 0x0A) else if e = CHR ''r'' then Some (CHR 0x0D)
      else if e = CHR ''t'' then Some (CHR 0x09) else if e = CHR ''b'' then Some (CHR 0x08)
      else if e = CHR ''f'' then Some (CHR 0x0C) else None)"

fun read_string :: "string \<Rightarrow> (string \<times> string) option" where
  "read_string [] = None"
| "read_string (c # cs) =
     (if c = quote_c then Some ([], cs)
      else if c = backslash_c then
        (case cs of
           [] \<Rightarrow> None
         | e # es \<Rightarrow>
             (case simple_escape e of
                Some x \<Rightarrow> map_option (\<lambda>(s, r). (x # s, r)) (read_string es)
              | None \<Rightarrow>
                  (case es of
                     a # b # c' # d # r \<Rightarrow>
                       (case (if e = CHR ''u'' then hex4 a b c' d else None) of
                          Some n \<Rightarrow> map_option (\<lambda>(s, r). (utf8 n @ s, r)) (read_string r)
                        | None \<Rightarrow> None)
                   | _ \<Rightarrow> None)))
      else if of_char c < (32::nat) then None
      else map_option (\<lambda>(s, r). (c # s, r)) (read_string cs))"

definition after_number :: "string \<Rightarrow> bool" where
  "after_number r \<longleftrightarrow> (case r of [] \<Rightarrow> True | c # _ \<Rightarrow> \<not> is_digit c \<and> c \<notin> {CHR ''.'', CHR ''e'', CHR ''E''})"

definition read_number :: "string \<Rightarrow> (json \<times> string) option" where
  "read_number s =
     (if prefix ''+'' s then None
      else (case scan_int s of
              Some (i, r) \<Rightarrow> if after_number r then Some (JNum i, r) else None
            | None \<Rightarrow> None))"

text \<open>The fuel bounds the nesting and the number of elements; \<open>json_decode\<close> gives enough.\<close>

fun read_value :: "nat \<Rightarrow> string \<Rightarrow> (json \<times> string) option"
and read_elems :: "nat \<Rightarrow> string \<Rightarrow> (json list \<times> string) option"
and read_members :: "nat \<Rightarrow> string \<Rightarrow> ((string \<times> json) list \<times> string) option" where
  "read_value 0 s = None"
| "read_value (Suc n) s =
     (let t = skip_ws s in
      case t of
        [] \<Rightarrow> None
      | c # cs \<Rightarrow>
          if c = quote_c then map_option (\<lambda>(x, r). (JStr x, r)) (read_string cs)
          else if c = CHR ''['' then
            (if prefix '']'' (skip_ws cs) then Some (JArr [], tl (skip_ws cs))
             else map_option (\<lambda>(xs, r). (JArr xs, r)) (read_elems n cs))
          else if c = CHR ''{'' then
            (if prefix ''}'' (skip_ws cs) then Some (JObj [], tl (skip_ws cs))
             else map_option (\<lambda>(xs, r). (JObj xs, r)) (read_members n cs))
          else if prefix ''null'' t then Some (JNull, drop 4 t)
          else if prefix ''true'' t then Some (JBool True, drop 4 t)
          else if prefix ''false'' t then Some (JBool False, drop 5 t)
          else read_number t)"
| "read_elems 0 s = None"
| "read_elems (Suc n) s =
     (case read_value n s of
        None \<Rightarrow> None
      | Some (j, r) \<Rightarrow>
          (case skip_ws r of
             [] \<Rightarrow> None
           | c # cs \<Rightarrow>
               if c = CHR '']'' then Some ([j], cs)
               else if c = CHR '','' then map_option (\<lambda>(js, r). (j # js, r)) (read_elems n cs)
               else None))"
| "read_members 0 s = None"
| "read_members (Suc n) s =
     (case skip_ws s of
        [] \<Rightarrow> None
      | q # t \<Rightarrow>
          if q \<noteq> quote_c then None
          else
            (case read_string t of
               None \<Rightarrow> None
             | Some (k, r) \<Rightarrow>
                 (case skip_ws r of
                    [] \<Rightarrow> None
                  | col # r' \<Rightarrow>
                      if col \<noteq> CHR '':'' then None
                      else
                        (case read_value n r' of
                           None \<Rightarrow> None
                         | Some (j, r'') \<Rightarrow>
                             (case skip_ws r'' of
                                [] \<Rightarrow> None
                              | c # cs \<Rightarrow>
                                  if c = CHR ''}'' then Some ([(k, j)], cs)
                                  else if c = CHR '','' then
                                    map_option (\<lambda>(kvs, r). ((k, j) # kvs, r)) (read_members n cs)
                                  else None)))))"

definition json_decode :: "string \<Rightarrow> (json \<times> string) option" where
  "json_decode s = read_value (2 * length s + 2) s"

definition json_unmarshal :: "string \<Rightarrow> json option" where
  "json_unmarshal s =
     (case json_decode s of Some (j, r) \<Rightarrow> if skip_ws r = [] then Some j else None | None \<Rightarrow> None)"

text \<open>\<open>Encoder.Encode\<close> ends the value with a newline.\<close>

definition json_encode :: "json \<Rightarrow> string" where
  "json_encode j = json_print j @ [CHR 0x0A]"

section \<open>Reading back what was printed\<close>

lemma hex_val_digit: "n < 16 \<Longrightarrow> hex_val (hex_digit n) = Some n"
  by (auto simp: hex_val_def hex_digit_def Let_def)

lemma of_char_less_256: "of_char c < (256::nat)"
  by simp

lemma read_string_esc:
  assumes "read_string t = Some (s, r)"
  shows "read_string (json_esc c @ t) = Some (c # s, r)"
proof -
  let ?n = "of_char c :: nat"
  have "hex_val (hex_digit (?n div 16)) = Some (?n div 16)"
    and "hex_val (hex_digit (?n mod 16)) = Some (?n mod 16)"
    using of_char_less_256 [of c] by (intro hex_val_digit; linarith)+
  then have hex: "hex4 (CHR ''0'') (CHR ''0'') (hex_digit (?n div 16)) (hex_digit (?n mod 16)) = Some ?n"
    by (simp add: hex4_def hex_val_def)
  have ascii: "utf8 ?n = [c]" if "?n < 128"
    using that by (simp add: utf8_def)
  have lt: "?n < 128" if "?n < 32 \<or> c \<in> {CHR ''<'', CHR ''>'', CHR ''&''}"
    using that by auto
  show ?thesis
  proof (cases "?n < 32 \<or> c \<in> {CHR ''<'', CHR ''>'', CHR ''&''}")
    case True
    note asc = ascii [OF lt [OF True]]
    have u: "read_string (backslash_c # CHR ''u'' # CHR ''0'' # CHR ''0'' # hex_digit (?n div 16) # hex_digit (?n mod 16) # t)
      = Some (c # s, r)"
      using assms hex asc
      by (simp add: simple_escape_def quote_c_def backslash_c_def)
    show ?thesis
    proof (cases "c = quote_c \<or> c = backslash_c \<or> c = CHR 0x0A \<or> c = CHR 0x0D \<or> c = CHR 0x09")
      case True
      with assms show ?thesis
        by (auto simp: json_esc_def simple_escape_def quote_c_def backslash_c_def)
    next
      case False
      with True have "json_esc c = [backslash_c, CHR ''u'', CHR ''0'', CHR ''0'', hex_digit (?n div 16), hex_digit (?n mod 16)]"
        unfolding json_esc_def by presburger
      with u show ?thesis by simp
    qed
  next
    case False
    with assms show ?thesis
      by (auto simp: json_esc_def simple_escape_def quote_c_def backslash_c_def)
  qed
qed

lemma read_string_print: "read_string (concat (map json_esc s) @ quote_c # r) = Some (s, r)"
proof (induction s)
  case (Cons c s)
  from read_string_esc [OF Cons.IH, of c] show ?case by simp
qed simp

fun json_ok :: "json \<Rightarrow> bool" where
  "json_ok (JNum i) = is_int64 i"
| "json_ok (JArr js) = list_all json_ok js"
| "json_ok (JObj kvs) = list_all (\<lambda>kv. json_ok (snd kv)) kvs"
| "json_ok _ = True"

fun need :: "json \<Rightarrow> nat" where
  "need (JArr js) = Suc (sum_list (map (\<lambda>j. Suc (need j)) js))"
| "need (JObj kvs) = Suc (sum_list (map (\<lambda>kv. Suc (need (snd kv))) kvs))"
| "need _ = 1"

lemma json_print_hd:
  "\<exists>c cs. json_print j = c # cs \<and> \<not> is_ws c \<and> c \<noteq> CHR '']'' \<and> c \<noteq> CHR ''}''"
proof (cases j)
  case (JNum i)
  obtain c cs where "show_nat (nat i) = c # cs" "is_digit c" using show_nat_hd by blast
  moreover have "is_digit c \<Longrightarrow> \<not> is_ws c \<and> c \<noteq> CHR '']'' \<and> c \<noteq> CHR ''}''" for c
    by (auto simp: is_digit_def is_ws_def)
  ultimately show ?thesis using JNum by (auto simp: show_int_def is_ws_def)
qed (auto simp: is_ws_def json_string_def quote_c_def)

lemma skip_ws_print [simp]: "skip_ws (json_print j @ r) = json_print j @ r"
  using json_print_hd [of j] by (auto simp: skip_ws_def)

lemma skip_ws_not [simp]: "\<not> is_ws c \<Longrightarrow> skip_ws (c # r) = c # r"
  by (simp add: skip_ws_def)

lemma is_ws_simps [simp]:
  "\<not> is_ws (CHR '']'')" "\<not> is_ws (CHR '','')" "\<not> is_ws (CHR '':'')" "\<not> is_ws (CHR ''}'')"
  "\<not> is_ws quote_c" "\<not> is_ws (CHR ''['')" "\<not> is_ws (CHR ''{'')"
  by (simp_all add: is_ws_def quote_c_def)

lemma after_number_simps [simp]:
  "after_number []" "after_number (CHR '']'' # r)" "after_number (CHR '','' # r)"
  "after_number (CHR ''}'' # r)" "after_number (CHR 0x0A # r)"
  by (simp_all add: after_number_def)

lemma read_number_show:
  assumes "is_int64 i" and "after_number r"
  shows "read_number (show_int i @ r) = Some (JNum i, r)"
proof -
  have "r = [] \<or> \<not> is_digit (hd r)"
    using assms(2) by (cases r) (auto simp: after_number_def)
  note scan = scan_int_show [OF assms(1) this]
  obtain c cs where c: "show_nat (nat i) = c # cs" "is_digit c" using show_nat_hd by blast
  then have "c \<noteq> CHR ''+''" by auto
  with c have "\<not> prefix ''+'' (show_int i @ r)" by (auto simp: show_int_def)
  with scan assms(2) show ?thesis by (simp add: read_number_def)
qed

lemma read_value_number:
  assumes "is_int64 i" and "after_number r"
  shows "read_value (Suc n) (show_int i @ r) = Some (JNum i, r)"
proof -
  obtain c cs where c: "show_int i @ r = c # cs" "is_digit c \<or> c = CHR ''-''"
    using show_nat_hd [of "nat i"] by (cases "i < 0") (auto simp: show_int_def)
  have "c \<noteq> quote_c" "c \<noteq> CHR ''[''" "c \<noteq> CHR ''{''" "c \<noteq> CHR ''n''" "c \<noteq> CHR ''t''" "c \<noteq> CHR ''f''"
    using c(2) by (auto simp: is_digit_def quote_c_def)
  moreover have "skip_ws (show_int i @ r) = show_int i @ r"
    using skip_ws_print [of "JNum i"] by simp
  ultimately show ?thesis
    using read_number_show [OF assms] c(1) by (simp add: Let_def)
qed

lemma read_value_string: "read_value (Suc n) (json_string s @ r) = Some (JStr s, r)"
  using read_string_print [of s r] by (simp add: json_string_def Let_def)

lemma read_elems_print:
  assumes "js \<noteq> []" and "list_all json_ok js" and "sum_list (map (\<lambda>j. Suc (need j)) js) \<le> n"
    and "\<And>j n r. j \<in> set js \<Longrightarrow> json_ok j \<Longrightarrow> after_number r \<Longrightarrow> need j \<le> n \<Longrightarrow>
           read_value n (json_print j @ r) = Some (j, r)"
  shows "read_elems n (join_with '','' (map json_print js) @ CHR '']'' # r) = Some (js, r)"
  using assms
proof (induction js arbitrary: n)
  case (Cons j js)
  from Cons.prems(3) obtain m where n: "n = Suc m" and m: "need j \<le> m"
    "sum_list (map (\<lambda>j. Suc (need j)) js) \<le> m"
    by (cases n) auto
  have j: "read_value m (json_print j @ t) = Some (j, t)" if "after_number t" for t
    using Cons.prems m that by simp
  show ?case
  proof (cases js)
    case Nil
    with j [of "CHR '']'' # r"] show ?thesis by (simp add: n)
  next
    case (Cons k ks)
    let ?rest = "join_with '','' (map json_print js) @ CHR '']'' # r"
    have "read_elems m ?rest = Some (js, r)"
      using Cons.IH Cons.prems m(2) \<open>js = k # ks\<close> by simp
    with j [of "CHR '','' # ?rest"]
    have "read_elems n (json_print j @ CHR '','' # ?rest) = Some (j # js, r)" by (simp add: n)
    moreover have "join_with '','' (map json_print (j # js)) @ CHR '']'' # r = json_print j @ CHR '','' # ?rest"
      using Cons by simp
    ultimately show ?thesis by (simp only:)
  qed
qed simp

lemma read_members_print:
  assumes "kvs \<noteq> []" and "list_all (\<lambda>kv. json_ok (snd kv)) kvs"
    and "sum_list (map (\<lambda>kv. Suc (need (snd kv))) kvs) \<le> n"
    and "\<And>j n r. j \<in> snd ` set kvs \<Longrightarrow> json_ok j \<Longrightarrow> after_number r \<Longrightarrow> need j \<le> n \<Longrightarrow>
           read_value n (json_print j @ r) = Some (j, r)"
  shows "read_members n (join_with '','' (map (\<lambda>kv. json_string (fst kv) @ '':'' @ json_print (snd kv)) kvs)
           @ CHR ''}'' # r) = Some (kvs, r)"
  using assms
proof (induction kvs arbitrary: n)
  case (Cons kv kvs)
  obtain k j where kv: "kv = (k, j)" by (cases kv)
  let ?pr = "\<lambda>kv. json_string (fst kv) @ '':'' @ json_print (snd kv)"
  from Cons.prems(3) obtain m where n: "n = Suc m" and m: "need j \<le> m"
    "sum_list (map (\<lambda>kv. Suc (need (snd kv))) kvs) \<le> m"
    by (cases n) (auto simp: kv)
  have j: "read_value m (json_print j @ t) = Some (j, t)" if "after_number t" for t
    using Cons.prems m that by (simp add: kv)
  have key: "json_string k @ t = quote_c # concat (map json_esc k) @ quote_c # t" for t
    by (simp add: json_string_def)
  show ?case
  proof (cases kvs)
    case Nil
    with j [of "CHR ''}'' # r"] show ?thesis by (simp add: n kv key read_string_print)
  next
    case (Cons kv' kvs')
    let ?rest = "join_with '','' (map ?pr kvs) @ CHR ''}'' # r"
    have "read_members m ?rest = Some (kvs, r)"
      using Cons.IH Cons.prems m(2) \<open>kvs = kv' # kvs'\<close> by simp
    with j [of "CHR '','' # ?rest"]
    have "read_members n (json_string k @ CHR '':'' # json_print j @ CHR '','' # ?rest) = Some (kv # kvs, r)"
      by (simp add: n kv key read_string_print)
    moreover have "join_with '','' (map ?pr (kv # kvs)) @ CHR ''}'' # r =
        json_string k @ CHR '':'' # json_print j @ CHR '','' # ?rest"
      using Cons by (simp add: kv)
    ultimately show ?thesis by (simp only:)
  qed
qed simp

theorem read_value_print:
  "json_ok j \<Longrightarrow> after_number r \<Longrightarrow> need j \<le> n \<Longrightarrow> read_value n (json_print j @ r) = Some (j, r)"
proof (induction j arbitrary: n r)
  case JNull
  then show ?case by (cases n) (simp_all add: quote_c_def is_ws_def skip_ws_def)
next
  case (JBool b)
  then show ?case by (cases n) (simp_all add: quote_c_def is_ws_def skip_ws_def)
next
  case (JNum i)
  then show ?case by (cases n) (simp_all del: read_value.simps add: read_value_number)
next
  case (JStr s)
  then show ?case by (cases n) (simp_all del: read_value.simps add: read_value_string)
next
  case (JArr js)
  from JArr.prems obtain m where n: "n = Suc m" "sum_list (map (\<lambda>j. Suc (need j)) js) \<le> m"
    by (cases n) auto
  show ?case
  proof (cases js)
    case (Cons j js')
    have "read_elems m (join_with '','' (map json_print js) @ CHR '']'' # r) = Some (js, r)"
      using JArr Cons n by (intro read_elems_print) auto
    moreover obtain c cs where "join_with '','' (map json_print js) @ CHR '']'' # r = c # cs"
      "\<not> is_ws c" "c \<noteq> CHR '']''"
      using json_print_hd [of j] Cons by (cases js') auto
    ultimately show ?thesis by (simp add: n quote_c_def)
  qed (simp add: n quote_c_def)
next
  case (JObj kvs)
  from JObj.prems obtain m where n: "n = Suc m" "sum_list (map (\<lambda>kv. Suc (need (snd kv))) kvs) \<le> m"
    by (cases n) auto
  let ?pr = "\<lambda>kv. json_string (fst kv) @ '':'' @ json_print (snd kv)"
  have IH: "read_value n' (json_print j @ r') = Some (j, r')"
    if "j \<in> snd ` set kvs" "json_ok j" "after_number r'" "need j \<le> n'" for j n' r'
    using JObj.IH that by auto
  show ?case
  proof (cases kvs)
    case (Cons kv kvs')
    have "read_members m (join_with '','' (map ?pr kvs) @ CHR ''}'' # r) = Some (kvs, r)"
    proof (rule read_members_print)
      show "list_all (\<lambda>kv. json_ok (snd kv)) kvs" using JObj.prems by simp
    qed (use n Cons IH in simp_all)
    moreover obtain cs where "join_with '','' (map ?pr kvs) @ CHR ''}'' # r = quote_c # cs"
      using Cons by (cases kvs') (auto simp: json_string_def)
    moreover have "skip_ws (quote_c # cs) = quote_c # cs" and "\<not> prefix ''}'' (quote_c # cs)"
      by (simp, simp add: quote_c_def)
    ultimately show ?thesis by (simp add: n quote_c_def)
  qed (simp add: n quote_c_def)
qed

lemma length_join: "sum_list (map length xs) + length xs \<le> Suc (length (join_with '','' xs))"
  by (induction xs rule: induct_list012) auto

lemma need_sum:
  assumes "\<And>x. x \<in> set xs \<Longrightarrow> need (f x) \<le> 2 * length (g x)"
  shows "Suc (sum_list (map (\<lambda>x. Suc (need (f x))) xs)) \<le> 2 * (length (join_with '','' (map g xs)) + 2)"
proof -
  have "sum_list (map (\<lambda>x. Suc (need (f x))) xs) \<le> 2 * sum_list (map length (map g xs)) + length xs"
    using assms by (induction xs) fastforce+
  with length_join [of "map g xs"] show ?thesis by simp
qed

lemma need_le_length: "need j \<le> 2 * length (json_print j)"
proof (induction j)
  case (JNum i)
  have "0 < length (show_int i)" by (simp add: show_int_def)
  then have "1 \<le> length (show_int i)" by (rule Suc_leI [of 0, folded One_nat_def])
  then show ?case by simp
next
  case (JArr js)
  then show ?case using need_sum [of js id json_print] by simp
next
  case (JObj kvs)
  let ?pr = "\<lambda>kv. json_string (fst kv) @ '':'' @ json_print (snd kv)"
  have "need (snd kv) \<le> 2 * length (?pr kv)" if "kv \<in> set kvs" for kv
  proof -
    have "need (snd kv) \<le> 2 * length (json_print (snd kv))"
      using JObj.IH [of kv "snd kv"] that by (cases kv) auto
    then show ?thesis by simp
  qed
  then show ?case using need_sum [of kvs snd ?pr] by simp
qed (simp_all add: json_string_def)

theorem json_decode_print:
  assumes "json_ok j" and "after_number r"
  shows "json_decode (json_print j @ r) = Some (j, r)"
  unfolding json_decode_def
  using need_le_length [of j] by (intro read_value_print [OF assms]) simp

lemma json_decode_encode: "json_ok j \<Longrightarrow> json_decode (json_encode j) = Some (j, [CHR 0x0A])"
  by (simp add: json_encode_def json_decode_print)

lemma json_unmarshal_print: "json_ok j \<Longrightarrow> json_unmarshal (json_print j) = Some j"
  using json_decode_print [of j "[]"] by (simp add: json_unmarshal_def skip_ws_def)

section \<open>Go values\<close>

text \<open>
  Decoding into a Go value: a missing member and \<open>null\<close> leave the zero value; a value of another
  type is an error (\<open>None\<close>).
\<close>

definition json_strings :: "string list \<Rightarrow> json" where
  "json_strings xs = JArr (map JStr xs)"

fun string_of_json :: "json \<Rightarrow> string option" where
  "string_of_json (JStr s) = Some s"
| "string_of_json JNull = Some []"
| "string_of_json _ = None"

fun int_of_json :: "json \<Rightarrow> int option" where
  "int_of_json (JNum i) = Some i"
| "int_of_json JNull = Some 0"
| "int_of_json _ = None"

fun all_some :: "'a option list \<Rightarrow> 'a list option" where
  "all_some [] = Some []"
| "all_some (None # xs) = None"
| "all_some (Some x # xs) = map_option ((#) x) (all_some xs)"

fun strings_of_json :: "json \<Rightarrow> string list option" where
  "strings_of_json (JArr js) = all_some (map string_of_json js)"
| "strings_of_json JNull = Some []"
| "strings_of_json _ = None"

text \<open>
  The value of a struct's field: member names are compared without regard to case and the last
  member of that name counts.
\<close>

definition to_lower :: "char \<Rightarrow> char" where
  "to_lower c = (let n = of_char c in if (65::nat) \<le> n \<and> n \<le> 90 then char_of (n + 32) else c)"

fun member :: "string \<Rightarrow> json \<Rightarrow> json option" where
  "member k (JObj kvs) =
     Some (case filter (\<lambda>kv. map to_lower (fst kv) = map to_lower k) (rev kvs) of
             kv # _ \<Rightarrow> snd kv | [] \<Rightarrow> JNull)"
| "member k JNull = Some JNull"
| "member k _ = None"

lemma all_some_map_Some [simp]: "all_some (map (\<lambda>x. Some (f x)) xs) = Some (map f xs)"
  by (induction xs) auto

lemma strings_of_json_strings [simp]: "strings_of_json (json_strings xs) = Some xs"
  by (simp add: json_strings_def comp_def)

lemma json_ok_strings [simp]: "json_ok (json_strings xs)"
  by (simp add: json_strings_def list_all_iff)

end
