(* ===== verification/Groot_Types.thy ===== *)
theory Groot_Types
  imports Go_Laws Go_Json
begin

text \<open>
  The data of \<open>groot/groot.go\<close> and \<open>store/store.go\<close>: the structs that the components hand to each
  other and the names of the store's directories. \<open>Image\<close> stands for the fields of the OCI
  \<open>specsv1.Image\<close> that the program reads: the declared volumes (the keys of a map), the
  environment of the process and the diff IDs.
\<close>

definition ImageDirName :: string where "ImageDirName = ''images''"
definition VolumesDirName :: string where "VolumesDirName = ''volumes''"
definition LocksDirName :: string where "LocksDirName = ''locks''"
definition MetaDirName :: string where "MetaDirName = ''meta''"
definition TempDirName :: string where "TempDirName = ''tmp''"
definition DefaultStorePath :: string where "DefaultStorePath = ''/var/lib/grootfs''"

definition StoreFolders :: "string list" where
  "StoreFolders = [ImageDirName, VolumesDirName, MetaDirName, LocksDirName, TempDirName,
     Join [MetaDirName, ''dependencies'']]"

definition GlobalLockKey :: string where "GlobalLockKey = ''global-groot-lock''"

lemmas dir_names = ImageDirName_def VolumesDirName_def LocksDirName_def MetaDirName_def
  TempDirName_def

lemma plain_dir_names [simp]:
  "plain_name ImageDirName" "plain_name VolumesDirName" "plain_name LocksDirName"
  "plain_name MetaDirName" "plain_name TempDirName" "plain_name ''rootfs''"
  "plain_name ''snapshot''" "plain_name ''dependencies''"
  by (simp_all add: plain_name_def dir_names)

lemma dir_names_distinct [simp]:
  "ImageDirName \<noteq> VolumesDirName" "VolumesDirName \<noteq> ImageDirName" "ImageDirName \<noteq> MetaDirName"
  "MetaDirName \<noteq> ImageDirName" "VolumesDirName \<noteq> MetaDirName" "MetaDirName \<noteq> VolumesDirName"
  "LocksDirName \<noteq> ImageDirName" "LocksDirName \<noteq> VolumesDirName" "LocksDirName \<noteq> MetaDirName"
  "ImageDirName \<noteq> LocksDirName" "VolumesDirName \<noteq> LocksDirName" "MetaDirName \<noteq> LocksDirName"
  by (simp_all add: dir_names)

record Image =
  img_Volumes :: "string list"
  img_Env :: "string list"
  img_DiffIDs :: "string list"

definition empty_Image :: Image where
  "empty_Image = \<lparr>img_Volumes = [], img_Env = [], img_DiffIDs = []\<rparr>"

record MountInfo =
  mi_Destination :: string
  mi_Type :: string
  mi_Source :: string
  mi_Options :: "string list"

definition empty_MountInfo :: MountInfo where
  "empty_MountInfo = \<lparr>mi_Destination = [], mi_Type = [], mi_Source = [], mi_Options = []\<rparr>"

record ImageInfo =
  ii_Rootfs :: string
  ii_Image :: Image
  ii_Mounts :: "MountInfo list"
  ii_Path :: string

record IDMappingSpec =
  HostID :: int
  NamespaceID :: int
  Size :: int

record IDMappings =
  im_UIDMappings :: "IDMappingSpec list"
  im_GIDMappings :: "IDMappingSpec list"

text \<open>A URL as far as the program looks at it; \<open>url_String\<close> is its method \<open>String()\<close>.\<close>

record URL =
  url_Scheme :: string
  url_Host :: string
  url_Path :: string
  url_String :: string

record BaseImageSpec =
  bs_DiskLimit :: int
  bs_ExcludeBaseImageFromQuota :: bool
  bs_BaseImageSrc :: URL
  bs_UIDMappings :: "IDMappingSpec list"
  bs_GIDMappings :: "IDMappingSpec list"
  bs_OwnerUID :: int
  bs_OwnerGID :: int

record LayerInfo =
  li_BlobID :: string
  li_ChainID :: string
  li_DiffID :: string
  li_ParentChainID :: string
  li_Size :: int
  li_BaseDirectory :: string
  li_URLs :: "string list"
  li_MediaType :: string

record BaseImageInfo =
  bi_LayerInfos :: "LayerInfo list"
  bi_Config :: Image

record ImageSpec =
  is_ID :: string
  is_Mount :: bool
  is_DiskLimit :: int
  is_ExcludeBaseImageFromQuota :: bool
  is_BaseVolumeIDs :: "string list"
  is_BaseImage :: Image
  is_OwnerUID :: int
  is_OwnerGID :: int

record DiskUsage =
  du_TotalBytesUsed :: int
  du_ExclusiveBytesUsed :: int

record VolumeStats =
  vs_DiskUsage :: DiskUsage

record VolumeMeta =
  vm_Size :: int

text \<open>\<open>ImageReferenceFormat\<close> of \<open>groot/creator.go\<close>.\<close>

definition image_ref :: "string \<Rightarrow> string" where
  "image_ref imageID = ''image:'' @ imageID"

text \<open>The store's paths, as entries.\<close>

definition volumes_dir :: "string \<Rightarrow> path" where
  "volumes_dir store = resolve store @ [VolumesDirName]"

definition images_dir :: "string \<Rightarrow> path" where
  "images_dir store = resolve store @ [ImageDirName]"

definition meta_dir :: "string \<Rightarrow> path" where
  "meta_dir store = resolve store @ [MetaDirName]"

definition has_volume :: "string \<Rightarrow> world \<Rightarrow> string \<Rightarrow> bool" where
  "has_volume store w v \<longleftrightarrow> fs_get (w_fs w) (volumes_dir store @ [v]) \<noteq> None"

definition has_image :: "string \<Rightarrow> world \<Rightarrow> string \<Rightarrow> bool" where
  "has_image store w i \<longleftrightarrow> fs_get (w_fs w) (images_dir store @ [i]) \<noteq> None"

end
