(* ===== verification/Metrics.thy ===== *)
theory Metrics
  imports Groot_Types
begin

text \<open>
  \<open>metrics/emitter.go\<close>. What is sent is a list of events in the world. A failing send is logged
  and otherwise ignored, so no error comes back; the emitter changes nothing else, which is the
  frame that the other components rely on.
\<close>

definition TryEmitUsage :: "string \<Rightarrow> int \<Rightarrow> string \<Rightarrow> unit io" where
  "TryEmitUsage name usage units = emit (EvUsage name usage units)"

definition TryEmitDurationFrom :: "string \<Rightarrow> int \<Rightarrow> unit io" where
  "TryEmitDurationFrom name from_time = do {
     now \<leftarrow> time_Now;
     emit (EvDuration name (now - from_time))
   }"

definition TryEmitError :: "string \<Rightarrow> error \<Rightarrow> int \<Rightarrow> unit io" where
  "TryEmitError command err exitCode =
     emit (EvError (''grootfs-error.'' @ command) (error_text err) exitCode)"

definition TryIncrementRunCount :: "string \<Rightarrow> error option \<Rightarrow> unit io" where
  "TryIncrementRunCount command err = do {
     emit (EvCounter (''grootfs-'' @ command @ ''.run''));
     (case err of
        Some _ \<Rightarrow> emit (EvCounter (''grootfs-'' @ command @ ''.run.fail''))
      | None \<Rightarrow> emit (EvCounter (''grootfs-'' @ command @ ''.run.success'')))
   }"

text \<open>
  \<open>defer c.metricsEmitter.TryEmitDurationFrom(logger, name, time.Now())\<close>: the start is read when
  the function is entered, the event is sent on every way out.
\<close>

definition timed :: "string \<Rightarrow> 'a io \<Rightarrow> 'a io" where
  "timed name m = do {
     start \<leftarrow> time_Now;
     r \<leftarrow> m;
     _ \<leftarrow> TryEmitDurationFrom name start;
     State_Monad.return r
   }"

lemma TryEmitUsage_evolves [evolves_rules]:
  "evolves (within E X) (TryEmitUsage n u s)" "evolves same_env (TryEmitUsage n u s)"
  "evolves same_locks (TryEmitUsage n u s)"
  unfolding TryEmitUsage_def by (intro evolves_rules)+

lemma TryEmitDurationFrom_evolves [evolves_rules]:
  "evolves (within E X) (TryEmitDurationFrom n t)" "evolves same_env (TryEmitDurationFrom n t)"
  "evolves same_locks (TryEmitDurationFrom n t)"
  unfolding TryEmitDurationFrom_def by (intro evolves_rules)+

lemma TryEmitError_evolves [evolves_rules]:
  "evolves (within E X) (TryEmitError c e x)" "evolves same_env (TryEmitError c e x)"
  "evolves same_locks (TryEmitError c e x)"
  unfolding TryEmitError_def by (intro evolves_rules)+

lemma TryIncrementRunCount_evolves [evolves_rules]:
  "evolves (within E X) (TryIncrementRunCount c e)" "evolves same_env (TryIncrementRunCount c e)"
  "evolves same_locks (TryIncrementRunCount c e)"
  unfolding TryIncrementRunCount_def by (intro evolves_rules)+

lemma timed_evolves [evolves_rules]:
  "evolves (within E X) m \<Longrightarrow> evolves (within E X) (timed n m)"
  "evolves same_env m \<Longrightarrow> evolves same_env (timed n m)"
  "evolves same_locks m \<Longrightarrow> evolves same_locks (timed n m)"
  unfolding timed_def by (intro evolves_rules; assumption)+

text \<open>The emission touches neither the files nor the locks nor the clock.\<close>

lemma wp_TryEmitDurationFrom [wp_simps]:
  "wp (TryEmitDurationFrom n t) Q w =
     Q () (w\<lparr>w_events := w_events w @ [EvDuration n (e_time (w_env w) (w_clock w) - t)]\<rparr>)"
  by (simp add: TryEmitDurationFrom_def wp_simps)

lemma wp_timed [wp_simps]:
  "wp (timed n m) Q w =
     wp m (\<lambda>r w'. Q r (w'\<lparr>w_events := w_events w' @
        [EvDuration n (e_time (w_env w') (w_clock w') - e_time (w_env w) (w_clock w))]\<rparr>)) w"
  by (simp add: timed_def wp_def TryEmitDurationFrom_def time_Now_def emit_def split: prod.splits)

end
