(* ===== verification/Locksmith.thy ===== *)
theory Locksmith
  imports Metrics
begin

text \<open>
  \<open>store/locksmith/filesystem.go\<close>: advisory file locks, exclusive or shared, one lock file per
  key in the store's \<open>locks\<close> directory. The contract its clients use is the locale
  \<open>lock_service\<close>: a successful \<open>Lock\<close> adds one lock, a failing one adds none, \<open>Unlock\<close> removes
  it whatever it returns, and neither touches anything but the lock file.
\<close>

section \<open>The code\<close>

record FileSystem =
  ls_storePath :: string
  ls_lockType :: lock_mode
  ls_metricName :: string

definition NewExclusiveFileSystem :: "string \<Rightarrow> FileSystem" where
  "NewExclusiveFileSystem storePath =
     \<lparr>ls_storePath = storePath, ls_lockType = LOCK_EX, ls_metricName = ''ExclusiveLockingTime''\<rparr>"

definition NewSharedFileSystem :: "string \<Rightarrow> FileSystem" where
  "NewSharedFileSystem storePath =
     \<lparr>ls_storePath = storePath, ls_lockType = LOCK_SH, ls_metricName = ''SharedLockingTime''\<rparr>"

definition lock_path :: "FileSystem \<Rightarrow> string \<Rightarrow> string" where
  "lock_path l key = Join [ls_storePath l, LocksDirName, key @ ''.lock'']"

text \<open>The handle of the open lock file is the tick at which it was opened.\<close>

definition Lock :: "FileSystem \<Rightarrow> string \<Rightarrow> (error + nat) io" where
  "Lock l key = timed (ls_metricName l) (
     let key' = replace_char (CHR ''/'') [] key in do {
       fd \<leftarrow> gets w_clock;
       or_return (os_OpenCreate (lock_path l key') 0x180)
         (Wrap (''creating lock file for key `'' @ key' @ ''`'')) (\<lambda>_.
       or_return (flock fd (lock_path l key') (ls_lockType l)) id (\<lambda>_.
       ok fd))
     })"

text \<open>\<open>Close\<close> is deferred, and closing the file drops its lock even when \<open>LOCK_UN\<close> failed.\<close>

definition Unlock :: "FileSystem \<Rightarrow> nat \<Rightarrow> (error + unit) io" where
  "Unlock l fd = do {
     r \<leftarrow> flock_unlock fd;
     _ \<leftarrow> close_lock_file fd;
     State_Monad.return r
   }"

text \<open>The interface \<open>groot.Locksmith\<close>.\<close>

record locksmith_ops =
  lk_Lock :: "string \<Rightarrow> (error + nat) io"
  lk_Unlock :: "nat \<Rightarrow> (error + unit) io"

definition file_locksmith :: "FileSystem \<Rightarrow> locksmith_ops" where
  "file_locksmith l = \<lparr>lk_Lock = Lock l, lk_Unlock = Unlock l\<rparr>"

section \<open>The contract\<close>

text \<open>
  \<open>files\<close> are the paths the service may write. A handle is fresh when no lock held carries it;
  \<open>fresh_handles\<close> holds when all handles are older than the clock.
\<close>

definition fresh_handles :: "world \<Rightarrow> bool" where
  "fresh_handles w \<longleftrightarrow> (\<forall>l\<in>set (w_locks w). fst l < w_clock w)"

definition unheld :: "nat \<Rightarrow> (nat \<times> path \<times> lock_mode) list \<Rightarrow> (nat \<times> path \<times> lock_mode) list" where
  "unheld fd ls = filter (\<lambda>l. fst l \<noteq> fd) ls"

text \<open>
  The relation that every client keeps: from fresh handles, the locks held afterwards are those
  held before. It follows from \<open>same_locks\<close>, and from the bracket \<open>lock; defer unlock; body\<close>.
\<close>

definition balanced :: "world \<Rightarrow> world \<Rightarrow> bool" where
  "balanced w w' \<longleftrightarrow> (fresh_handles w \<longrightarrow> fresh_handles w' \<and> w_locks w' = w_locks w)"

lemma preorder_balanced [simp, evolves_rules]: "preorder_on_state balanced"
  by (auto simp: preorder_on_state_def balanced_def)

lemma same_locks_fresh: "same_locks w w' \<Longrightarrow> fresh_handles w \<Longrightarrow> fresh_handles w'"
  by (fastforce simp: same_locks_def fresh_handles_def)

lemma same_locks_balanced: "evolves same_locks m \<Longrightarrow> evolves balanced m"
  by (erule evolves_mono) (auto simp: balanced_def same_locks_fresh same_locks_def)

locale lock_service =
  fixes lock :: "string \<Rightarrow> (error + nat) io"
    and unlock :: "nat \<Rightarrow> (error + unit) io"
    and files :: "path set"
  assumes lock_frame: "\<And>k E X. files \<subseteq> X \<Longrightarrow> evolves (within E X) (lock k)"
    and unlock_frame: "\<And>fd E X. evolves (within E X) (unlock fd)"
    and lock_env: "\<And>k. evolves same_env (lock k)"
    and unlock_env: "\<And>fd. evolves same_env (unlock fd)"
    and lock_error: "\<And>k w e w'. run_state (lock k) w = (Inl e, w') \<Longrightarrow> same_locks w w'"
    and lock_taken: "\<And>k w fd w'. run_state (lock k) w = (Inr fd, w') \<Longrightarrow> fresh_handles w \<Longrightarrow>
        unheld fd (w_locks w') = w_locks w \<and> fresh_handles w' \<and> (\<exists>l\<in>set (w_locks w'). fst l = fd)"
    and unlock_drops: "\<And>fd w r w'. run_state (unlock fd) w = (r, w') \<Longrightarrow>
        w_locks w' = unheld fd (w_locks w) \<and> w_clock w \<le> w_clock w'"
begin

lemma bracket_balanced:
  assumes "\<And>e. evolves balanced (failed e)" and "\<And>fd. evolves balanced (body fd)"
    and "\<And>fd r. evolves balanced (rest fd r)"
  shows "evolves balanced (do {
     l \<leftarrow> lock k;
     (case l of Inl e \<Rightarrow> failed e
      | Inr fd \<Rightarrow> do { r \<leftarrow> body fd; _ \<leftarrow> unlock fd; rest fd r })})"
proof (rule evolvesI)
  fix w x w'
  assume run: "run_state (do {
     l \<leftarrow> lock k;
     (case l of Inl e \<Rightarrow> failed e
      | Inr fd \<Rightarrow> do { r \<leftarrow> body fd; _ \<leftarrow> unlock fd; rest fd r })}) w = (x, w')"
  obtain l w1 where l: "run_state (lock k) w = (l, w1)" by fastforce
  show "balanced w w'"
  proof (cases l)
    case (Inl e)
    from lock_error [OF l [unfolded Inl]] have "balanced w w1"
      using same_locks_fresh by (metis balanced_def same_locks_def)
    moreover from run l Inl have "run_state (failed e) w1 = (x, w')" by simp
    then have "balanced w1 w'" by (rule evolvesD [OF assms(1)])
    ultimately show ?thesis by (rule preorder_trans [OF preorder_balanced])
  next
    case (Inr fd)
    obtain r w2 where b: "run_state (body fd) w1 = (r, w2)" by fastforce
    obtain y w3 where u: "run_state (unlock fd) w2 = (y, w3)" by fastforce
    from run l Inr b u have rest: "run_state (rest fd r) w3 = (x, w')" by simp
    have "fresh_handles w3 \<and> w_locks w3 = w_locks w" if "fresh_handles w"
    proof -
      have 1: "unheld fd (w_locks w1) = w_locks w" "fresh_handles w1"
        using lock_taken [OF l [unfolded Inr] that] by auto
      with evolvesD [OF assms(2) b] have 2: "w_locks w2 = w_locks w1" "fresh_handles w2"
        by (auto simp: balanced_def)
      have 3: "w_locks w3 = unheld fd (w_locks w2)" "w_clock w2 \<le> w_clock w3"
        using unlock_drops [OF u] by auto
      have "fst x < w_clock w3" if "x \<in> set (w_locks w3)" for x
        using that 2(2) 3 by (fastforce simp: fresh_handles_def unheld_def)
      with 1 2 3 show ?thesis by (simp add: fresh_handles_def)
    qed
    then have "balanced w w3" by (simp add: balanced_def)
    from this evolvesD [OF assms(3) rest] show ?thesis by (rule preorder_trans [OF preorder_balanced])
  qed
qed

end

section \<open>The locksmith keeps it\<close>

lemma flock_within [evolves_rules]: "evolves (within E X) (flock fd p lm)"
  by (auto simp: evolves_def flock_def within_def split: option.splits)

lemma flock_unlock_within [evolves_rules]: "evolves (within E X) (flock_unlock fd)"
  by (auto simp: evolves_def flock_unlock_def within_def split: option.splits)

lemma close_lock_file_within [evolves_rules]: "evolves (within E X) (close_lock_file fd)"
  by (auto simp: evolves_def close_lock_file_def within_def)

lemma flock_env [evolves_rules]:
  "evolves same_env (flock fd p lm)" "evolves same_env (flock_unlock fd)"
  "evolves same_env (close_lock_file fd)"
  by (auto simp: evolves_def flock_def flock_unlock_def close_lock_file_def same_env_def
      split: option.splits)

text \<open>A key without its slashes gives a plain file name.\<close>

lemma lock_path_resolve:
  "resolve (lock_path l (replace_char (CHR ''/'') [] key)) =
     resolve (ls_storePath l) @ [LocksDirName, replace_char (CHR ''/'') [] key @ ''.lock'']"
proof -
  have "plain_name (replace_char (CHR ''/'') [] key @ ''.lock'')"
    using set_replace_char [of "CHR ''/''" "[]" key]
    by (cases "replace_char (CHR ''/'') [] key" rule: rev_cases) (auto simp: plain_name_def append_eq_Cons_conv)
  then show ?thesis by (simp add: lock_path_def)
qed

definition lock_files :: "FileSystem \<Rightarrow> path set" where
  "lock_files l = below (resolve (ls_storePath l) @ [LocksDirName])"

lemma Lock_frame: "lock_files l \<subseteq> X \<Longrightarrow> evolves (within E X) (Lock l key)"
  unfolding Lock_def Let_def
  by (intro evolves_rules) (auto simp: lock_path_resolve lock_files_def)

lemma Lock_env: "evolves same_env (Lock l key)"
  unfolding Lock_def Let_def by (intro evolves_rules)

lemma Unlock_frame: "evolves (within E X) (Unlock l fd)"
  unfolding Unlock_def by (intro evolves_rules)

lemma Unlock_env: "evolves same_env (Unlock l fd)"
  unfolding Unlock_def by (intro evolves_rules)

lemma syscall_locks_clock:
  "run_state (syscall mk f) w = (r, w') \<Longrightarrow> w_locks w' = w_locks w \<and> w_clock w' = Suc (w_clock w)"
  by (auto simp: syscall_def split: option.splits sum.splits)

lemma timed_run:
  "run_state (timed n m) w = (r, w') \<Longrightarrow>
     \<exists>w1. run_state m w = (r, w1) \<and> w_locks w' = w_locks w1 \<and> w_clock w' = w_clock w1 \<and> w_fs w' = w_fs w1 \<and>
       w_env w' = w_env w1"
  by (auto simp: timed_def TryEmitDurationFrom_def emit_def time_Now_def split: prod.splits)

lemma Lock_error: "run_state (Lock l key) w = (Inl e, w') \<Longrightarrow> same_locks w w'"
  unfolding Lock_def Let_def
  by (drule timed_run)
    (auto simp: flock_def os_OpenCreate_def same_locks_def dest!: syscall_locks_clock
      split: sum.splits prod.splits option.splits)

lemma Lock_taken:
  assumes "run_state (Lock l key) w = (Inr fd, w')" and "fresh_handles w"
  shows "unheld fd (w_locks w') = w_locks w \<and> fresh_handles w' \<and> (\<exists>l\<in>set (w_locks w'). fst l = fd)"
proof -
  from assms(1) obtain p m where "fd = w_clock w" "w_locks w' = (fd, p, m) # w_locks w"
    "w_clock w' = Suc (Suc (w_clock w))"
    unfolding Lock_def Let_def
    by (drule_tac timed_run)
      (auto simp: flock_def os_OpenCreate_def dest!: syscall_locks_clock
        split: sum.splits prod.splits option.splits)
  with assms(2) show ?thesis
    by (auto simp: fresh_handles_def unheld_def filter_id_conv)
qed

lemma Unlock_drops:
  "run_state (Unlock l fd) w = (r, w') \<Longrightarrow>
     w_locks w' = unheld fd (w_locks w) \<and> w_clock w \<le> w_clock w'"
  by (auto simp: Unlock_def flock_unlock_def close_lock_file_def unheld_def split: option.splits)

interpretation locksmith: lock_service "Lock l" "Unlock l" "lock_files l" for l
  by unfold_locales (fact Lock_frame Unlock_frame Lock_env Unlock_env Lock_error Lock_taken Unlock_drops)+

end
