(* ===== verification/DependencyManager.thy ===== *)
theory DependencyManager
  imports Locksmith
begin

text \<open>
  \<open>store/dependency_manager/dependency_manager.go\<close>: which layers (chain IDs) an image or a base
  image uses, one JSON file per image reference in the store's \<open>meta/dependencies\<close> directory.
  The contract that the garbage collector and the creator rely on is \<open>Register_registered\<close> and
  \<open>Dependencies_quiet\<close>: what was registered is what is read, and other references are not affected
  (\<open>registered_frame\<close>). Theory \<open>Registry\<close> states it for any sequence of operations.
\<close>

section \<open>The code\<close>

record DependencyManager =
  dependenciesPath :: string

definition NewDependencyManager :: "string \<Rightarrow> DependencyManager" where
  "NewDependencyManager p = \<lparr>dependenciesPath = p\<rparr>"

definition filePath :: "DependencyManager \<Rightarrow> string \<Rightarrow> string" where
  "filePath d i =
     (let escapedId = replace_char (CHR ''/'') ''__'' i in
      Join [dependenciesPath d, escapedId @ ''.json''])"

text \<open>\<open>json.Marshal\<close> of a list of strings does not fail.\<close>

definition Register :: "DependencyManager \<Rightarrow> string \<Rightarrow> string list \<Rightarrow> (error + unit) io" where
  "Register d i chainIDs =
     ioutil_WriteFile (filePath d i) (json_print (json_strings chainIDs)) 0x1B6"

definition Deregister :: "DependencyManager \<Rightarrow> string \<Rightarrow> (error + unit) io" where
  "Deregister d i = os_Remove (filePath d i)"

text \<open>The messages of package \<open>json\<close> are not spelled out.\<close>

definition Dependencies :: "DependencyManager \<Rightarrow> string \<Rightarrow> (error + string list) io" where
  "Dependencies d i =
     or_return (os_Open (filePath d i))
       (\<lambda>err. if IsNotExist err then Plain (''image `'' @ i @ ''` not found'') else err) (\<lambda>_.
     or_return (file_Read (filePath d i)) id (\<lambda>text.
     (case Option.bind (json_decode text) (\<lambda>(j, _). strings_of_json j) of
        None \<Rightarrow> fail (Plain ''json: cannot decode the dependencies'')
      | Some chainIDs \<Rightarrow> ok chainIDs)))"

section \<open>Where it writes\<close>

definition dep_entry :: "string \<Rightarrow> string" where
  "dep_entry i = replace_char (CHR ''/'') ''__'' i @ ''.json''"

lemma plain_dep_entry [simp]: "plain_name (dep_entry i)"
  using set_replace_char [of "CHR ''/''" "''__''" i]
  by (cases "replace_char (CHR ''/'') ''__'' i" rule: rev_cases)
    (auto simp: plain_name_def dep_entry_def append_eq_Cons_conv)

lemma filePath_resolve [simp]: "resolve (filePath d i) = resolve (dependenciesPath d) @ [dep_entry i]"
proof -
  have "filePath d i = Join [dependenciesPath d, dep_entry i]"
    by (simp add: filePath_def dep_entry_def Let_def)
  then show ?thesis by simp
qed

text \<open>References without a slash have files of their own.\<close>

lemma dep_entry_inj:
  "CHR ''/'' \<notin> set i \<Longrightarrow> CHR ''/'' \<notin> set j \<Longrightarrow> dep_entry i = dep_entry j \<longleftrightarrow> i = j"
  by (simp add: dep_entry_def replace_char_absent)

lemma Register_within [evolves_rules]:
  "resolve (dependenciesPath d) @ [dep_entry i] \<in> X \<Longrightarrow> evolves (within E X) (Register d i cs)"
  unfolding Register_def by (intro evolves_rules) simp

lemma Register_same [evolves_rules]:
  "evolves same_env (Register d i cs)" "evolves same_locks (Register d i cs)"
  unfolding Register_def by (intro evolves_rules)+

lemma Deregister_within [evolves_rules]:
  "resolve (dependenciesPath d) @ [dep_entry i] \<in> X \<Longrightarrow> evolves (within E X) (Deregister d i)"
  unfolding Deregister_def by (intro evolves_rules) simp

lemma Deregister_same [evolves_rules]:
  "evolves same_env (Deregister d i)" "evolves same_locks (Deregister d i)"
  unfolding Deregister_def by (intro evolves_rules)+

lemma Dependencies_within [evolves_rules]: "evolves (within E X) (Dependencies d i)"
  unfolding Dependencies_def by (intro evolves_rules)

lemma Dependencies_same [evolves_rules]:
  "evolves same_env (Dependencies d i)" "evolves same_locks (Dependencies d i)"
  unfolding Dependencies_def by (intro evolves_rules)+

section \<open>What is read is what was registered\<close>

text \<open>The value of a dependency file, if it has one.\<close>

definition registered :: "DependencyManager \<Rightarrow> fsys \<Rightarrow> string \<Rightarrow> string list option" where
  "registered d fs i =
     (case fs_get fs (resolve (dependenciesPath d) @ [dep_entry i]) of
        None \<Rightarrow> None
      | Some n \<Rightarrow>
          (case nd_kind n of
             File s \<Rightarrow> Option.bind (json_decode s) (\<lambda>(j, _). strings_of_json j)
           | _ \<Rightarrow> None))"

lemma registered_frame:
  "fs_get fs' (resolve (dependenciesPath d) @ [dep_entry i]) =
   fs_get fs (resolve (dependenciesPath d) @ [dep_entry i]) \<Longrightarrow> registered d fs' i = registered d fs i"
  by (simp add: registered_def)

text \<open>Under any faults, a result is the registered value.\<close>

lemma Dependencies_result:
  "run_state (Dependencies d i) w = (Inr cs, w') \<Longrightarrow> registered d (w_fs w) i = Some cs \<and> w_fs w' = w_fs w"
  by (auto simp: Dependencies_def os_Open_def file_Read_def syscall_def k_read_file_def registered_def
      split: option.splits sum.splits prod.splits kind.splits)

text \<open>Without faults, a registered value is the result.\<close>

lemma Dependencies_quiet:
  assumes "quiet w" and "registered d (w_fs w) i = Some cs"
  shows "run_state (Dependencies d i) w = (Inr cs, tick (tick w))"
proof -
  obtain n s where n: "fs_get (w_fs w) (resolve (dependenciesPath d) @ [dep_entry i]) = Some n"
    "nd_kind n = File s" "Option.bind (json_decode s) (\<lambda>(j, _). strings_of_json j) = Some cs"
    using assms(2) by (auto simp: registered_def split: option.splits kind.splits)
  then show ?thesis using assms(1)
    by (simp add: Dependencies_def os_Open_def file_Read_def syscall_def k_read_file_def quiet_def
        k_lookup_get)
qed

lemma decode_strings [simp]:
  "Option.bind (json_decode (json_print (json_strings cs))) (\<lambda>(j, _). strings_of_json j) = Some cs"
  using json_decode_print [of "json_strings cs" "[]"] by simp

lemma Register_registered:
  "run_state (Register d i cs) w = (Inr (), w') \<Longrightarrow> registered d (w_fs w') i = Some cs"
  by (auto simp: Register_def ioutil_WriteFile_def file_Write_def syscall_def k_write_def registered_def
      fs_simps split: option.splits sum.splits prod.splits if_splits)

text \<open>Without faults, registering needs only the directory.\<close>

lemma Register_quiet:
  assumes "quiet w"
    and "fs_get (w_fs w) (resolve (dependenciesPath d)) = Some dn" "is_dir dn"
    and "\<forall>n. fs_get (w_fs w) (resolve (dependenciesPath d) @ [dep_entry i]) = Some n \<longrightarrow> \<not> is_dir n"
  shows "fst (run_state (Register d i cs) w) = Inr ()"
  using assms
  by (auto simp: Register_def ioutil_WriteFile_def file_Write_def syscall_def k_write_def
      k_open_create_def k_parent_def quiet_def fs_simps is_dir_def k_lookup_get new_node_def
      split: option.splits sum.splits prod.splits if_splits kind.splits)

end
