(* ===== verification/Filesystems.thy ===== *)
theory Filesystems
  imports DependencyManager
begin

text \<open>
  \<open>store/filesystems/common.go\<close> and \<open>store/filesystems/filesystems.go\<close>: the check of the type and
  mount options of a store's file system, the metadata file of a volume, and \<open>du\<close>. The laws are
  that the size written for a volume is read back, and that a volume renamed for collection
  (\<open>gc.\<close>) keeps its metadata file.
\<close>

section \<open>Checking the file system\<close>

definition BtrfsType :: int where "BtrfsType = 0x9123683E"

definition filesystemCode :: "string \<Rightarrow> error + int" where
  "filesystemCode filesystem =
     (if filesystem = ''btrfs'' then Inr BtrfsType
      else Inl (Plain (''filesystem '' @ filesystem @ '' is not supported'')))"

text \<open>
  \<open>bufio.Scanner\<close>: the lines without their ends; a last line without an end counts, an empty
  rest does not. (Its limit of 64 KiB for a line is left out.)
\<close>

definition drop_cr :: "string \<Rightarrow> string" where
  "drop_cr l = (if l \<noteq> [] \<and> last l = CHR 0x0D then butlast l else l)"

definition scan_lines :: "string \<Rightarrow> string list" where
  "scan_lines s =
     (let ls = split_on (CHR 0x0A) s in map drop_cr (if last ls = [] then butlast ls else ls))"

fun check_mount_lines :: "string \<Rightarrow> string \<Rightarrow> string list \<Rightarrow> string list \<Rightarrow> error + unit" where
  "check_mount_lines path filesystem options [] = Inr ()"
| "check_mount_lines path filesystem options (mountPoint # rest) =
     (if \<not> contains mountPoint (filesystem @ '' '' @ path)
      then check_mount_lines path filesystem options rest
      else (case find (\<lambda>option. \<not> contains mountPoint option) options of
              Some option \<Rightarrow> Inl (Plain (CHR 0x27 # option @ [CHR 0x27] @ '' option missing at the mount point '' @
                                 [CHR 0x27] @ mountPoint @ [CHR 0x27]))
            | None \<Rightarrow> Inr ()))"

text \<open>An error while reading ends the scan as the end of the file does.\<close>

definition checkMountOptions :: "string \<Rightarrow> string \<Rightarrow> string list \<Rightarrow> (error + unit) io" where
  "checkMountOptions path filesystem options =
     or_return (os_Open ''/proc/mounts'')
       (\<lambda>err. Plain (''Failed to open /proc/mounts: '' @ error_text err)) (\<lambda>_. do {
     r \<leftarrow> file_Read ''/proc/mounts'';
     State_Monad.return (check_mount_lines path filesystem options
       (case r of Inl _ \<Rightarrow> [] | Inr text \<Rightarrow> scan_lines text))
   })"

definition CheckFSPath :: "string \<Rightarrow> string \<Rightarrow> string list \<Rightarrow> (error + unit) io" where
  "CheckFSPath path filesystem mountOptions =
     or_return (syscall_Statfs path) (Wrap ''Failed to detect type of filesystem'') (\<lambda>statfs.
     or_return (State_Monad.return (filesystemCode filesystem)) id (\<lambda>fsType.
     if st_type statfs \<noteq> fsType
     then fail (Plain (''Store path filesystem ('' @ path @ '') is incompatible with requested driver''))
     else checkMountOptions path filesystem mountOptions))"

section \<open>Volume metadata\<close>

definition VolumeMetaFilePath :: "string \<Rightarrow> string \<Rightarrow> string" where
  "VolumeMetaFilePath storePath i =
     (let i' = replace_first i ''gc.'' [] in Join [storePath, MetaDirName, ''volume-'' @ i'])"

definition meta_json :: "VolumeMeta \<Rightarrow> json" where
  "meta_json m = JObj [(''Size'', JNum (vm_Size m))]"

definition meta_of_json :: "json \<Rightarrow> VolumeMeta option" where
  "meta_of_json j =
     map_option (\<lambda>n. \<lparr>vm_Size = n\<rparr>) (Option.bind (member ''Size'' j) int_of_json)"

definition WriteVolumeMeta :: "string \<Rightarrow> string \<Rightarrow> VolumeMeta \<Rightarrow> (error + unit) io" where
  "WriteVolumeMeta storePath i metadata =
     or_return (os_Create (VolumeMetaFilePath storePath i)) (Wrap ''creating metadata file'') (\<lambda>_.
     or_return (file_Write (VolumeMetaFilePath storePath i) (json_encode (meta_json metadata)))
       (Wrap ''writing metadata file'') (\<lambda>_.
     ok ()))"

definition VolumeSize :: "string \<Rightarrow> string \<Rightarrow> (error + int) io" where
  "VolumeSize storePath i =
     or_return (os_Open (VolumeMetaFilePath storePath i)) (Wrap (''opening volume `'' @ i @ ''` metadata'')) (\<lambda>_.
     or_return (file_Read (VolumeMetaFilePath storePath i)) (Wrap (''parsing volume `'' @ i @ ''` metadata'')) (\<lambda>text.
     (case Option.bind (json_decode text) (\<lambda>(j, _). meta_of_json j) of
        None \<Rightarrow> fail (Wrap (''parsing volume `'' @ i @ ''` metadata'') (Plain ''json: cannot decode''))
      | Some metadata \<Rightarrow> ok (vm_Size metadata))))"

definition CalculatePathSize :: "string \<Rightarrow> (error + int) io" where
  "CalculatePathSize path = do {
     r \<leftarrow> run_cmd ''du'' [''-bs'', path];
     (case c_status r of
        Some err \<Rightarrow> fail (Wrap (''du failed: '' @ c_err r) err)
      | None \<Rightarrow>
          let usageString = hd (split_on (CHR 0x09) (c_out r)) in
          (case atoi usageString of
             None \<Rightarrow> fail (Plain (''strconv.ParseInt: parsing '' @ usageString))
           | Some n \<Rightarrow> ok n))
   }"

section \<open>Laws\<close>

lemma CheckFSPath_evolves [evolves_rules]:
  "evolves (within E X) (CheckFSPath p f os)" "evolves same_env (CheckFSPath p f os)"
  "evolves same_locks (CheckFSPath p f os)"
  unfolding CheckFSPath_def checkMountOptions_def by (intro evolves_rules)+

text \<open>An accepted line has every option; the first line that names the mount decides.\<close>

lemma check_mount_lines_ok:
  "check_mount_lines path filesystem options ls = Inr () \<longleftrightarrow>
     (case filter (\<lambda>l. contains l (filesystem @ '' '' @ path)) ls of
        [] \<Rightarrow> True | l # _ \<Rightarrow> \<forall>opt\<in>set options. contains l opt)"
  by (induction path filesystem options ls rule: check_mount_lines.induct)
    (auto simp: find_None_iff find_Some_iff split: option.splits)

lemma CheckFSPath_type:
  "run_state (CheckFSPath p f os) w = (Inr (), w') \<Longrightarrow>
     filesystemCode f = Inr (st_type (e_statfs (w_env w) (w_fs w) (resolve p)))"
  by (auto simp: CheckFSPath_def syscall_Statfs_def syscall_def filesystemCode_def
      split: option.splits sum.splits prod.splits if_splits)

definition meta_entry :: "string \<Rightarrow> string" where
  "meta_entry i = ''volume-'' @ replace_first i ''gc.'' []"

lemma set_replace_first: "set (replace_first s old new) \<subseteq> set s \<union> set new"
  by (induction s old new rule: replace_first.induct) (auto dest: in_set_dropD)

lemma plain_meta_entry: "CHR ''/'' \<notin> set i \<Longrightarrow> plain_name (meta_entry i)"
  using set_replace_first [of i "''gc.''" "[]"]
  by (auto simp: plain_name_def meta_entry_def)

lemma VolumeMetaFilePath_resolve [simp]:
  "CHR ''/'' \<notin> set i \<Longrightarrow> resolve (VolumeMetaFilePath store i) = meta_dir store @ [meta_entry i]"
  using plain_meta_entry by (simp add: VolumeMetaFilePath_def meta_entry_def Let_def meta_dir_def)

lemma meta_entry_gc: "meta_entry (''gc.'' @ i) = ''volume-'' @ i"
  using replace_first_prefix [of "''gc.''" i "[]"] by (simp add: meta_entry_def)

lemma WriteVolumeMeta_evolves [evolves_rules]:
  "CHR ''/'' \<notin> set i \<Longrightarrow> meta_dir store @ [meta_entry i] \<in> X \<Longrightarrow>
     evolves (within E X) (WriteVolumeMeta store i m)"
  "evolves same_env (WriteVolumeMeta store i m)" "evolves same_locks (WriteVolumeMeta store i m)"
  unfolding WriteVolumeMeta_def by (intro evolves_rules; simp)+

lemma VolumeSize_evolves [evolves_rules]:
  "evolves (within E X) (VolumeSize store i)" "evolves same_env (VolumeSize store i)"
  "evolves same_locks (VolumeSize store i)"
  unfolding VolumeSize_def by (intro evolves_rules)+

text \<open>The size that a volume's metadata file holds.\<close>

definition recorded_size :: "fsys \<Rightarrow> path \<Rightarrow> int option" where
  "recorded_size fs p =
     (case fs_get fs p of
        None \<Rightarrow> None
      | Some n \<Rightarrow> (case nd_kind n of
          File s \<Rightarrow> map_option vm_Size (Option.bind (json_decode s) (\<lambda>(j, _). meta_of_json j))
        | _ \<Rightarrow> None))"

lemma decode_meta [simp]:
  "is_int64 n \<Longrightarrow>
   Option.bind (json_decode (json_encode (meta_json \<lparr>vm_Size = n\<rparr>))) (\<lambda>(j, _). meta_of_json j) = Some \<lparr>vm_Size = n\<rparr>"
  by (simp add: json_decode_encode meta_json_def meta_of_json_def list_all_iff)

lemma WriteVolumeMeta_recorded:
  "is_int64 n \<Longrightarrow> run_state (WriteVolumeMeta store i \<lparr>vm_Size = n\<rparr>) w = (Inr (), w') \<Longrightarrow>
     recorded_size (w_fs w') (resolve (VolumeMetaFilePath store i)) = Some n"
  by (auto simp: WriteVolumeMeta_def os_Create_def file_Write_def syscall_def k_write_def
      recorded_size_def fs_simps split: option.splits sum.splits prod.splits if_splits)

lemma VolumeSize_recorded:
  "run_state (VolumeSize store i) w = (Inr n, w') \<Longrightarrow>
     recorded_size (w_fs w) (resolve (VolumeMetaFilePath store i)) = Some n \<and> w_fs w' = w_fs w"
  by (auto simp: VolumeSize_def os_Open_def file_Read_def syscall_def k_read_file_def recorded_size_def
      split: option.splits sum.splits prod.splits kind.splits)

lemma VolumeSize_quiet:
  assumes "quiet w" and "recorded_size (w_fs w) (resolve (VolumeMetaFilePath store i)) = Some n"
  shows "run_state (VolumeSize store i) w = (Inr n, tick (tick w))"
proof -
  obtain nd s m where n: "fs_get (w_fs w) (resolve (VolumeMetaFilePath store i)) = Some nd"
    "nd_kind nd = File s" "Option.bind (json_decode s) (\<lambda>(j, _). meta_of_json j) = Some m" "vm_Size m = n"
    using assms(2) by (auto simp: recorded_size_def split: option.splits kind.splits)
  then show ?thesis using assms(1)
    by (simp add: VolumeSize_def os_Open_def file_Read_def syscall_def k_read_file_def quiet_def
        k_lookup_get)
qed

end
