(* ===== verification/Drax.thy ===== *)
theory Drax
  imports Filesystems
begin

text \<open>
  The setuid helper \<open>drax\<close> (\<open>store/filesystems/btrfs/drax\<close>): the limiter, the statistics and the
  lister, each a thin client of the \<open>btrfs\<close> program, and the actions of its commands, which
  print an error to standard output and exit with status 1. The lister finds the mount point by
  going up the path and lists the subvolumes in reverse order, so that what is nested comes
  first.
\<close>

section \<open>limiter\<close>

record BtrfsLimiter =
  bl_btrfsBin :: string

definition argsForLimit :: "string \<Rightarrow> string \<Rightarrow> bool \<Rightarrow> string list" where
  "argsForLimit path diskLimit exclusiveLimit =
     [''qgroup'', ''limit''] @ (if exclusiveLimit then [''-e''] else []) @ [diskLimit, path]"

text \<open>The output is handed to \<open>Errorf\<close> as its format; verbs in it are not expanded here.\<close>

definition ApplyDiskLimit :: "BtrfsLimiter \<Rightarrow> string \<Rightarrow> int \<Rightarrow> bool \<Rightarrow> (error + unit) io" where
  "ApplyDiskLimit i path diskLimit exclusiveLimit = do {
     r \<leftarrow> run_cmd (bl_btrfsBin i) (argsForLimit path (show_int diskLimit) exclusiveLimit);
     (case c_status r of
        Some _ \<Rightarrow> fail (Plain (trim_space (c_both r)))
      | None \<Rightarrow> ok ())
   }"

definition DestroyQuotaGroup :: "BtrfsLimiter \<Rightarrow> string \<Rightarrow> (error + unit) io" where
  "DestroyQuotaGroup i path = do {
     r \<leftarrow> run_cmd (bl_btrfsBin i) [''qgroup'', ''destroy'', path, path];
     (case c_status r of
        Some _ \<Rightarrow> fail (Plain (trim_space (c_both r)))
      | None \<Rightarrow> ok ())
   }"

section \<open>metrix\<close>

record BtrfsStats =
  bt_btrfsBin :: string

definition isSubvolume :: "BtrfsStats \<Rightarrow> string \<Rightarrow> (error + unit) io" where
  "isSubvolume m path = do {
     r \<leftarrow> run_cmd (bt_btrfsBin m) [''subvolume'', ''show'', path];
     (case c_status r of
        Some err \<Rightarrow>
          if contains (c_both r) ''not a subvolume''
          then fail (Wrap (''`'' @ path @ ''` is not a btrfs volume'') err)
          else fail (Plain (''checking if volume exists: '' @ c_both r))
      | None \<Rightarrow> ok ())
   }"

definition syncVolume :: "BtrfsStats \<Rightarrow> string \<Rightarrow> bool \<Rightarrow> (error + unit) io" where
  "syncVolume m path forceSync =
     (if forceSync then do {
        r \<leftarrow> run_cmd (bt_btrfsBin m) [''filesystem'', ''sync'', path];
        (case c_status r of
           Some _ \<Rightarrow> fail (Plain (''syncing filesystem: '' @ trim_space (c_both r)))
         | None \<Rightarrow> ok ())
      } else ok ())"

definition VolumeStats :: "BtrfsStats \<Rightarrow> string \<Rightarrow> bool \<Rightarrow> (error + string) io" where
  "VolumeStats m path forceSync =
     or_return (isSubvolume m path) id (\<lambda>_.
     or_return (syncVolume m path forceSync) id (\<lambda>_. do {
       r \<leftarrow> run_cmd (bt_btrfsBin m) [''qgroup'', ''show'', ''--raw'', ''-F'', path];
       (case c_status r of
          Some _ \<Rightarrow> fail (Plain (''qgroup usage: '' @ trim_space (c_out r) @ '', '' @ trim_space (c_err r)))
        | None \<Rightarrow> ok (c_out r))
     }))"

section \<open>lister\<close>

record BtrfsLister =
  bt_listerBin :: string

text \<open>
  The loop goes up until it finds a path that occurs in the mount table. It stops for absolute
  paths; for a relative one that the table does not contain it does not (\<open>None\<close>).
\<close>

partial_function (option) findMountPoint_loop :: "string \<Rightarrow> string \<Rightarrow> (error + string) option" where
  "findMountPoint_loop contents path =
     (if path = ''/'' then Some (Inl (Plain (''can'' @ CHR 0x27 # ''t find mount point'')))
      else if contains contents path then Some (Inr path)
      else findMountPoint_loop contents (Dir path))"

declare findMountPoint_loop.simps [code]

definition findMountPoint :: "string \<Rightarrow> (error + string) option io" where
  "findMountPoint path = do {
     r \<leftarrow> ioutil_ReadFile ''/proc/self/mounts'';
     State_Monad.return (case r of
        Inl err \<Rightarrow> Some (Inl (Wrap ''reading mounts'' err))
      | Inr contents \<Rightarrow> findMountPoint_loop contents path)
   }"

text \<open>\<open>ReadString('\n')\<close>: the lines with their ends, and a last line without one.\<close>

definition read_lines :: "string \<Rightarrow> string list" where
  "read_lines s =
     (let ls = split_on (CHR 0x0A) s in
      map (\<lambda>l. l @ [CHR 0x0A]) (butlast ls) @ (if last ls = [] then [] else [last ls]))"

fun extractPaths :: "string list \<Rightarrow> string \<Rightarrow> string \<Rightarrow> error + string list" where
  "extractPaths [] mountPoint path = Inr []"
| "extractPaths (line # rest) mountPoint path =
     (let subvolumePaths = split_on (CHR '' '') (trim_space line) in
      if length subvolumePaths \<noteq> 9 then Inl (Plain (''invalid output: '' @ line))
      else let absolutePath = Join [mountPoint, trim_space (subvolumePaths ! 8)] in
        (case extractPaths rest mountPoint path of
           Inl err \<Rightarrow> Inl err
         | Inr subvolumes \<Rightarrow>
             Inr (if has_prefix absolutePath path then absolutePath # subvolumes else subvolumes)))"

definition sort_reverse :: "string list \<Rightarrow> string list" where
  "sort_reverse xs = rev (sort xs)"

definition List :: "BtrfsLister \<Rightarrow> string \<Rightarrow> (error + string list) option io" where
  "List l imagePath = do {
     r \<leftarrow> run_cmd (bt_listerBin l) [''subvolume'', ''list'', imagePath];
     (case c_status r of
        Some _ \<Rightarrow> State_Monad.return (Some (Inl (Plain
          (''list subvolumes: '' @ trim_space (c_out r) @ '': '' @ trim_space (c_err r)))))
      | None \<Rightarrow> do {
          mp \<leftarrow> findMountPoint imagePath;
          State_Monad.return (case mp of
             None \<Rightarrow> None
           | Some (Inl err) \<Rightarrow> Some (Inl (Wrap ''find mount point'' err))
           | Some (Inr mountPoint) \<Rightarrow>
               (case extractPaths (read_lines (c_out r)) mountPoint imagePath of
                  Inl err \<Rightarrow> Some (Inl (Wrap ''parse subvolume list'' err))
                | Inr volumes \<Rightarrow> Some (Inr (sort_reverse volumes))))
        })
   }"

section \<open>commands\<close>

text \<open>
  The actions, after the flags have been parsed: the exit status and what goes to standard
  output. \<open>NewExitError\<close> prints its message there, because the program sets \<open>ErrWriter\<close>.
\<close>

definition exit_error :: "error \<Rightarrow> int io" where
  "exit_error err =
     (if error_text err = [] then State_Monad.return 1
      else do { _ \<leftarrow> write_stdout (error_text err @ [CHR 0x0A]); State_Monad.return 1 })"

definition LimitCommand :: "string \<Rightarrow> string \<Rightarrow> int \<Rightarrow> bool \<Rightarrow> int io" where
  "LimitCommand btrfsBin volumePath diskLimitBytes excludeImage = do {
     err \<leftarrow> ApplyDiskLimit \<lparr>bl_btrfsBin = btrfsBin\<rparr> volumePath diskLimitBytes excludeImage;
     (case err of Inl e \<Rightarrow> exit_error e | Inr _ \<Rightarrow> State_Monad.return 0)
   }"

definition DestroyCommand :: "string \<Rightarrow> string \<Rightarrow> int io" where
  "DestroyCommand btrfsBin volumePath = do {
     err \<leftarrow> DestroyQuotaGroup \<lparr>bl_btrfsBin = btrfsBin\<rparr> volumePath;
     (case err of Inl e \<Rightarrow> exit_error e | Inr _ \<Rightarrow> State_Monad.return 0)
   }"

definition StatsCommand :: "string \<Rightarrow> string \<Rightarrow> bool \<Rightarrow> int io" where
  "StatsCommand btrfsBin volumePath forceSync = do {
     r \<leftarrow> VolumeStats \<lparr>bt_btrfsBin = btrfsBin\<rparr> volumePath forceSync;
     (case r of
        Inl e \<Rightarrow> exit_error e
      | Inr stats \<Rightarrow> do { _ \<leftarrow> write_stdout stats; State_Monad.return 0 })
   }"

definition ListCommand :: "string \<Rightarrow> string list \<Rightarrow> int option io" where
  "ListCommand btrfsBin args =
     (case args of
        [path] \<Rightarrow> do {
          r \<leftarrow> List \<lparr>bt_listerBin = btrfsBin\<rparr> path;
          (case r of
             None \<Rightarrow> State_Monad.return None
           | Some (Inl e) \<Rightarrow> do { c \<leftarrow> exit_error e; State_Monad.return (Some c) }
           | Some (Inr volumes) \<Rightarrow>
               do { _ \<leftarrow> write_stdout (join_with [CHR 0x0A] volumes); State_Monad.return (Some 0) })
        }
      | _ \<Rightarrow> do { c \<leftarrow> exit_error (Plain ''missing path argument''); State_Monad.return (Some c) })"

section \<open>The mount point\<close>

lemma findMountPoint_loop_abs:
  assumes "path = ''/'' \<or> clean_abs path"
  shows "\<exists>r. findMountPoint_loop contents path = Some r"
  using assms
proof (induction "length (resolve path)" arbitrary: path rule: less_induct)
  case less
  show ?case
  proof (cases "path = ''/'' \<or> contains contents path")
    case True
    then show ?thesis by (subst findMountPoint_loop.simps) auto
  next
    case False
    with less.prems have c: "clean_abs path" by simp
    have "\<exists>r. findMountPoint_loop contents (Dir path) = Some r"
      by (rule less.hyps [OF Dir_shorter [OF c]]) (rule Dir_abs [OF clean_abs_rooted [OF c]])
    with False show ?thesis by (subst findMountPoint_loop.simps) simp
  qed
qed

text \<open>
  Every absolute path ends the loop, cleaned or not: the first step up cleans it. A relative
  path goes to \<open>.\<close> and stays there.
\<close>

lemma findMountPoint_loop_rooted:
  assumes "rooted path" shows "\<exists>r. findMountPoint_loop contents path = Some r"
  using findMountPoint_loop_abs [OF Dir_abs [OF assms]]
  by (subst findMountPoint_loop.simps) auto

lemma findMountPoint_loop_dot:
  assumes "\<not> contains contents ''.''"
  shows "findMountPoint_loop contents ''.'' = None"
proof -
  have "c = contents \<longrightarrow> path \<noteq> ''.''" if "findMountPoint_loop c path = Some r" for c path r
    using _ that
  proof (rule findMountPoint_loop.raw_induct [where P = "\<lambda>c p r. c = contents \<longrightarrow> p \<noteq> ''.''"])
    fix loop c p and y :: "error + string"
    assume IH: "\<And>c p y. loop c p = Some y \<Longrightarrow> c = contents \<longrightarrow> p \<noteq> ''.''"
      and eq: "(if p = ''/'' then Some (Inl (Plain (''can'' @ CHR 0x27 # ''t find mount point'')))
        else if contains c p then Some (Inr p) else loop c (Dir p)) = Some y"
    show "c = contents \<longrightarrow> p \<noteq> ''.''"
      using eq assms IH [of contents "''.''" y] by (auto simp: Dir_dot)
  qed
  then show ?thesis by (cases "findMountPoint_loop contents ''.''") auto
qed

text \<open>What is found occurs in the table and is the path or one of its ancestors.\<close>

lemma findMountPoint_loop_result:
  "findMountPoint_loop contents path = Some (Inr mp) \<Longrightarrow> clean_abs path \<Longrightarrow>
     contains contents mp \<and> prefix (resolve mp) (resolve path) \<and> clean_abs mp"
proof (induction "length (resolve path)" arbitrary: path rule: less_induct)
  case less
  show ?case
  proof (cases "contains contents path")
    case True
    with less.prems show ?thesis
      by (subst (asm) findMountPoint_loop.simps) (auto simp: clean_abs_def split: if_splits)
  next
    case False
    with less.prems have l: "findMountPoint_loop contents (Dir path) = Some (Inr mp)"
      by (subst (asm) findMountPoint_loop.simps) (auto split: if_splits)
    then have "Dir path \<noteq> ''/''" by (auto simp: findMountPoint_loop.simps)
    with Dir_abs [OF clean_abs_rooted [OF less.prems(2)]] have d: "clean_abs (Dir path)" by simp
    from less.hyps [OF Dir_shorter [OF less.prems(2)] l d] show ?thesis
      using resolve_Dir [OF less.prems(2)] prefixeq_butlast [of "resolve path"]
        prefix_order.trans by metis
  qed
qed

section \<open>The order of the list\<close>

lemma prefix_le: "prefix (xs::string) ys \<Longrightarrow> xs \<le> ys"
proof (induction xs arbitrary: ys)
  case (Cons x xs)
  then obtain zs where "ys = x # zs" "prefix xs zs" by (cases ys) auto
  with Cons show ?case by simp
qed simp

lemma sort_reverse_nested_first:
  assumes "i < j" and "j < length xs"
  shows "\<not> strict_prefix (sort_reverse xs ! i) (sort_reverse xs ! j)"
proof
  assume p: "strict_prefix (sort_reverse xs ! i) (sort_reverse xs ! j)"
  let ?n = "length xs"
  have s: "sort_reverse xs ! k = sort xs ! (?n - Suc k)" if "k < ?n" for k
    using that by (simp add: sort_reverse_def rev_nth)
  have "sort xs ! (?n - Suc j) \<le> sort xs ! (?n - Suc i)"
    using assms by (intro sorted_nth_mono) auto
  with s assms have "sort_reverse xs ! j \<le> sort_reverse xs ! i" by simp
  moreover from p have "sort_reverse xs ! i \<le> sort_reverse xs ! j"
    by (simp add: prefix_le strict_prefix_def)
  ultimately show False using p by (simp add: strict_prefix_def)
qed

lemma set_sort_reverse [simp]: "set (sort_reverse xs) = set xs"
  by (simp add: sort_reverse_def)

text \<open>
  What \<open>extractPaths\<close> keeps, over the ninth words of the lines: the paths that start, byte for
  byte, with the image's path.
\<close>

definition listed_path :: "string \<Rightarrow> string \<Rightarrow> string" where
  "listed_path mountPoint line = Join [mountPoint, trim_space (split_on (CHR '' '') (trim_space line) ! 8)]"

lemma extractPaths_ok:
  "extractPaths ls mountPoint path = Inr vs \<longleftrightarrow>
     (\<forall>l\<in>set ls. length (split_on (CHR '' '') (trim_space l)) = 9) \<and>
     vs = filter (\<lambda>p. has_prefix p path) (map (listed_path mountPoint) ls)"
proof (induction ls arbitrary: vs)
  case (Cons l ls)
  show ?case
  proof (cases "extractPaths ls mountPoint path")
    case (Inl e)
    with Cons.IH have "\<not> (\<forall>l\<in>set ls. length (split_on (CHR '' '') (trim_space l)) = 9)" by auto
    with Inl show ?thesis by (auto simp: Let_def)
  next
    case (Inr us)
    with Cons.IH [of us] show ?thesis by (auto simp: Let_def listed_path_def)
  qed
qed auto

lemma List_result:
  assumes "run_state (List l path) w = (Some (Inr vs), w')"
  obtains out contents mp where
    "findMountPoint_loop contents path = Some (Inr mp)"
    "\<forall>x\<in>set (read_lines out). length (split_on (CHR '' '') (trim_space x)) = 9"
    "vs = sort_reverse (filter (\<lambda>p. has_prefix p path) (map (listed_path mp) (read_lines out)))"
  using assms
  by (auto simp: List_def findMountPoint_def extractPaths_ok
      split: prod.splits option.splits sum.splits)

end
