(* ===== verification/Drivers.thy ===== *)
theory Drivers
  imports Drax
begin

text \<open>
  The interfaces between the components and the file-system drivers: the data of
  \<open>store/filesystems/spec\<close> and of \<open>image_cloner.ImageDriverSpec\<close>, the Go interfaces
  \<open>VolumeDriver\<close>, \<open>ImageDriver\<close> and \<open>internalDriver\<close> as one record of operations (each component
  uses the part its interface names), and the contracts the components rely on, as locales.

  The contracts are stated over \<open>E\<close>, a condition on the environment under which they hold: for
  the btrfs driver, that the external programs do to the files what they document.
\<close>

section \<open>Data\<close>

record ImageDriverSpec =
  ds_BaseVolumeIDs :: "string list"
  ds_Mount :: bool
  ds_ImagePath :: string
  ds_DiskLimit :: int
  ds_ExclusiveDiskLimit :: bool

record DriverSpec =
  sp_Type :: string
  sp_StorePath :: string
  sp_FsBinaryPath :: string
  sp_MkfsBinaryPath :: string
  sp_SuidBinaryPath :: string

definition spec_json :: "DriverSpec \<Rightarrow> json" where
  "spec_json s = JObj [(''type'', JStr (sp_Type s)), (''store_path'', JStr (sp_StorePath s)),
     (''fs_binary_path'', JStr (sp_FsBinaryPath s)), (''mkfs_binary_path'', JStr (sp_MkfsBinaryPath s)),
     (''suid_binary_path'', JStr (sp_SuidBinaryPath s))]"

definition string_member :: "string \<Rightarrow> json \<Rightarrow> string option" where
  "string_member k j = Option.bind (member k j) string_of_json"

definition spec_of_json :: "json \<Rightarrow> DriverSpec option" where
  "spec_of_json j =
     (case (string_member ''type'' j, string_member ''store_path'' j, string_member ''fs_binary_path'' j,
            string_member ''mkfs_binary_path'' j, string_member ''suid_binary_path'' j) of
        (Some t, Some s, Some f, Some m, Some x) \<Rightarrow>
          Some \<lparr>sp_Type = t, sp_StorePath = s, sp_FsBinaryPath = f, sp_MkfsBinaryPath = m, sp_SuidBinaryPath = x\<rparr>
      | _ \<Rightarrow> None)"

section \<open>The operations\<close>

record driver_ops =
  dr_VolumePath :: "string \<Rightarrow> (error + string) io"
  dr_CreateVolume :: "string \<Rightarrow> string \<Rightarrow> (error + string) io"
  dr_DestroyVolume :: "string \<Rightarrow> (error + unit) io"
  dr_MoveVolume :: "string \<Rightarrow> string \<Rightarrow> (error + unit) io"
  dr_HandleOpaqueWhiteouts :: "string \<Rightarrow> string list \<Rightarrow> (error + unit) io"
  dr_WriteVolumeMeta :: "string \<Rightarrow> VolumeMeta \<Rightarrow> (error + unit) io"
  dr_Volumes :: "(error + string list) io"
  dr_VolumeSize :: "string \<Rightarrow> (error + int) io"
  dr_CreateImage :: "ImageDriverSpec \<Rightarrow> (error + MountInfo) io"
  dr_DestroyImage :: "string \<Rightarrow> (error + unit) io"
  dr_FetchStats :: "string \<Rightarrow> (error + VolumeStats) io"
  dr_Marshal :: "(error + string) io"

section \<open>The contracts\<close>

definition volume_entry :: "string \<Rightarrow> string \<Rightarrow> path" where
  "volume_entry store v = volumes_dir store @ [v]"

definition volume_file :: "string \<Rightarrow> string \<Rightarrow> string" where
  "volume_file store v = Join [store, VolumesDirName, v]"

lemma resolve_volume_file [simp]: "plain_name v \<Longrightarrow> resolve (volume_file store v) = volume_entry store v"
  by (simp add: volume_file_def volume_entry_def volumes_dir_def)

text \<open>
  What the garbage collector and the measurer rely on: looking does not change files, moving
  touches what is moved, destroying touches the volume and its metadata file, and the volumes
  listed are the entries of the volumes directory.
\<close>

locale volume_store =
  fixes ops :: driver_ops and store :: string and E :: "env \<Rightarrow> bool"
  assumes VolumePath_pure: "\<And>X v. evolves (within E X) (dr_VolumePath ops v)"
    and VolumePath_found: "\<And>v w p w'. run_state (dr_VolumePath ops v) w = (Inr p, w') \<Longrightarrow>
        p = volume_file store v \<and> w_fs w' = w_fs w \<and> fs_get (w_fs w) (resolve (volume_file store v)) \<noteq> None"
    and VolumePath_quiet: "\<And>v w. quiet w \<Longrightarrow> fs_get (w_fs w) (resolve (volume_file store v)) \<noteq> None \<Longrightarrow>
        fst (run_state (dr_VolumePath ops v) w) = Inr (volume_file store v)"
    and Volumes_pure: "\<And>X. evolves (within E X) (dr_Volumes ops)"
    and Volumes_listed: "\<And>w vs w'. run_state (dr_Volumes ops) w = (Inr vs, w') \<Longrightarrow>
        vs = fs_children (volumes_dir store) (w_fs w) \<and> w_fs w' = w_fs w"
    and VolumeSize_pure: "\<And>X v. evolves (within E X) (dr_VolumeSize ops v)"
    and MoveVolume_frame: "\<And>X p q. below (resolve p) \<subseteq> X \<Longrightarrow> below (resolve q) \<subseteq> X \<Longrightarrow>
        evolves (within E X) (dr_MoveVolume ops p q)"
    and DestroyVolume_frame: "\<And>X v. plain_name v \<Longrightarrow> below (volume_entry store v) \<subseteq> X \<Longrightarrow>
        meta_dir store @ [meta_entry v] \<in> X \<Longrightarrow> evolves (within E X) (dr_DestroyVolume ops v)"
    and read_env: "\<And>v. evolves same_env (dr_VolumePath ops v)" "evolves same_env (dr_Volumes ops)"
    and change_env: "\<And>p q. evolves same_env (dr_MoveVolume ops p q)"
        "\<And>v. evolves same_env (dr_DestroyVolume ops v)"
    and ops_locks: "\<And>v. evolves same_locks (dr_VolumePath ops v)" "evolves same_locks (dr_Volumes ops)"
        "\<And>p q. evolves same_locks (dr_MoveVolume ops p q)" "\<And>v. evolves same_locks (dr_DestroyVolume ops v)"

end
