(* ===== verification/BtrfsDriver.thy ===== *)
theory BtrfsDriver
  imports Drivers
begin

text \<open>
  \<open>store/filesystems/btrfs/driver.go\<close>: volumes and images as btrfs subvolumes and snapshots. The
  programs \<open>btrfs\<close>, \<open>mkfs\<close>, \<open>mount\<close> and the setuid helper \<open>drax\<close> are run as programs of the
  environment; theory \<open>BtrfsLaws\<close> says what is known of them and proves the driver's contracts.
\<close>

record Driver =
  draxBinPath :: string
  btrfsBinPath :: string
  mkfsBinPath :: string
  storePath :: string

definition NewDriver :: "string \<Rightarrow> string \<Rightarrow> string \<Rightarrow> string \<Rightarrow> Driver" where
  "NewDriver btrfsBin mkfsBin draxBin store =
     \<lparr>draxBinPath = draxBin, btrfsBinPath = btrfsBin, mkfsBinPath = mkfsBin, storePath = store\<rparr>"

section \<open>The file system\<close>

text \<open>\<open>strings.Trim(s, ",")\<close>.\<close>

definition trim_commas :: "string \<Rightarrow> string" where
  "trim_commas s =
     rev (dropWhile (\<lambda>c. c = CHR '','') (rev (dropWhile (\<lambda>c. c = CHR '','') s)))"

definition mountFilesystem :: "Driver \<Rightarrow> string \<Rightarrow> string \<Rightarrow> string \<Rightarrow> (error + unit) io" where
  "mountFilesystem d option source destination =
     (let allOpts = trim_commas (option @ '',user_subvol_rm_allowed,rw'') in do {
        r \<leftarrow> run_cmd ''mount'' [''-o'', allOpts, ''-t'', ''btrfs'', source, destination];
        (case c_status r of
           Some err \<Rightarrow> fail (Plain (error_text err @ '': '' @ c_both r))
         | None \<Rightarrow> ok ())
      })"

definition formatFilesystem :: "Driver \<Rightarrow> string \<Rightarrow> (error + unit) io" where
  "formatFilesystem d filesystemPath = do {
     r \<leftarrow> run_cmd (mkfsBinPath d) [''-f'', filesystemPath];
     (case c_status r of
        Some err \<Rightarrow> fail (Plain (''Formatting BTRFS filesystem: '' @ error_text err))
      | None \<Rightarrow> ok ())
   }"

definition InitFilesystem :: "Driver \<Rightarrow> string \<Rightarrow> string \<Rightarrow> (error + unit) io" where
  "InitFilesystem d filesystemPath store = do {
     r \<leftarrow> mountFilesystem d ''remount'' filesystemPath store;
     (case r of
        Inr _ \<Rightarrow> ok ()
      | Inl _ \<Rightarrow>
          or_return (formatFilesystem d filesystemPath) id (\<lambda>_.
          or_return (mountFilesystem d [] filesystemPath store)
            (\<lambda>err. Plain (''Mounting filesystem: '' @ error_text err)) (\<lambda>_.
          ok ())))
   }"

definition ConfigureStore :: "Driver \<Rightarrow> string \<Rightarrow> int \<Rightarrow> int \<Rightarrow> (error + unit) io" where
  "ConfigureStore d store ownerUID ownerGID = ok ()"

definition ValidateFileSystem :: "Driver \<Rightarrow> string \<Rightarrow> (error + unit) io" where
  "ValidateFileSystem d path =
     or_return (CheckFSPath path ''btrfs'' [''user_subvol_rm_allowed''])
       (Wrap ''btrfs filesystem validation'') (\<lambda>_. ok ())"

section \<open>Running drax\<close>

definition draxInPath :: "Driver \<Rightarrow> bool io" where
  "draxInPath d = do {
     r \<leftarrow> exec_LookPath (draxBinPath d);
     State_Monad.return (case r of Inl _ \<Rightarrow> False | Inr _ \<Rightarrow> True)
   }"

text \<open>
  The code ignores the error of \<open>Stat\<close>, since it cannot fail after \<open>LookPath\<close> (it would panic if
  it did): here the mode is read without a system call that could be made to fail.
\<close>

definition hasSUID :: "Driver \<Rightarrow> bool io" where
  "hasSUID d = do {
     r \<leftarrow> exec_LookPath (draxBinPath d);
     (case r of
        Inl _ \<Rightarrow> State_Monad.return False
      | Inr path \<Rightarrow> gets (\<lambda>w.
          (case fs_get (w_fs w) (resolve path) of
             Some draxInfo \<Rightarrow> nd_mode draxInfo AND mode_setuid \<noteq> 0
           | None \<Rightarrow> False)))
   }"

definition runDrax :: "Driver \<Rightarrow> string list \<Rightarrow> (error + string) io" where
  "runDrax d args = do {
     inPath \<leftarrow> draxInPath d;
     if \<not> inPath then fail (Plain ''drax was not found in the $PATH'')
     else do {
       suid \<leftarrow> hasSUID d;
       euid \<leftarrow> os_Geteuid;
       if \<not> suid \<and> euid \<noteq> 0 then fail (Plain ''missing the setuid bit on drax'')
       else do {
         r \<leftarrow> run_cmd (draxBinPath d) args;
         (case c_status r of
            Some err \<Rightarrow> fail (Wrap ('' '' @ trim_space (c_out r)) err)
          | None \<Rightarrow> ok (c_out r))
       }
     }
   }"

definition destroyQgroup :: "Driver \<Rightarrow> string \<Rightarrow> (error + unit) io" where
  "destroyQgroup d path =
     or_return (runDrax d [''--btrfs-bin'', btrfsBinPath d, ''destroy'', ''--volume-path'', path]) id (\<lambda>_. ok ())"

definition listSubvolumes :: "Driver \<Rightarrow> string \<Rightarrow> (error + string list) io" where
  "listSubvolumes d path =
     or_return (runDrax d [''--btrfs-bin'', btrfsBinPath d, ''list'', path]) id (\<lambda>contents.
     ok (split_on (CHR 0x0A) contents))"

definition applyDiskLimit :: "Driver \<Rightarrow> ImageDriverSpec \<Rightarrow> (error + unit) io" where
  "applyDiskLimit d spec =
     (if ds_DiskLimit spec = 0 then ok ()
      else let args = [''--btrfs-bin'', btrfsBinPath d, ''limit'',
                       ''--volume-path'', Join [ds_ImagePath spec, ''rootfs''],
                       ''--disk-limit-bytes'', show_int (ds_DiskLimit spec)] @
                      (if ds_ExclusiveDiskLimit spec then [''--exclude-image-from-quota''] else [])
           in or_return (runDrax d args) id (\<lambda>_. ok ()))"

section \<open>Volumes\<close>

definition VolumePath :: "Driver \<Rightarrow> string \<Rightarrow> (error + string) io" where
  "VolumePath d i =
     (let volPath = Join [storePath d, VolumesDirName, i] in
      or_return (os_Stat volPath) (Wrap (''volume does not exist `'' @ i @ ''`'')) (\<lambda>_. ok volPath))"

definition CreateVolume :: "Driver \<Rightarrow> string \<Rightarrow> string \<Rightarrow> (error + string) io" where
  "CreateVolume d parentID i =
     (let volPath = Join [storePath d, VolumesDirName, i];
          args = (if parentID = [] then [''subvolume'', ''create'', volPath]
                  else [''subvolume'', ''snapshot'', Join [storePath d, VolumesDirName, parentID], volPath])
      in do {
        r \<leftarrow> run_cmd (btrfsBinPath d) args;
        (case c_status r of
           Some err \<Rightarrow> fail (Wrap (''creating btrfs volume `'' @ volPath @ ''` '' @ c_both r) err)
         | None \<Rightarrow> ok volPath)
      })"

definition MoveVolume :: "Driver \<Rightarrow> string \<Rightarrow> string \<Rightarrow> (error + unit) io" where
  "MoveVolume d from to = do {
     r \<leftarrow> os_Rename from to;
     (case r of
        Inl err \<Rightarrow> if \<not> IsExist err then fail (Wrap ''moving volume'' err) else ok ()
      | Inr _ \<Rightarrow> ok ())
   }"

fun clean_contents :: "string \<Rightarrow> string list \<Rightarrow> (error + unit) io" where
  "clean_contents path [] = ok ()"
| "clean_contents path (content # rest) =
     or_return (os_RemoveAll (Join [path, content])) (Wrap ''cleaning up whiteout directory'') (\<lambda>_.
     clean_contents path rest)"

definition cleanWhiteoutDir :: "string \<Rightarrow> (error + unit) io" where
  "cleanWhiteoutDir path =
     or_return (ioutil_ReadDir path) (Wrap ''reading whiteout directory'') (\<lambda>contents.
     clean_contents path contents)"

fun clean_whiteouts :: "string \<Rightarrow> string list \<Rightarrow> (error + unit) io" where
  "clean_whiteouts volumePath [] = ok ()"
| "clean_whiteouts volumePath (opaqueWhiteout # rest) =
     (let parentDir = Dir (Join [volumePath, opaqueWhiteout]) in
      or_return (cleanWhiteoutDir parentDir) id (\<lambda>_. clean_whiteouts volumePath rest))"

definition HandleOpaqueWhiteouts :: "Driver \<Rightarrow> string \<Rightarrow> string list \<Rightarrow> (error + unit) io" where
  "HandleOpaqueWhiteouts d i opaqueWhiteouts =
     or_return (VolumePath d i) id (\<lambda>volumePath. clean_whiteouts volumePath opaqueWhiteouts)"

definition Volumes :: "Driver \<Rightarrow> (error + string list) io" where
  "Volumes d =
     or_return (ioutil_ReadDir (Join [storePath d, VolumesDirName])) (Wrap ''failed to list volumes'') (\<lambda>existing.
     ok existing)"

definition destroyBtrfsVolume :: "Driver \<Rightarrow> string \<Rightarrow> (error + unit) io" where
  "destroyBtrfsVolume d path =
     or_return (os_Stat_any path) (Wrap ''image path not found'') (\<lambda>_. do {
       _ \<leftarrow> destroyQgroup d path;
       r \<leftarrow> run_cmd (btrfsBinPath d) [''subvolume'', ''delete'', path];
       (case c_status r of
          Some err \<Rightarrow> fail (Wrap (''destroying volume '' @ trim_space (c_both r)) err)
        | None \<Rightarrow> ok ())
     })"

definition DestroyVolume :: "Driver \<Rightarrow> string \<Rightarrow> (error + unit) io" where
  "DestroyVolume d i = do {
     _ \<leftarrow> os_Remove (VolumeMetaFilePath (storePath d) i);
     destroyBtrfsVolume d (Join [storePath d, ''volumes'', i])
   }"

section \<open>Images\<close>

definition snapshot_rootfs :: "Driver \<Rightarrow> ImageDriverSpec \<Rightarrow> string \<Rightarrow> string \<Rightarrow> MountInfo \<Rightarrow> (error + MountInfo) io" where
  "snapshot_rootfs d spec baseVolumePath toPath mountInfo = do {
     r \<leftarrow> run_cmd (btrfsBinPath d) [''subvolume'', ''snapshot'', baseVolumePath, toPath];
     (case c_status r of
        Some err \<Rightarrow> fail (Plain (''creating btrfs snapshot from `'' @ baseVolumePath @ ''` to `'' @ toPath @
                      ''` ('' @ error_text err @ ''): '' @ c_both r))
      | None \<Rightarrow>
          or_return (os_Chmod toPath 0x1ED) (Wrap ''chmoding snapshot'') (\<lambda>_.
          or_return (applyDiskLimit d spec) id (\<lambda>_. ok mountInfo)))
   }"

text \<open>Without a base volume the index \<open>len - 1\<close> is out of range, and the code panics.\<close>

definition CreateImage :: "Driver \<Rightarrow> ImageDriverSpec \<Rightarrow> (error + MountInfo) io" where
  "CreateImage d spec =
     (if ds_BaseVolumeIDs spec = [] then fail (Panic ''index out of range'')
      else let toPath = Join [ds_ImagePath spec, ''rootfs''];
               baseVolumePath = Join [storePath d, VolumesDirName, last (ds_BaseVolumeIDs spec)]
      in if \<not> ds_Mount spec then
           or_return (os_Mkdir toPath 0x1ED) (Wrap ''creating rootfs folder'') (\<lambda>_.
           or_return (os_Chmod toPath 0x1ED) (Wrap ''chmoding rootfs folder'') (\<lambda>_.
           let mountInfo = \<lparr>mi_Destination = ''/'', mi_Type = [],
                 mi_Source = Join [ds_ImagePath spec, ''snapshot''], mi_Options = [''bind'']\<rparr>
           in snapshot_rootfs d spec baseVolumePath (mi_Source mountInfo) mountInfo))
         else snapshot_rootfs d spec baseVolumePath toPath empty_MountInfo)"

fun destroy_all :: "Driver \<Rightarrow> string list \<Rightarrow> (error + unit) io" where
  "destroy_all d [] = ok ()"
| "destroy_all d (subvolume # rest) =
     or_return (destroyBtrfsVolume d subvolume) id (\<lambda>_. destroy_all d rest)"

text \<open>The last part: the image directory goes, and the error of the volume is reported.\<close>

definition remove_image_path :: "string \<Rightarrow> error + unit \<Rightarrow> (error + unit) io" where
  "remove_image_path imagePath err = do {
     _ \<leftarrow> os_RemoveAll imagePath;
     State_Monad.return err
   }"

definition destroy_snapshot :: "Driver \<Rightarrow> string \<Rightarrow> string \<Rightarrow> (error + unit) io" where
  "destroy_snapshot d imagePath snapshotMountPath = do {
     err \<leftarrow> destroyBtrfsVolume d snapshotMountPath;
     (case err of
        Inl e \<Rightarrow>
          if contains (error_text e) ''Directory not empty'' then
            or_return (listSubvolumes d imagePath) (Wrap ''list subvolumes'') (\<lambda>subvolumes.
            or_return (destroy_all d subvolumes) id (\<lambda>_.
            remove_image_path imagePath (Inr ())))
          else remove_image_path imagePath (Inl e)
      | Inr _ \<Rightarrow> remove_image_path imagePath (Inr ()))
   }"

definition DestroyImage :: "Driver \<Rightarrow> string \<Rightarrow> (error + unit) io" where
  "DestroyImage d imagePath =
     (let snapshotMountPath = Join [imagePath, ''rootfs'']; snapshot = Join [imagePath, ''snapshot''] in do {
        st \<leftarrow> os_Stat snapshot;
        (case st of
           Inr _ \<Rightarrow>
             or_return (os_Remove snapshotMountPath) (Wrap ''remove rootfs folder'') (\<lambda>_.
             destroy_snapshot d imagePath snapshot)
         | Inl _ \<Rightarrow> destroy_snapshot d imagePath snapshotMountPath)
      })"

section \<open>Statistics\<close>

text \<open>
  The pattern \<^verbatim>\<open>.*\s+(\d+)\s+(\d+)$\<close>: read from the end, digits, white space, digits, white
  space. The groups are whole runs of digits, because white space must stand on both sides.
\<close>

definition re_space :: "char \<Rightarrow> bool" where
  "re_space c \<longleftrightarrow> c \<in> {CHR '' '', CHR 0x09, CHR 0x0A, CHR 0x0C, CHR 0x0D}"

definition match_usage :: "string \<Rightarrow> (string \<times> string) option" where
  "match_usage s =
     (let r0 = rev s;
          d2 = takeWhile is_digit r0; r1 = dropWhile is_digit r0;
          r2 = dropWhile re_space r1;
          d1 = takeWhile is_digit r2; r3 = dropWhile is_digit r2
      in if d2 = [] \<or> r1 = [] \<or> \<not> re_space (hd r1) \<or> d1 = [] \<or> r3 = [] \<or> \<not> re_space (hd r3) then None
         else Some (rev d1, rev d2))"

text \<open>\<open>Sscanf("%d")\<close> leaves the zero when the number does not fit.\<close>

definition sscanf_int :: "string \<Rightarrow> int" where
  "sscanf_int s = (case scan_int s of Some (n, _) \<Rightarrow> n | None \<Rightarrow> 0)"

definition FetchStats :: "Driver \<Rightarrow> string \<Rightarrow> (error + VolumeStats) io" where
  "FetchStats d imagePath =
     or_return (runDrax d [''--btrfs-bin'', btrfsBinPath d, ''stats'',
         ''--volume-path'', Join [imagePath, ''rootfs''], ''--force-sync'']) id (\<lambda>stdoutBuffer.
     (case match_usage (trim_space stdoutBuffer) of
        None \<Rightarrow> fail (Plain ''could not parse stats'')
      | Some (totalBytes, exclusiveBytes) \<Rightarrow>
          ok \<lparr>vs_DiskUsage = \<lparr>du_TotalBytesUsed = sscanf_int totalBytes,
                               du_ExclusiveBytesUsed = sscanf_int exclusiveBytes\<rparr>\<rparr>))"

definition Marshal :: "Driver \<Rightarrow> (error + string) io" where
  "Marshal d =
     (let driverSpec = \<lparr>sp_Type = ''btrfs'', sp_StorePath = storePath d, sp_FsBinaryPath = btrfsBinPath d,
                        sp_MkfsBinaryPath = mkfsBinPath d, sp_SuidBinaryPath = draxBinPath d\<rparr>
      in ok (json_print (spec_json driverSpec)))"

section \<open>The interfaces\<close>

definition btrfs_ops :: "Driver \<Rightarrow> driver_ops" where
  "btrfs_ops d =
     \<lparr>dr_VolumePath = VolumePath d,
      dr_CreateVolume = CreateVolume d,
      dr_DestroyVolume = DestroyVolume d,
      dr_MoveVolume = MoveVolume d,
      dr_HandleOpaqueWhiteouts = HandleOpaqueWhiteouts d,
      dr_WriteVolumeMeta = Filesystems.WriteVolumeMeta (storePath d),
      dr_Volumes = Volumes d,
      dr_VolumeSize = Filesystems.VolumeSize (storePath d),
      dr_CreateImage = CreateImage d,
      dr_DestroyImage = DestroyImage d,
      dr_FetchStats = FetchStats d,
      dr_Marshal = Marshal d\<rparr>"

end
