(* ===== verification/BtrfsLaws.thy ===== *)
theory BtrfsLaws
  imports BtrfsDriver
begin

text \<open>
  What the btrfs driver does, given what the programs it runs document. \<open>btrfs_tool\<close> states the
  documented effect of the \<open>btrfs\<close> commands on the files; \<open>drax_tool\<close> says that the installed
  helper is the one modelled in theory \<open>Drax\<close>, whatever faults it meets on its own. From them
  follow the frames of the driver's operations and the contract \<open>volume_store\<close>.
\<close>

section \<open>The programs\<close>

definition no_nested_subvolume :: "path \<Rightarrow> fsys \<Rightarrow> bool" where
  "no_nested_subvolume p fs \<longleftrightarrow>
     (\<forall>q n. strict_prefix p q \<longrightarrow> fs_get fs q = Some n \<longrightarrow> nd_kind n \<noteq> Subvolume)"

text \<open>
  \<open>btrfs subvolume create\<close>, \<open>snapshot\<close> and \<open>delete\<close>: a failing one changes nothing. A snapshot of
  a subvolume has its root, and all its entries when no subvolume is nested in it; when the
  destination is a directory already, the snapshot is made inside it. All other commands the programs use leave the files alone.
\<close>

definition create_effect :: "path \<Rightarrow> cmd_result \<Rightarrow> fsys \<Rightarrow> fsys \<Rightarrow> bool" where
  "create_effect p r fs fs' \<longleftrightarrow>
     (if c_status r = None
      then fs_get fs p = None \<and>
           (\<exists>n. nd_kind n = Subvolume \<and> fs_get fs' = fs_get (fs_put p n fs))
      else fs_get fs' = fs_get fs)"

definition snapshot_target :: "path \<Rightarrow> path \<Rightarrow> fsys \<Rightarrow> path" where
  "snapshot_target src dst fs = (if fs_get fs dst = None then dst else dst @ [last src])"

definition subvolume_at :: "fsys \<Rightarrow> path \<Rightarrow> bool" where
  "subvolume_at fs p \<longleftrightarrow> (case fs_get fs p of Some n \<Rightarrow> nd_kind n = Subvolume | None \<Rightarrow> False)"

lemma subvolume_at_get: "subvolume_at fs p \<Longrightarrow> fs_get fs p \<noteq> None"
  by (auto simp: subvolume_at_def split: option.splits)

definition snapshot_effect :: "path \<Rightarrow> path \<Rightarrow> cmd_result \<Rightarrow> fsys \<Rightarrow> fsys \<Rightarrow> bool" where
  "snapshot_effect src dst r fs fs' \<longleftrightarrow>
     (if c_status r = None
      then subvolume_at fs src \<and> fs_get fs (snapshot_target src dst fs) = None \<and>
           (\<forall>q. \<not> prefix (snapshot_target src dst fs) q \<longrightarrow> fs_get fs' q = fs_get fs q) \<and>
           fs_get fs' (snapshot_target src dst fs) = fs_get fs src \<and>
           (no_nested_subvolume src fs \<longrightarrow> fs_get fs' = fs_get (fs_copy src (snapshot_target src dst fs) fs))
      else fs_get fs' = fs_get fs)"

definition delete_effect :: "path \<Rightarrow> cmd_result \<Rightarrow> fsys \<Rightarrow> fsys \<Rightarrow> bool" where
  "delete_effect p r fs fs' \<longleftrightarrow>
     (if c_status r = None then fs_get fs p \<noteq> None \<and> fs_get fs' = fs_get (fs_rm_tree p fs)
      else fs_get fs' = fs_get fs)"

definition inspecting :: "string list \<Rightarrow> bool" where
  "inspecting args \<longleftrightarrow>
     (case args of
        [] \<Rightarrow> False
      | a # as \<Rightarrow> a = ''qgroup'' \<or> a = ''filesystem'' \<or>
          a = ''subvolume'' \<and> as \<noteq> [] \<and> hd as \<in> {''show'', ''list''})"

definition btrfs_tool :: "string \<Rightarrow> env \<Rightarrow> bool" where
  "btrfs_tool b v \<longleftrightarrow>
     (\<forall>p fs r fs'. e_progs v b [''subvolume'', ''create'', p] fs = (r, fs') \<longrightarrow>
        create_effect (resolve p) r fs fs') \<and>
     (\<forall>s p fs r fs'. e_progs v b [''subvolume'', ''snapshot'', s, p] fs = (r, fs') \<longrightarrow>
        snapshot_effect (resolve s) (resolve p) r fs fs') \<and>
     (\<forall>p fs r fs'. e_progs v b [''subvolume'', ''delete'', p] fs = (r, fs') \<longrightarrow>
        delete_effect (resolve p) r fs fs') \<and>
     (\<forall>args fs. inspecting args \<longrightarrow> fs_get (snd (e_progs v b args fs)) = fs_get fs)"

text \<open>A program that behaves as the action of a command, started in a process of its own.\<close>

definition process :: "env \<Rightarrow> (nat \<Rightarrow> errno option) \<Rightarrow> fsys \<Rightarrow> world" where
  "process v faults fs =
     \<lparr>w_env = v\<lparr>e_faults := faults\<rparr>, w_fs = fs, w_clock = 0, w_locks = [], w_events = [], w_stdout = []\<rparr>"

definition acts_as :: "env \<Rightarrow> string \<Rightarrow> string list \<Rightarrow> int io \<Rightarrow> bool" where
  "acts_as v bin args m \<longleftrightarrow>
     (\<forall>fs r fs'. e_progs v bin args fs = (r, fs') \<longrightarrow>
        (\<exists>faults code w'. run_state m (process v faults fs) = (code, w') \<and>
           fs' = w_fs w' \<and> c_out r = concat (w_stdout w') \<and> (c_status r = None \<longleftrightarrow> code = 0)))"

definition drax_tool :: "string \<Rightarrow> string \<Rightarrow> env \<Rightarrow> bool" where
  "drax_tool b x v \<longleftrightarrow>
     (\<forall>p. acts_as v x [''--btrfs-bin'', b, ''destroy'', ''--volume-path'', p] (DestroyCommand b p)) \<and>
     (\<forall>p n ex. is_int64 n \<longrightarrow>
        acts_as v x ([''--btrfs-bin'', b, ''limit'', ''--volume-path'', p, ''--disk-limit-bytes'', show_int n] @
          (if ex then [''--exclude-image-from-quota''] else [])) (LimitCommand b p n ex)) \<and>
     (\<forall>p. acts_as v x [''--btrfs-bin'', b, ''stats'', ''--volume-path'', p, ''--force-sync''] (StatsCommand b p True)) \<and>
     (\<forall>p fs r fs'. rooted p \<longrightarrow> e_progs v x [''--btrfs-bin'', b, ''list'', p] fs = (r, fs') \<longrightarrow>
        (\<exists>faults code w'. run_state (ListCommand b [p]) (process v faults fs) = (Some code, w') \<and>
           fs' = w_fs w' \<and> c_out r = concat (w_stdout w') \<and> (c_status r = None \<longleftrightarrow> code = 0)))"

definition tools :: "Driver \<Rightarrow> env \<Rightarrow> bool" where
  "tools d v \<longleftrightarrow> btrfs_tool (btrfsBinPath d) v \<and> drax_tool (btrfsBinPath d) (draxBinPath d) v"

section \<open>Drax changes no file\<close>

lemma inspect_within:
  "inspecting args \<Longrightarrow> (\<And>v. E v \<Longrightarrow> btrfs_tool b v) \<Longrightarrow> evolves (within E X) (run_cmd b args)"
  by (rule run_cmd_within) (metis btrfs_tool_def snd_conv)

lemma exit_error_within [evolves_rules]: "evolves (within E X) (exit_error e)"
  unfolding exit_error_def by (intro evolves_rules)

lemma drax_commands_within:
  "evolves (within (btrfs_tool b) X) (DestroyCommand b p)"
  "evolves (within (btrfs_tool b) X) (LimitCommand b p n ex)"
  "evolves (within (btrfs_tool b) X) (StatsCommand b p sync)"
  "evolves (within (btrfs_tool b) X) (ListCommand b args)"
  unfolding DestroyCommand_def DestroyQuotaGroup_def LimitCommand_def ApplyDiskLimit_def argsForLimit_def
    StatsCommand_def VolumeStats_def isSubvolume_def syncVolume_def
    ListCommand_def List_def findMountPoint_def
  by ((intro evolves_rules inspect_within; simp add: inspecting_def)+)

lemma process_within:
  assumes "evolves (within (btrfs_tool b) {}) m" and "btrfs_tool b v"
    and "run_state m (process v faults fs) = (r, w')"
  shows "fs_get (w_fs w') = fs_get fs"
proof -
  have "within (btrfs_tool b) {} (process v faults fs) w'" using assms(1,3) by (rule evolvesD)
  moreover have "btrfs_tool b (v\<lparr>e_faults := faults\<rparr>)" using assms(2) by (simp add: btrfs_tool_def)
  ultimately show ?thesis by (auto simp: within_def process_def)
qed

lemma acts_as_within:
  assumes "\<And>v. E v \<Longrightarrow> acts_as v x args m" and "\<And>v. E v \<Longrightarrow> btrfs_tool b v"
    and "evolves (within (btrfs_tool b) {}) m"
  shows "evolves (within E X) (run_cmd x args)"
proof (rule run_cmd_within)
  fix v fs r fs' and p :: path
  assume "E v" and run: "e_progs v x args fs = (r, fs')"
  then obtain faults code w' where "run_state m (process v faults fs) = (code, w')" "fs' = w_fs w'"
    using assms(1) [OF \<open>E v\<close>] unfolding acts_as_def by blast
  with process_within [OF assms(3) assms(2) [OF \<open>E v\<close>]] show "fs_get fs' p = fs_get fs p" by metis
qed

lemma toolsD:
  "tools d v \<Longrightarrow> btrfs_tool (btrfsBinPath d) v"
  "tools d v \<Longrightarrow> drax_tool (btrfsBinPath d) (draxBinPath d) v"
  by (simp_all add: tools_def)

lemma drax_destroy_within [evolves_rules]:
  "evolves (within (tools d) X)
     (run_cmd (draxBinPath d) [''--btrfs-bin'', btrfsBinPath d, ''destroy'', ''--volume-path'', p])"
  by (rule acts_as_within [where m = "DestroyCommand (btrfsBinPath d) p"])
    (use drax_commands_within in \<open>auto dest: toolsD simp: drax_tool_def\<close>)

lemma drax_stats_within [evolves_rules]:
  "evolves (within (tools d) X)
     (run_cmd (draxBinPath d) [''--btrfs-bin'', btrfsBinPath d, ''stats'', ''--volume-path'', p, ''--force-sync''])"
  by (rule acts_as_within [where m = "StatsCommand (btrfsBinPath d) p True"])
    (use drax_commands_within in \<open>auto dest: toolsD simp: drax_tool_def\<close>)

lemma drax_limit_within:
  "is_int64 n \<Longrightarrow> evolves (within (tools d) X)
     (run_cmd (draxBinPath d) ([''--btrfs-bin'', btrfsBinPath d, ''limit'', ''--volume-path'', p,
        ''--disk-limit-bytes'', show_int n] @ (if ex then [''--exclude-image-from-quota''] else [])))"
proof (rule acts_as_within [where m = "LimitCommand (btrfsBinPath d) p n ex"])
  fix v assume "is_int64 n" and "tools d v"
  then show "acts_as v (draxBinPath d) ([''--btrfs-bin'', btrfsBinPath d, ''limit'', ''--volume-path'', p,
        ''--disk-limit-bytes'', show_int n] @ (if ex then [''--exclude-image-from-quota''] else []))
        (LimitCommand (btrfsBinPath d) p n ex)"
    unfolding tools_def drax_tool_def by blast
qed (auto dest: toolsD intro: drax_commands_within)

lemma drax_list_within:
  assumes "rooted p"
  shows "evolves (within (tools d) X) (run_cmd (draxBinPath d) [''--btrfs-bin'', btrfsBinPath d, ''list'', p])"
proof (rule run_cmd_within)
  fix v fs r fs' and q :: path
  assume t: "tools d v"
    and "e_progs v (draxBinPath d) [''--btrfs-bin'', btrfsBinPath d, ''list'', p] fs = (r, fs')"
  with assms obtain faults code w'
    where "run_state (ListCommand (btrfsBinPath d) [p]) (process v faults fs) = (Some code, w')" "fs' = w_fs w'"
    using toolsD(2) [OF t] unfolding drax_tool_def by blast
  with process_within [OF drax_commands_within(4) toolsD(1) [OF t]] show "fs_get fs' q = fs_get fs q" by metis
qed

section \<open>What each operation may change\<close>

lemma runDrax_within:
  "evolves (within E X) (run_cmd (draxBinPath d) args) \<Longrightarrow> evolves (within E X) (runDrax d args)"
  unfolding runDrax_def draxInPath_def hasSUID_def by (intro evolves_rules)

lemma runDrax_same [evolves_rules]: "evolves same_env (runDrax d args)" "evolves same_locks (runDrax d args)"
  unfolding runDrax_def draxInPath_def hasSUID_def by (intro evolves_rules)+

lemma delete_within [evolves_rules]:
  "below (resolve p) \<subseteq> X \<Longrightarrow>
     evolves (within (tools d) X) (run_cmd (btrfsBinPath d) [''subvolume'', ''delete'', p])"
proof (rule run_cmd_within)
  fix v fs r fs' q
  assume X: "below (resolve p) \<subseteq> X" and t: "tools d v" and q: "q \<notin> X"
    and "e_progs v (btrfsBinPath d) [''subvolume'', ''delete'', p] fs = (r, fs')"
  then have "delete_effect (resolve p) r fs fs'" by (auto simp: tools_def btrfs_tool_def)
  with X q show "fs_get fs' q = fs_get fs q"
    by (auto simp: delete_effect_def fs_simps split: if_splits)
qed

lemma create_within [evolves_rules]:
  "resolve p \<in> X \<Longrightarrow>
     evolves (within (tools d) X) (run_cmd (btrfsBinPath d) [''subvolume'', ''create'', p])"
proof (rule run_cmd_within)
  fix v fs r fs' q
  assume X: "resolve p \<in> X" and t: "tools d v" and q: "q \<notin> X"
    and "e_progs v (btrfsBinPath d) [''subvolume'', ''create'', p] fs = (r, fs')"
  then have "create_effect (resolve p) r fs fs'" by (auto simp: tools_def btrfs_tool_def)
  with X q show "fs_get fs' q = fs_get fs q"
    by (auto simp: create_effect_def fs_simps split: if_splits)
qed

lemma snapshot_within [evolves_rules]:
  "below (resolve p) \<subseteq> X \<Longrightarrow>
     evolves (within (tools d) X) (run_cmd (btrfsBinPath d) [''subvolume'', ''snapshot'', s, p])"
proof (rule run_cmd_within)
  fix v fs r fs' q
  assume X: "below (resolve p) \<subseteq> X" and t: "tools d v" and q: "q \<notin> X"
    and "e_progs v (btrfsBinPath d) [''subvolume'', ''snapshot'', s, p] fs = (r, fs')"
  then have "snapshot_effect (resolve s) (resolve p) r fs fs'" by (auto simp: tools_def btrfs_tool_def)
  moreover have "\<not> prefix (resolve p) q" using X q by (metis below_iff subsetD)
  then have "\<not> prefix (snapshot_target (resolve s) (resolve p) fs) q"
    by (auto simp: snapshot_target_def dest: append_prefixD)
  ultimately show "fs_get fs' q = fs_get fs q"
    by (auto simp: snapshot_effect_def split: if_splits)
qed

lemma destroyBtrfsVolume_within [evolves_rules]:
  "below (resolve p) \<subseteq> X \<Longrightarrow> evolves (within (tools d) X) (destroyBtrfsVolume d p)"
  unfolding destroyBtrfsVolume_def destroyQgroup_def by (intro evolves_rules runDrax_within)

lemma destroyBtrfsVolume_same [evolves_rules]:
  "evolves same_env (destroyBtrfsVolume d p)" "evolves same_locks (destroyBtrfsVolume d p)"
  unfolding destroyBtrfsVolume_def destroyQgroup_def by (intro evolves_rules)+

lemma volumes_name [simp]: "resolve (Join [s, ''volumes'', v]) = volume_entry s v" if "plain_name v"
  using that resolve_Join3 [of VolumesDirName v s]
  by (simp add: volume_entry_def volumes_dir_def VolumesDirName_def plain_name_def)

lemma DestroyVolume_within:
  "plain_name v \<Longrightarrow> below (volume_entry (storePath d) v) \<subseteq> X \<Longrightarrow>
     meta_dir (storePath d) @ [meta_entry v] \<in> X \<Longrightarrow> evolves (within (tools d) X) (DestroyVolume d v)"
  unfolding DestroyVolume_def
  by (intro evolves_rules) simp_all

lemma MoveVolume_within:
  "below (resolve p) \<subseteq> X \<Longrightarrow> below (resolve q) \<subseteq> X \<Longrightarrow> evolves (within E X) (MoveVolume d p q)"
  unfolding MoveVolume_def by (intro evolves_rules)

lemma VolumePath_within: "evolves (within E X) (VolumePath d v)"
  unfolding VolumePath_def Let_def by (intro evolves_rules)

lemma Volumes_within: "evolves (within E X) (Volumes d)"
  unfolding Volumes_def by (intro evolves_rules)

lemma volume_ops_same [evolves_rules]:
  "evolves same_env (VolumePath d v)" "evolves same_env (Volumes d)"
  "evolves same_env (MoveVolume d p q)" "evolves same_env (DestroyVolume d v)"
  "evolves same_locks (VolumePath d v)" "evolves same_locks (Volumes d)"
  "evolves same_locks (MoveVolume d p q)" "evolves same_locks (DestroyVolume d v)"
  unfolding VolumePath_def Volumes_def MoveVolume_def DestroyVolume_def Let_def
  by (intro evolves_rules)+

lemma VolumePath_result:
  "run_state (VolumePath d v) w = (Inr p, w') \<Longrightarrow>
     p = volume_file (storePath d) v \<and> w_fs w' = w_fs w \<and> fs_get (w_fs w) (resolve (volume_file (storePath d) v)) \<noteq> None"
  by (auto simp: VolumePath_def os_Stat_def syscall_def k_stat_def volume_file_def Let_def
      split: option.splits sum.splits prod.splits)

lemma VolumePath_exists:
  "quiet w \<Longrightarrow> fs_get (w_fs w) (resolve (volume_file (storePath d) v)) \<noteq> None \<Longrightarrow>
     run_state (VolumePath d v) w = (Inr (volume_file (storePath d) v), tick w)"
  by (auto simp: VolumePath_def os_Stat_def syscall_def k_stat_def volume_file_def Let_def quiet_def k_lookup_get)

lemma Volumes_result:
  "run_state (Volumes d) w = (Inr vs, w') \<Longrightarrow>
     vs = fs_children (volumes_dir (storePath d)) (w_fs w) \<and> w_fs w' = w_fs w"
  by (auto simp: Volumes_def ioutil_ReadDir_def syscall_def k_read_dir_def volumes_dir_def
      split: option.splits sum.splits prod.splits if_splits)

interpretation btrfs: volume_store "btrfs_ops d" "storePath d" "tools d" for d
  by unfold_locales
    (auto simp: btrfs_ops_def VolumePath_within Volumes_within VolumePath_exists MoveVolume_within
      DestroyVolume_within VolumeSize_evolves volume_ops_same dest: VolumePath_result Volumes_result)

end
