(* ===== verification/ImageCloner.thy ===== *)
theory ImageCloner
  imports BtrfsLaws Go_Sha256
begin

text \<open>
  \<open>store/image_cloner/image_cloner.go\<close>: making, looking up and destroying images (the root file
  systems handed to containers), over an image driver.
\<close>

section \<open>The code\<close>

record ImageCloner =
  ic_imageDriver :: driver_ops
  ic_storePath :: string

definition NewImageCloner :: "driver_ops \<Rightarrow> string \<Rightarrow> ImageCloner" where
  "NewImageCloner imageDriver store = \<lparr>ic_imageDriver = imageDriver, ic_storePath = store\<rparr>"

definition imagePath :: "ImageCloner \<Rightarrow> string \<Rightarrow> string" where
  "imagePath b i = Join [ic_storePath b, ImageDirName, i]"

definition ImageIDs :: "ImageCloner \<Rightarrow> (error + string list) io" where
  "ImageIDs b =
     or_return (ioutil_ReadDir (Join [ic_storePath b, ImageDirName])) (Wrap ''failed to read images dir'') (\<lambda>existingImages.
     ok existingImages)"

fun createVolumesSources :: "MountInfo list \<Rightarrow> int \<Rightarrow> int \<Rightarrow> (error + unit) io" where
  "createVolumesSources [] ownerUID ownerGID = ok ()"
| "createVolumesSources (mountInfo # rest) ownerUID ownerGID =
     (if mi_Type mountInfo \<noteq> ''bind'' then createVolumesSources rest ownerUID ownerGID
      else or_return (os_Mkdir (mi_Source mountInfo) 0x1ED) id (\<lambda>_.
           or_return (os_Chown (mi_Source mountInfo) ownerUID ownerGID) id (\<lambda>_.
           createVolumesSources rest ownerUID ownerGID)))"

fun chown_paths :: "int \<Rightarrow> int \<Rightarrow> string list \<Rightarrow> (error + unit) io" where
  "chown_paths uid gid [] = ok ()"
| "chown_paths uid gid (path # rest) =
     or_return (os_Chown path uid gid)
       (Wrap (''changing '' @ path @ '' ownership to '' @ show_int uid @ '':'' @ show_int gid)) (\<lambda>_.
     chown_paths uid gid rest)"

definition setOwnership :: "ImageSpec \<Rightarrow> string list \<Rightarrow> (error + unit) io" where
  "setOwnership spec paths =
     (if is_OwnerUID spec = 0 \<and> is_OwnerGID spec = 0 then ok ()
      else chown_paths (is_OwnerUID spec) (is_OwnerGID spec) paths)"

definition volume_mount :: "string \<Rightarrow> string \<Rightarrow> MountInfo" where
  "volume_mount image_path volume =
     \<lparr>mi_Destination = volume, mi_Type = ''bind'',
      mi_Source = Join [image_path, ''vol-'' @ sha256_hex volume], mi_Options = [''bind'']\<rparr>"

text \<open>The declared volumes are a map, so their order is the run time's.\<close>

definition imageInfo :: "string \<Rightarrow> string \<Rightarrow> Image \<Rightarrow> MountInfo \<Rightarrow> bool \<Rightarrow> (error + ImageInfo) io" where
  "imageInfo rootfsPath image_path baseImage mountJson mount = do {
     volumes \<leftarrow> range_order (img_Volumes baseImage);
     ok \<lparr>ii_Rootfs = rootfsPath, ii_Image = baseImage,
         ii_Mounts = (if mount then [] else [mountJson]) @ map (volume_mount image_path) volumes,
         ii_Path = image_path\<rparr>
   }"

text \<open>The deferred function, when it finds an error; its own errors are only logged.\<close>

definition create_cleanup :: "ImageCloner \<Rightarrow> string \<Rightarrow> unit io" where
  "create_cleanup b image_path = do {
     _ \<leftarrow> dr_DestroyImage (ic_imageDriver b) image_path;
     _ \<leftarrow> os_RemoveAll image_path;
     State_Monad.return ()
   }"

text \<open>
  The deferred function looks at the variable \<open>err\<close> of the function. The errors of \<open>Mkdir\<close> and
  \<open>CreateImage\<close> are assigned to it; those of \<open>setOwnership\<close> and \<open>createVolumesSources\<close> go to
  variables of their own \<open>if\<close> statements, so after them nothing is cleaned up. A panic of the
  driver passes through before the assignment.
\<close>

definition Create :: "ImageCloner \<Rightarrow> ImageSpec \<Rightarrow> (error + ImageInfo) io" where
  "Create b spec =
     (let image_path = imagePath b (is_ID spec);
          imageRootFSPath = Join [image_path, ''rootfs''] in do {
        mk \<leftarrow> os_Mkdir image_path 0x1C0;
        (case mk of
           Inl err \<Rightarrow> do { _ \<leftarrow> create_cleanup b image_path; fail (Wrap ''making image path'' err) }
         | Inr _ \<Rightarrow> do {
             let imageDriverSpec = \<lparr>ds_BaseVolumeIDs = is_BaseVolumeIDs spec, ds_Mount = is_Mount spec,
               ds_ImagePath = image_path, ds_DiskLimit = is_DiskLimit spec,
               ds_ExclusiveDiskLimit = is_ExcludeBaseImageFromQuota spec\<rparr>;
             made \<leftarrow> dr_CreateImage (ic_imageDriver b) imageDriverSpec;
             (case made of
                Inl err \<Rightarrow>
                  if is_panic err then fail err
                  else do { _ \<leftarrow> create_cleanup b image_path; fail (Wrap ''creating image'' err) }
              | Inr mountInfo \<Rightarrow>
                  or_return (setOwnership spec [image_path, imageRootFSPath]) id (\<lambda>_.
                  or_return (imageInfo imageRootFSPath image_path (is_BaseImage spec) mountInfo (is_Mount spec))
                    (Wrap ''creating image object'') (\<lambda>info.
                  or_return (createVolumesSources (ii_Mounts info) (is_OwnerUID spec) (is_OwnerGID spec))
                    (Wrap ''creating volume source'') (\<lambda>_.
                  ok info))))
           })
      })"

definition Exists :: "ImageCloner \<Rightarrow> string \<Rightarrow> (error + bool) io" where
  "Exists b i =
     (let image_path = Join [ic_storePath b, ImageDirName, i] in do {
        st \<leftarrow> os_Stat image_path;
        (case st of
           Inl err \<Rightarrow>
             if IsNotExist err then ok False
             else fail (Wrap (''checking if image `'' @ i @ ''` exists'') err)
         | Inr _ \<Rightarrow> ok True)
      })"

definition Destroy :: "ImageCloner \<Rightarrow> string \<Rightarrow> (error + unit) io" where
  "Destroy b i = do {
     found \<leftarrow> Exists b i;
     (case found of
        Inl err \<Rightarrow> fail (Wrap (''unable to check image: '' @ i) err)
      | Inr False \<Rightarrow> fail (Plain (''image not found: '' @ i))
      | Inr True \<Rightarrow> do {
          _ \<leftarrow> dr_DestroyImage (ic_imageDriver b) (imagePath b i);
          st \<leftarrow> os_Stat (imagePath b i);
          (case st of
             Inr _ \<Rightarrow> fail (Plain ''deleting image path'')
           | Inl _ \<Rightarrow> ok ())
        })
   }"

definition Stats :: "ImageCloner \<Rightarrow> string \<Rightarrow> (error + VolumeStats) io" where
  "Stats b i = do {
     found \<leftarrow> Exists b i;
     (case found of
        Inr True \<Rightarrow> dr_FetchStats (ic_imageDriver b) (imagePath b i)
      | _ \<Rightarrow> fail (Plain (''image not found: '' @ i)))
   }"

section \<open>Looking up\<close>

definition image_entry :: "string \<Rightarrow> string \<Rightarrow> path" where
  "image_entry store i = images_dir store @ [i]"

lemma resolve_imagePath [simp]: "plain_name i \<Longrightarrow> resolve (imagePath b i) = image_entry (ic_storePath b) i"
  by (simp add: imagePath_def image_entry_def images_dir_def)

lemma ImageIDs_evolves [evolves_rules]:
  "evolves (within E X) (ImageIDs b)" "evolves same_env (ImageIDs b)" "evolves same_locks (ImageIDs b)"
  unfolding ImageIDs_def by (intro evolves_rules)+

lemma Exists_evolves [evolves_rules]:
  "evolves (within E X) (Exists b i)" "evolves same_env (Exists b i)" "evolves same_locks (Exists b i)"
  unfolding Exists_def Let_def by (intro evolves_rules)+

lemma ImageIDs_result:
  "run_state (ImageIDs b) w = (Inr ids, w') \<Longrightarrow>
     ids = fs_children (images_dir (ic_storePath b)) (w_fs w) \<and> w_fs w' = w_fs w"
  by (auto simp: ImageIDs_def ioutil_ReadDir_def syscall_def k_read_dir_def images_dir_def
      split: option.splits sum.splits prod.splits if_splits)

text \<open>Whatever fails, an image that is said to exist does.\<close>

lemma Exists_true:
  "run_state (Exists b i) w = (Inr True, w') \<Longrightarrow> fs_get (w_fs w) (resolve (imagePath b i)) \<noteq> None"
  by (auto simp: Exists_def os_Stat_def syscall_def k_stat_def imagePath_def Let_def
      split: option.splits sum.splits prod.splits if_splits)

lemma Exists_quiet:
  assumes "quiet w"
  shows "\<exists>r. run_state (Exists b i) w = (r, tick w) \<and>
    (case r of Inr x \<Rightarrow> x = (fs_get (w_fs w) (resolve (imagePath b i)) \<noteq> None)
     | Inl _ \<Rightarrow> fs_get (w_fs w) (resolve (imagePath b i)) = None)"
  using assms
  by (auto simp: Exists_def os_Stat_def syscall_def k_stat_def imagePath_def quiet_def Let_def
      split: option.splits sum.splits prod.splits if_splits dest: k_lookup_Inl)

section \<open>The names of declared volumes\<close>

lemma plain_vol_name [simp]: "plain_name (''vol-'' @ sha256_hex v)"
  using set_sha256_hex [of v] by (auto simp: plain_name_def)

lemma resolve_volume_mount [simp]:
  "resolve (mi_Source (volume_mount image_path v)) = resolve image_path @ [''vol-'' @ sha256_hex v]"
  by (simp only: volume_mount_def MountInfo.simps resolve_Join2 plain_vol_name)

end
