(* ===== verification/GarbageCollector.thy ===== *)
theory GarbageCollector
  imports ImageCloner
begin

text \<open>
  \<open>store/garbage_collector/gc.go\<close>: which volumes no image uses, marking them by a rename to
  \<open>gc.<id>\<close> and destroying the marked ones. The collector works over a volume driver, the image
  cloner's list of images and the dependency manager; what it needs of them is the locale
  \<open>gc_parts\<close>, which the modelled driver, cloner and manager satisfy.
\<close>

section \<open>The code\<close>

record GarbageCollector =
  gc_volumeDriver :: driver_ops
  gc_imageIDs :: "(error + string list) io"
  gc_dependencies :: "string \<Rightarrow> (error + string list) io"

definition NewGC :: "driver_ops \<Rightarrow> (error + string list) io \<Rightarrow> (string \<Rightarrow> (error + string list) io) \<Rightarrow> GarbageCollector" where
  "NewGC drv imageIDs dependencies =
     \<lparr>gc_volumeDriver = drv, gc_imageIDs = imageIDs, gc_dependencies = dependencies\<rparr>"

definition gc_prefix :: string where
  "gc_prefix = ''gc.''"

text \<open>The loop of \<open>MarkUnused\<close>, with the messages of what failed.\<close>

fun mark_volumes :: "GarbageCollector \<Rightarrow> string list \<Rightarrow> string list io" where
  "mark_volumes g [] = State_Monad.return []"
| "mark_volumes g (volID # rest) = do {
     p \<leftarrow> dr_VolumePath (gc_volumeDriver g) volID;
     (case p of
        Inl err \<Rightarrow> do {
          errorMessages \<leftarrow> mark_volumes g rest;
          State_Monad.return (error_text (Wrap ''fetching-volume-path'' err) # errorMessages)
        }
      | Inr volumePath \<Rightarrow> do {
          let gcVolID = gc_prefix @ volID;
          let gcVolumePath = replace_first volumePath volID gcVolID;
          r \<leftarrow> dr_MoveVolume (gc_volumeDriver g) volumePath gcVolumePath;
          errorMessages \<leftarrow> mark_volumes g rest;
          State_Monad.return (case r of
            Inl err \<Rightarrow> error_text (Wrap ''moving-volume'' err) # errorMessages
          | Inr _ \<Rightarrow> errorMessages)
        })
   }"

definition MarkUnused :: "GarbageCollector \<Rightarrow> string list \<Rightarrow> (error + unit) io" where
  "MarkUnused g unusedVolumes = do {
     errorMessages \<leftarrow> mark_volumes g unusedVolumes;
     if length errorMessages > 0
     then fail (Plain (show_nat (length errorMessages) @ ''/'' @ show_nat (length unusedVolumes) @
            '' volumes failed to be marked as unused''))
     else ok ()
   }"

definition gcVolumes :: "GarbageCollector \<Rightarrow> (error + string list) io" where
  "gcVolumes g =
     or_return (dr_Volumes (gc_volumeDriver g)) (Wrap ''failed to retrieve volume list'') (\<lambda>vols.
     ok (filter (\<lambda>v. has_prefix v gc_prefix) vols))"

fun destroy_volumes :: "GarbageCollector \<Rightarrow> string list \<Rightarrow> error option \<Rightarrow> error option io" where
  "destroy_volumes g [] cleanupErr = State_Monad.return cleanupErr"
| "destroy_volumes g (volID # rest) cleanupErr =
     (if \<not> has_prefix volID gc_prefix then destroy_volumes g rest cleanupErr
      else do {
        r \<leftarrow> dr_DestroyVolume (gc_volumeDriver g) volID;
        destroy_volumes g rest
          (case r of Inl _ \<Rightarrow> Some (Plain ''destroying volumes failed'') | Inr _ \<Rightarrow> cleanupErr)
      })"

definition collectVolumes :: "GarbageCollector \<Rightarrow> (error + unit) io" where
  "collectVolumes g =
     or_return (gcVolumes g) (Wrap ''listing volumes'') (\<lambda>unusedVolumes. do {
       cleanupErr \<leftarrow> destroy_volumes g unusedVolumes None;
       (case cleanupErr of Some err \<Rightarrow> fail err | None \<Rightarrow> ok ())
     })"

definition Collect :: "GarbageCollector \<Rightarrow> (error + unit) io" where
  "Collect g = collectVolumes g"

text \<open>The map of orphans is the list of its keys, each once.\<close>

definition removeDependencyFromOrphanList :: "string list \<Rightarrow> string list \<Rightarrow> string list" where
  "removeDependencyFromOrphanList volumesList usedVolumes =
     filter (\<lambda>v. v \<notin> set usedVolumes) volumesList"

fun remove_used :: "GarbageCollector \<Rightarrow> string list \<Rightarrow> string list \<Rightarrow> (error + string list) io" where
  "remove_used g orphanedVolumes [] = ok orphanedVolumes"
| "remove_used g orphanedVolumes (imageID # rest) =
     or_return (gc_dependencies g (image_ref imageID)) id (\<lambda>usedVolumes.
     remove_used g (removeDependencyFromOrphanList orphanedVolumes usedVolumes) rest)"

definition UnusedVolumes :: "GarbageCollector \<Rightarrow> string list \<Rightarrow> (error + string list) io" where
  "UnusedVolumes g chainIDsToPreserve =
     or_return (dr_Volumes (gc_volumeDriver g)) (Wrap ''failed to retrieve volume list'') (\<lambda>vols.
     let orphanedVolumes = remdups (filter (\<lambda>v. \<not> has_prefix v gc_prefix) vols) in
     or_return (gc_imageIDs g) (Wrap ''failed to retrieve images'') (\<lambda>imageIDs.
     or_return (remove_used g orphanedVolumes imageIDs) id (\<lambda>orphaned. do {
       orphanedVolumeIDs \<leftarrow> range_order (removeDependencyFromOrphanList orphaned chainIDsToPreserve);
       ok orphanedVolumeIDs
     })))"

section \<open>What the collector needs of its parts\<close>

locale image_registry =
  fixes imageIDs :: "(error + string list) io"
    and dependencies :: "string \<Rightarrow> (error + string list) io"
    and images :: "fsys \<Rightarrow> string list"
    and deps :: "fsys \<Rightarrow> string \<Rightarrow> string list option"
  assumes imageIDs_result: "\<And>w ids w'. run_state imageIDs w = (Inr ids, w') \<Longrightarrow> ids = images (w_fs w)"
    and dependencies_result: "\<And>r w cs w'. run_state (dependencies r) w = (Inr cs, w') \<Longrightarrow> deps (w_fs w) r = Some cs"
    and registry_pure: "\<And>w r w'. run_state imageIDs w = (r, w') \<Longrightarrow> w_fs w' = w_fs w"
      "\<And>i w r w'. run_state (dependencies i) w = (r, w') \<Longrightarrow> w_fs w' = w_fs w"
    and registry_env: "evolves same_env imageIDs" "\<And>i. evolves same_env (dependencies i)"
    and registry_locks: "evolves same_locks imageIDs" "\<And>i. evolves same_locks (dependencies i)"

locale gc_parts = volume_store ops store E + image_registry imageIDs dependencies images deps
  for ops store E imageIDs dependencies images deps +
  assumes Volumes_result: "\<And>w r w'. run_state (dr_Volumes ops) w = (r, w') \<Longrightarrow> w_fs w' = w_fs w"

text \<open>The path of the marked volume: the identifier is the last part of the path.\<close>

lemma gc_path:
  assumes "clean_abs store" and "plain_name v" and "\<not> contains (store @ ''/volumes/'') v"
  shows "replace_first (volume_file store v) v (gc_prefix @ v) = volume_file store (gc_prefix @ v)"
proof -
  have pl: "plain_name (gc_prefix @ v)" using assms(2) by (auto simp: plain_name_def gc_prefix_def)
  obtain a where a: "store @ ''/volumes/'' = a @ [CHR ''/'']" by (rule that [of "store @ ''/volumes''"]) simp
  have vf: "volume_file store u = (a @ [CHR ''/'']) @ u" if "plain_name u" for u
    using Join_plain3 [OF assms(1), of VolumesDirName u] that
    by (simp add: volume_file_def flip: a) (simp add: VolumesDirName_def)
  have "replace_first ((a @ [CHR ''/'']) @ v) v (gc_prefix @ v) = (a @ [CHR ''/'']) @ gc_prefix @ v"
    by (rule replace_first_last [OF plain_no_slash [OF assms(2)]]) (use assms(3) a in metis)
  then show ?thesis by (simp only: vf [OF assms(2)] vf [OF pl])
qed

definition live :: "string \<Rightarrow> bool" where
  "live v \<longleftrightarrow> \<not> has_prefix v gc_prefix"

lemma marked_not_live [simp]: "\<not> live (gc_prefix @ v)"
  by (simp add: live_def has_prefix_def)

lemma plain_marked [simp]: "plain_name v \<Longrightarrow> plain_name (gc_prefix @ v)"
  by (auto simp: plain_name_def gc_prefix_def)

text \<open>Paths that marking \<open>vs\<close> and collecting may change.\<close>

definition mark_area :: "string \<Rightarrow> string list \<Rightarrow> path set" where
  "mark_area store vs = (\<Union>v\<in>set vs. below (volume_entry store v) \<union> below (volume_entry store (gc_prefix @ v)))"

definition collect_area :: "string \<Rightarrow> path set" where
  "collect_area store =
     (\<Union>v\<in>{v. has_prefix v gc_prefix}. below (volume_entry store v) \<union> {meta_dir store @ [meta_entry v]})"

lemma NewGC_sel [simp]:
  "gc_volumeDriver (NewGC ops ids deps) = ops" "gc_imageIDs (NewGC ops ids deps) = ids"
  "gc_dependencies (NewGC ops ids deps) = deps"
  by (simp_all add: NewGC_def)

context gc_parts
begin

lemma remove_used_result:
  "run_state (remove_used (NewGC ops imageIDs dependencies) os ids) w = (Inr os', w') \<Longrightarrow>
     (\<forall>i\<in>set ids. \<exists>cs. deps (w_fs w) (image_ref i) = Some cs) \<and>
     os' = filter (\<lambda>v. \<forall>i\<in>set ids. \<forall>cs. deps (w_fs w) (image_ref i) = Some cs \<longrightarrow> v \<notin> set cs) os"
proof (induction ids arbitrary: os w)
  case (Cons i ids)
  then obtain cs w1 where d: "run_state (dependencies (image_ref i)) w = (Inr cs, w1)"
    and r: "run_state (remove_used (NewGC ops imageIDs dependencies)
        (removeDependencyFromOrphanList os cs) ids) w1 = (Inr os', w')"
    by (auto split: prod.splits sum.splits)
  from d have "deps (w_fs w) (image_ref i) = Some cs" "w_fs w1 = w_fs w"
    using dependencies_result registry_pure(2) by blast+
  with Cons.IH [OF r] show ?case by (auto simp: removeDependencyFromOrphanList_def)
qed auto

lemma remove_used_same: "evolves same_env (remove_used (NewGC ops imageIDs dependencies) os ids)"
    "evolves same_locks (remove_used (NewGC ops imageIDs dependencies) os ids)"
  by (induction ids arbitrary: os) (auto intro!: evolves_rules registry_env registry_locks)

lemma remove_used_pure:
  "run_state (remove_used (NewGC ops imageIDs dependencies) os ids) w = (r, w') \<Longrightarrow> w_fs w' = w_fs w"
proof (induction ids arbitrary: os w)
  case (Cons i ids)
  obtain x w1 where d: "run_state (dependencies (image_ref i)) w = (x, w1)" by fastforce
  then have "w_fs w1 = w_fs w" by (rule registry_pure(2))
  with Cons d show ?case by (cases x) auto
qed auto

lemma UnusedVolumes_same: "evolves same_env (UnusedVolumes (NewGC ops imageIDs dependencies) preserve)"
    "evolves same_locks (UnusedVolumes (NewGC ops imageIDs dependencies) preserve)"
  unfolding UnusedVolumes_def Let_def
  by (auto intro!: evolves_rules registry_env registry_locks read_env ops_locks remove_used_same)

text \<open>
  What \<open>UnusedVolumes\<close> gives, whatever fails on the way: when there is a result it is exact, and
  nothing has changed. A reference that cannot be read makes it fail, never forget the image.
\<close>

lemma UnusedVolumes_result:
  assumes "run_state (UnusedVolumes (NewGC ops imageIDs dependencies) preserve) w = (Inr vs, w')"
    and "\<And>xs. set (e_order (w_env w) xs) = set xs"
  shows "(\<forall>i\<in>set (images (w_fs w)). deps (w_fs w) (image_ref i) \<noteq> None) \<and>
    set vs = {v \<in> set (fs_children (volumes_dir store) (w_fs w)). live v \<and> v \<notin> set preserve \<and>
      (\<forall>i\<in>set (images (w_fs w)). \<forall>cs. deps (w_fs w) (image_ref i) = Some cs \<longrightarrow> v \<notin> set cs)}"
proof -
  from assms(1) obtain vols w1 ids w2 os w3 where
    vols: "run_state (dr_Volumes ops) w = (Inr vols, w1)" and
    ids: "run_state imageIDs w1 = (Inr ids, w2)" and
    os: "run_state (remove_used (NewGC ops imageIDs dependencies)
           (remdups (filter (\<lambda>v. \<not> has_prefix v gc_prefix) vols)) ids) w2 = (Inr os, w3)" and
    vs: "vs = e_order (w_env w3) (removeDependencyFromOrphanList os preserve)"
    by (auto simp: UnusedVolumes_def Let_def range_order_def split: prod.splits sum.splits)
  have 1: "vols = fs_children (volumes_dir store) (w_fs w)" "w_fs w1 = w_fs w" "w_env w1 = w_env w"
    using Volumes_listed [OF vols] evolvesD [OF read_env(2) vols] by (auto simp: same_env_def)
  have 2: "ids = images (w_fs w)" "w_fs w2 = w_fs w" "w_env w2 = w_env w"
    using imageIDs_result [OF ids] registry_pure(1) [OF ids] evolvesD [OF registry_env(1) ids] 1
    by (auto simp: same_env_def)
  have 3: "w_env w3 = w_env w" using evolvesD [OF remove_used_same(1) os] 2 by (simp add: same_env_def)
  from remove_used_result [OF os] 1 2 3 vs assms(2) show ?thesis
    by (auto simp: removeDependencyFromOrphanList_def live_def)
qed

lemma UnusedVolumes_pure:
  assumes "run_state (UnusedVolumes (NewGC ops imageIDs dependencies) preserve) w = (r, w')"
  shows "w_fs w' = w_fs w"
proof -
  obtain x w1 where v: "run_state (dr_Volumes ops) w = (x, w1)" by fastforce
  obtain y w2 where i: "run_state imageIDs w1 = (y, w2)" by fastforce
  show ?thesis
    using assms v i Volumes_result [OF v] registry_pure(1) [OF i]
    by (auto simp: UnusedVolumes_def Let_def range_order_def split: prod.splits sum.splits
        dest: remove_used_pure)
qed

section \<open>What marking and collecting touch\<close>

lemma mark_volumes_frame:
  assumes "clean_abs store" and "\<forall>v\<in>set vs. plain_name v \<and> \<not> contains (store @ ''/volumes/'') v"
    and "mark_area store vs \<subseteq> X"
  shows "evolves (within E X) (mark_volumes (NewGC ops imageIDs dependencies) vs)"
  using assms(2,3)
proof (induction vs)
  case (Cons v vs)
  have IH: "evolves (within E X) (mark_volumes (NewGC ops imageIDs dependencies) vs)"
    using Cons by (auto simp: mark_area_def)
  have p: "plain_name v" and c: "\<not> contains (store @ ''/volumes/'') v" using Cons.prems by auto
  have X: "below (volume_entry store v) \<subseteq> X" "below (volume_entry store (gc_prefix @ v)) \<subseteq> X"
    using Cons.prems(2) by (auto simp: mark_area_def)
  have mv: "evolves (within E X) (dr_MoveVolume ops (volume_file store v) (volume_file store (gc_prefix @ v)))"
    by (rule MoveVolume_frame) (use X p in simp_all)
  show ?case
  proof (rule evolvesI)
    fix w r w'
    assume run: "run_state (mark_volumes (NewGC ops imageIDs dependencies) (v # vs)) w = (r, w')"
    obtain x w1 where x: "run_state (dr_VolumePath ops v) w = (x, w1)" by fastforce
    have s1: "within E X w w1" by (rule evolvesD [OF VolumePath_pure x])
    show "within E X w w'"
    proof (cases x)
      case (Inl e)
      with run x obtain r1 where "run_state (mark_volumes (NewGC ops imageIDs dependencies) vs) w1 = (r1, w')"
        by (auto split: prod.splits)
      from within_trans [OF s1 evolvesD [OF IH this]] show ?thesis .
    next
      case (Inr q)
      then have "q = volume_file store v" using VolumePath_found [of v w q w1] x by simp
      with run x Inr obtain r1 w2 r2 where
        "run_state (dr_MoveVolume ops (volume_file store v) (volume_file store (gc_prefix @ v))) w1 = (r1, w2)"
        and "run_state (mark_volumes (NewGC ops imageIDs dependencies) vs) w2 = (r2, w')"
        by (auto simp: gc_path [OF assms(1) p c] split: prod.splits)
      with s1 show ?thesis by (blast intro: within_trans evolvesD [OF mv] evolvesD [OF IH])
    qed
  qed
qed (simp add: evolves_return)

lemma MarkUnused_frame:
  assumes "clean_abs store" and "\<forall>v\<in>set vs. plain_name v \<and> \<not> contains (store @ ''/volumes/'') v"
    and "mark_area store vs \<subseteq> X"
  shows "evolves (within E X) (MarkUnused (NewGC ops imageIDs dependencies) vs)"
  unfolding MarkUnused_def by (intro evolves_rules mark_volumes_frame assms)

lemma mark_volumes_same: "evolves same_env (mark_volumes (NewGC ops imageIDs dependencies) vs)"
    "evolves same_locks (mark_volumes (NewGC ops imageIDs dependencies) vs)"
  by (induction vs) (auto simp: Let_def intro!: evolves_rules read_env change_env ops_locks split: sum.splits)

lemma MarkUnused_same: "evolves same_env (MarkUnused (NewGC ops imageIDs dependencies) vs)"
    "evolves same_locks (MarkUnused (NewGC ops imageIDs dependencies) vs)"
  unfolding MarkUnused_def by (intro evolves_rules mark_volumes_same)+

lemma destroy_volumes_frame:
  assumes "\<forall>v\<in>set vs. plain_name v"
  shows "evolves (within E (collect_area store)) (destroy_volumes (NewGC ops imageIDs dependencies) vs e)"
  using assms
proof (induction vs arbitrary: e)
  case (Cons v vs)
  have IH: "evolves (within E (collect_area store)) (destroy_volumes (NewGC ops imageIDs dependencies) vs e)" for e
    using Cons by simp
  have "evolves (within E (collect_area store)) (dr_DestroyVolume ops v)" if "has_prefix v gc_prefix"
    by (rule DestroyVolume_frame) (use Cons.prems that in \<open>auto simp: collect_area_def\<close>)
  with IH show ?case by (auto intro!: evolves_rules)
qed (simp add: evolves_return)

lemma destroy_volumes_same: "evolves same_env (destroy_volumes (NewGC ops imageIDs dependencies) vs e)"
    "evolves same_locks (destroy_volumes (NewGC ops imageIDs dependencies) vs e)"
  by (induction vs arbitrary: e) (auto intro!: evolves_rules change_env ops_locks)

text \<open>Collecting touches volumes marked for it and metadata files, nothing else.\<close>

lemma Collect_frame: "evolves (within E (collect_area store)) (Collect (NewGC ops imageIDs dependencies))"
proof (rule evolvesI)
  fix w r w'
  assume run: "run_state (Collect (NewGC ops imageIDs dependencies)) w = (r, w')"
  obtain x w1 where x: "run_state (dr_Volumes ops) w = (x, w1)" by fastforce
  have s: "within E (collect_area store) w w1" by (rule evolvesD [OF Volumes_pure x])
  show "within E (collect_area store) w w'"
  proof (cases x)
    case (Inl e)
    with run x s show ?thesis by (simp add: Collect_def collectVolumes_def gcVolumes_def)
  next
    case (Inr vols)
    then have "vols = fs_children (volumes_dir store) (w_fs w)" using Volumes_listed x by blast
    then have "\<forall>v\<in>set (filter (\<lambda>v. has_prefix v gc_prefix) vols). plain_name v" by (simp add: set_fs_children)
    from destroy_volumes_frame [OF this] have
      "evolves (within E (collect_area store)) (do {
         cleanupErr \<leftarrow> destroy_volumes (NewGC ops imageIDs dependencies) (filter (\<lambda>v. has_prefix v gc_prefix) vols) None;
         (case cleanupErr of Some err \<Rightarrow> fail err | None \<Rightarrow> ok ())})"
      by (auto intro!: evolves_rules)
    moreover from run x Inr have "run_state (do {
         cleanupErr \<leftarrow> destroy_volumes (NewGC ops imageIDs dependencies) (filter (\<lambda>v. has_prefix v gc_prefix) vols) None;
         (case cleanupErr of Some err \<Rightarrow> fail err | None \<Rightarrow> ok ())}) w1 = (r, w')"
      by (simp add: Collect_def collectVolumes_def gcVolumes_def)
    ultimately have "within E (collect_area store) w1 w'" by (rule evolvesD)
    with s show ?thesis by (rule within_trans)
  qed
qed

lemma Collect_same: "evolves same_env (Collect (NewGC ops imageIDs dependencies))"
    "evolves same_locks (Collect (NewGC ops imageIDs dependencies))"
  unfolding Collect_def collectVolumes_def gcVolumes_def
  by (auto intro!: evolves_rules read_env ops_locks destroy_volumes_same)

end

lemma Dependencies_pure: "run_state (Dependencies m i) w = (r, w') \<Longrightarrow> w_fs w' = w_fs w"
  by (auto simp: Dependencies_def os_Open_def file_Read_def syscall_def k_read_file_def
      split: option.splits sum.splits prod.splits kind.splits)

lemma ImageIDs_pure: "run_state (ImageIDs b) w = (r, w') \<Longrightarrow> w_fs w' = w_fs w"
  by (auto simp: ImageIDs_def ioutil_ReadDir_def syscall_def k_read_dir_def
      split: option.splits sum.splits prod.splits if_splits)

lemma Volumes_pure_fs: "run_state (BtrfsDriver.Volumes d) w = (r, w') \<Longrightarrow> w_fs w' = w_fs w"
  by (auto simp: Volumes_def ioutil_ReadDir_def syscall_def k_read_dir_def
      split: option.splits sum.splits prod.splits if_splits)

interpretation gc: gc_parts "btrfs_ops d" "storePath d" "tools d" "ImageIDs b" "Dependencies m"
    "fs_children (images_dir (ic_storePath b))" "registered m" for d b m
  by unfold_locales
    (auto simp: btrfs_ops_def ImageIDs_evolves Dependencies_same dest: ImageIDs_result Dependencies_result ImageIDs_pure Dependencies_pure Volumes_pure_fs)

end
