(* ===== verification/StoreMeasurer.thy ===== *)
theory StoreMeasurer
  imports GarbageCollector
begin

text \<open>
  \<open>store/measurer_linux.go\<close>: how many bytes the store's file system holds, from \<open>statfs\<close> in
  64-bit arithmetic, and how many the unused volumes take, from their metadata.
\<close>

section \<open>The code\<close>

record StoreMeasurer =
  sm_storePath :: string
  sm_volumeDriver :: driver_ops

definition NewStoreMeasurer :: "string \<Rightarrow> driver_ops \<Rightarrow> StoreMeasurer" where
  "NewStoreMeasurer store volumeDriver = \<lparr>sm_storePath = store, sm_volumeDriver = volumeDriver\<rparr>"

definition stats_bytes :: "statfs \<Rightarrow> int \<times> int" where
  "stats_bytes stats =
     (let bsize = uwrap64 (st_bsize stats);
          free = uwrap64 (st_bfree stats * bsize);
          totalBytes = uwrap64 (st_blocks stats * bsize);
          used = wrap64 (uwrap64 (totalBytes - free))
      in (wrap64 totalBytes, used))"

text \<open>The path measured is the store's, whatever the argument.\<close>

definition pathStats :: "StoreMeasurer \<Rightarrow> string \<Rightarrow> (error + int \<times> int) io" where
  "pathStats s path =
     or_return (syscall_Statfs (sm_storePath s)) (Wrap (''Invalid path '' @ sm_storePath s)) (\<lambda>stats.
     ok (stats_bytes stats))"

definition Usage :: "StoreMeasurer \<Rightarrow> (error + int) io" where
  "Usage s =
     or_return (pathStats s (sm_storePath s)) (Wrap (''Invalid path '' @ sm_storePath s)) (\<lambda>(_, used).
     ok used)"

fun cache_usage_loop :: "StoreMeasurer \<Rightarrow> string list \<Rightarrow> int \<Rightarrow> int io" where
  "cache_usage_loop s [] total_size = State_Monad.return total_size"
| "cache_usage_loop s (volume # rest) total_size = do {
     volumeSize \<leftarrow> dr_VolumeSize (sm_volumeDriver s) volume;
     cache_usage_loop s rest
       (case volumeSize of Inl _ \<Rightarrow> total_size | Inr n \<Rightarrow> wrap64 (total_size + n))
   }"

definition CacheUsage :: "StoreMeasurer \<Rightarrow> string list \<Rightarrow> int io" where
  "CacheUsage s unusedVolumes = cache_usage_loop s unusedVolumes 0"

section \<open>Laws\<close>

lemma Usage_evolves [evolves_rules]:
  "evolves (within E X) (Usage s)" "evolves same_env (Usage s)" "evolves same_locks (Usage s)"
  unfolding Usage_def pathStats_def
  by (intro evolves_rules syscall_same_env syscall_same_locks)+

lemma Usage_pure: "run_state (Usage s) w = (r, w') \<Longrightarrow> w_fs w' = w_fs w"
  by (auto simp: Usage_def pathStats_def syscall_Statfs_def syscall_def
      split: option.splits sum.splits prod.splits)

lemma wrap_difference:
  "0 \<le> a \<Longrightarrow> a \<le> b \<Longrightarrow> b < 2 ^ 63 \<Longrightarrow> wrap64 (uwrap64 (uwrap64 b - uwrap64 a)) = b - a"
  by (simp add: uwrap64_def wrap64_def)

text \<open>
  The used bytes are exact as long as the file system is smaller than 2^63 bytes: the unsigned
  products do not wrap and the result is not negative.
\<close>

lemma stats_bytes_exact:
  assumes "0 \<le> st_bsize s" and "0 \<le> st_bfree s" and "st_bfree s \<le> st_blocks s"
    and "st_blocks s * st_bsize s < 2 ^ 63" and "st_bsize s < 2 ^ 63"
  shows "snd (stats_bytes s) = (st_blocks s - st_bfree s) * st_bsize s"
proof -
  have "uwrap64 (st_bsize s) = st_bsize s" using assms by (simp add: uwrap64_def)
  then have "snd (stats_bytes s) = st_blocks s * st_bsize s - st_bfree s * st_bsize s"
    unfolding stats_bytes_def Let_def snd_conv
    by (simp only:) (rule wrap_difference; use assms in \<open>auto intro: mult_right_mono\<close>)
  then show ?thesis by (simp add: algebra_simps)
qed

lemma Usage_quiet:
  "quiet w \<Longrightarrow> run_state (Usage s) w = (Inr u, w') \<Longrightarrow>
     u = snd (stats_bytes (e_statfs (w_env w) (w_fs w) (resolve (sm_storePath s)))) \<and> w' = tick w"
  by (auto simp: Usage_def pathStats_def syscall_Statfs_def syscall_def quiet_def
      split: option.splits sum.splits prod.splits)

text \<open>Volumes whose size cannot be read are left out; the sum wraps as \<open>int64\<close> does.\<close>

definition recorded_sum :: "fsys \<Rightarrow> string \<Rightarrow> string list \<Rightarrow> int" where
  "recorded_sum fs store vs =
     sum_list (map (\<lambda>v. case recorded_size fs (resolve (VolumeMetaFilePath store v)) of Some n \<Rightarrow> n | None \<Rightarrow> 0) vs)"

lemma VolumeSize_none:
  assumes "quiet w" and "recorded_size (w_fs w) (resolve (VolumeMetaFilePath store v)) = None"
  shows "\<exists>e w'. run_state (Filesystems.VolumeSize store v) w = (Inl e, w') \<and> w_fs w' = w_fs w \<and> quiet w'"
  using assms
  by (auto simp: Filesystems.VolumeSize_def os_Open_def file_Read_def syscall_def k_read_file_def
      recorded_size_def quiet_def split: option.splits sum.splits prod.splits kind.splits)


lemma cache_usage_loop_sum:
  assumes "\<And>v. dr_VolumeSize (sm_volumeDriver s) v = Filesystems.VolumeSize store v"
  shows "quiet w \<Longrightarrow> is_int64 n \<Longrightarrow>
    \<exists>w'. run_state (cache_usage_loop s vs n) w = (wrap64 (n + recorded_sum (w_fs w) store vs), w')"
proof (induction vs arbitrary: n w)
  case (Cons v vs)
  show ?case
  proof (cases "recorded_size (w_fs w) (resolve (VolumeMetaFilePath store v))")
    case None
    from VolumeSize_none [OF Cons.prems(1) None] obtain e w1 where
      "run_state (Filesystems.VolumeSize store v) w = (Inl e, w1)" "w_fs w1 = w_fs w" "quiet w1" by blast
    with Cons.IH [of w1 n] Cons.prems None show ?thesis by (simp add: assms recorded_sum_def)
  next
    case (Some m)
    from VolumeSize_quiet [OF Cons.prems(1) Some] Cons.IH [of "tick (tick w)" "wrap64 (n + m)"] Cons.prems Some
    show ?thesis by (simp add: assms recorded_sum_def algebra_simps)
  qed
qed (simp add: recorded_sum_def)

lemma CacheUsage_sum:
  "quiet w \<Longrightarrow>
   fst (run_state (CacheUsage (NewStoreMeasurer store (btrfs_ops d)) vs) w) = wrap64 (recorded_sum (w_fs w) (storePath d) vs)"
  using cache_usage_loop_sum [of "NewStoreMeasurer store (btrfs_ops d)" "storePath d" w 0 vs]
  by (auto simp: CacheUsage_def NewStoreMeasurer_def btrfs_ops_def is_int64_def)

end
