(* ===== verification/Sample.thy ===== *)
theory Sample
  imports BtrfsLaws
begin

text \<open>
  A concrete environment and a small store, on which the hypotheses of the theorems hold: a
  \<open>btrfs\<close> program that does exactly what \<open>btrfs_tool\<close> says, a \<open>drax\<close> that satisfies
  \<open>drax_tool\<close>, no faults, and a store at \<^verbatim>\<open>/s\<close> with two volumes, the first one used by the image
  \<^verbatim>\<open>i\<close>.
\<close>

definition cmd_ok :: "string \<Rightarrow> cmd_result" where
  "cmd_ok out = \<lparr>c_status = None, c_out = out, c_err = [], c_both = out\<rparr>"

definition cmd_failed :: "string \<Rightarrow> cmd_result" where
  "cmd_failed out = \<lparr>c_status = Some (Plain ''exit status 1''), c_out = out, c_err = [], c_both = out\<rparr>"

definition subvolume_node :: node where
  "subvolume_node = \<lparr>nd_kind = Subvolume, nd_mode = 0x1ED, nd_uid = 0, nd_gid = 0, nd_mtime = 0\<rparr>"

definition dir_node :: node where
  "dir_node = \<lparr>nd_kind = Directory, nd_mode = 0x1ED, nd_uid = 0, nd_gid = 0, nd_mtime = 0\<rparr>"

definition file_node :: "string \<Rightarrow> node" where
  "file_node s = \<lparr>nd_kind = File s, nd_mode = 0x1A4, nd_uid = 0, nd_gid = 0, nd_mtime = 0\<rparr>"

definition sample_btrfs :: "string list \<Rightarrow> fsys \<Rightarrow> cmd_result \<times> fsys" where
  "sample_btrfs args fs =
     (case args of
        [a, b, p] \<Rightarrow>
          if a = ''subvolume'' \<and> b = ''create'' then
            (if fs_get fs (resolve p) = None then (cmd_ok [], fs_put (resolve p) subvolume_node fs)
             else (cmd_failed ''target path already exists'', fs))
          else if a = ''subvolume'' \<and> b = ''delete'' then
            (if fs_get fs (resolve p) \<noteq> None then (cmd_ok [], fs_rm_tree (resolve p) fs)
             else (cmd_failed ''cannot access subvolume'', fs))
          else (cmd_ok [], fs)
      | [a, b, s, p] \<Rightarrow>
          if a = ''subvolume'' \<and> b = ''snapshot'' then
            (let t = snapshot_target (resolve s) (resolve p) fs in
             if subvolume_at fs (resolve s) \<and> fs_get fs t = None
             then (cmd_ok [], fs_copy (resolve s) t fs)
             else (cmd_failed ''cannot snapshot'', fs))
          else (cmd_ok [], fs)
      | _ \<Rightarrow> (cmd_ok [], fs))"

definition sample_drax :: "string list \<Rightarrow> fsys \<Rightarrow> cmd_result \<times> fsys" where
  "sample_drax args fs =
     (if length args = 4 \<and> args ! 2 = ''list''
      then (cmd_failed (''list subvolumes: : '' @ [CHR 0x0A]), fs) else (cmd_ok [], fs))"

definition sample_env :: env where
  "sample_env =
     \<lparr>e_progs = (\<lambda>bin args fs. if bin = ''btrfs'' then sample_btrfs args fs
                  else if bin = ''drax'' then sample_drax args fs else (cmd_ok [], fs)),
      e_faults = (\<lambda>_. None), e_lookpath = Some, e_statfs = (\<lambda>_ _. \<lparr>st_type = 0x9123683E, st_bsize = 4096, st_blocks = 100, st_bfree = 40\<rparr>),
      e_uid = 0, e_gid = 0, e_euid = 0, e_umask = 0x12, e_time = int, e_rand = int, e_order = id\<rparr>"

definition sample_driver :: Driver where
  "sample_driver = NewDriver ''btrfs'' ''mkfs.btrfs'' ''drax'' ''/s''"

lemma sample_driver_sel [simp]:
  "storePath sample_driver = ''/s''" "btrfsBinPath sample_driver = ''btrfs''" "draxBinPath sample_driver = ''drax''"
  by (simp_all add: sample_driver_def NewDriver_def)

text \<open>An environment with these two programs, whatever else it has.\<close>

definition sample_programs :: "env \<Rightarrow> bool" where
  "sample_programs v \<longleftrightarrow> e_progs v ''btrfs'' = sample_btrfs \<and> e_progs v ''drax'' = sample_drax"

lemma sample_programs_env: "sample_programs sample_env"
  by (simp add: sample_programs_def sample_env_def fun_eq_iff)

lemma sample_progs:
  assumes "sample_programs v"
  shows "e_progs v ''btrfs'' args fs = sample_btrfs args fs" "e_progs v ''drax'' args fs = sample_drax args fs"
  using assms by (simp_all add: sample_programs_def)

lemma sample_create: "sample_btrfs [''subvolume'', ''create'', p] fs =
     (if fs_get fs (resolve p) = None then (cmd_ok [], fs_put (resolve p) subvolume_node fs)
      else (cmd_failed ''target path already exists'', fs))"
  by (simp add: sample_btrfs_def)

lemma sample_delete: "sample_btrfs [''subvolume'', ''delete'', p] fs =
     (if fs_get fs (resolve p) \<noteq> None then (cmd_ok [], fs_rm_tree (resolve p) fs)
      else (cmd_failed ''cannot access subvolume'', fs))"
  by (simp add: sample_btrfs_def)

lemma sample_snapshot: "sample_btrfs [''subvolume'', ''snapshot'', s, p] fs =
     (let t = snapshot_target (resolve s) (resolve p) fs in
      if subvolume_at fs (resolve s) \<and> fs_get fs t = None
      then (cmd_ok [], fs_copy (resolve s) t fs)
      else (cmd_failed ''cannot snapshot'', fs))"
  by (simp add: sample_btrfs_def)

lemma sample_inspect: "inspecting args \<Longrightarrow> sample_btrfs args fs = (cmd_ok [], fs)"
proof -
  have other: "sample_btrfs (a # b # cs) fs = (cmd_ok [], fs)"
    if "a \<noteq> ''subvolume'' \<or> b \<in> {''show'', ''list''}" for a b cs
    using that by (simp only: sample_btrfs_def list.case split: list.split) auto
  assume "inspecting args"
  then obtain a as where args: "args = a # as"
    and a: "a = ''qgroup'' \<or> a = ''filesystem'' \<or> a = ''subvolume'' \<and> as \<noteq> [] \<and> hd as \<in> {''show'', ''list''}"
    by (auto simp: inspecting_def split: list.splits)
  show ?thesis
  proof (cases as)
    case Nil
    then show ?thesis by (simp add: args sample_btrfs_def)
  next
    case (Cons b cs)
    with a have "a \<noteq> ''subvolume'' \<or> b \<in> {''show'', ''list''}" by auto
    then show ?thesis unfolding args Cons by (rule other)
  qed
qed

lemma nd_kind_subvolume [simp]: "nd_kind subvolume_node = Subvolume"
  by (simp add: subvolume_node_def)

lemma cmd_status [simp]: "c_status (cmd_ok s) = None" "c_status (cmd_failed s) = Some (Plain ''exit status 1'')"
  "c_out (cmd_ok s) = s" "c_out (cmd_failed s) = s" "c_both (cmd_ok s) = s"
  by (simp_all add: cmd_ok_def cmd_failed_def)

lemma sample_btrfs_tool:
  assumes prog: "sample_programs v"
  shows "btrfs_tool ''btrfs'' v"
  unfolding btrfs_tool_def
proof (intro conjI allI impI)
  fix p fs r fs' assume "e_progs v ''btrfs'' [''subvolume'', ''create'', p] fs = (r, fs')"
  then show "create_effect (resolve p) r fs fs'"
    unfolding sample_progs [OF prog] sample_create
    by (auto simp: create_effect_def intro!: exI [of _ subvolume_node] split: if_splits)
next
  fix s p fs r fs' assume "e_progs v ''btrfs'' [''subvolume'', ''snapshot'', s, p] fs = (r, fs')"
  then show "snapshot_effect (resolve s) (resolve p) r fs fs'"
    unfolding sample_progs [OF prog] sample_snapshot Let_def
    by (auto simp: snapshot_effect_def fs_simps split: if_splits)
next
  fix p fs r fs' assume "e_progs v ''btrfs'' [''subvolume'', ''delete'', p] fs = (r, fs')"
  then show "delete_effect (resolve p) r fs fs'"
    unfolding sample_progs [OF prog] sample_delete
    by (auto simp: delete_effect_def split: if_splits)
next
  fix args fs assume "inspecting args"
  then show "fs_get (snd (e_progs v ''btrfs'' args fs)) = fs_get fs"
    unfolding sample_progs [OF prog] by (simp add: sample_inspect)
qed

text \<open>With a \<open>btrfs\<close> that says nothing, the helper's commands succeed; listing, which needs output, fails.\<close>

lemma run_inspect:
  "quiet w \<Longrightarrow> e_progs (w_env w) b args (w_fs w) = (cmd_ok [], w_fs w) \<Longrightarrow>
     run_state (run_cmd b args) w = (cmd_ok [], tick w)"
  by (simp add: run_cmd_def quiet_def)

lemma quiet_process [simp]: "quiet (process v (\<lambda>_. None) fs)"
  by (simp add: quiet_def process_def)

lemma process_sel [simp]:
  "w_env (process v faults fs) = v\<lparr>e_faults := faults\<rparr>" "w_fs (process v faults fs) = fs"
  "w_stdout (process v faults fs) = []" "w_clock (process v faults fs) = 0"
  by (simp_all add: process_def)

lemma inspecting_simps [simp]:
  "inspecting (''qgroup'' # as)" "inspecting (''filesystem'' # as)"
  "inspecting [''subvolume'', ''show'', p]" "inspecting [''subvolume'', ''list'', p]"
  by (simp_all add: inspecting_def)

lemma sample_destroy: "sample_programs v \<Longrightarrow> run_state (DestroyCommand ''btrfs'' p) (process v (\<lambda>_. None) fs) =
     (0, tick (process v (\<lambda>_. None) fs))"
  by (simp add: DestroyCommand_def DestroyQuotaGroup_def run_inspect sample_progs sample_inspect)

lemma sample_limit: "sample_programs v \<Longrightarrow> run_state (LimitCommand ''btrfs'' p n ex) (process v (\<lambda>_. None) fs) =
     (0, tick (process v (\<lambda>_. None) fs))"
  by (simp add: LimitCommand_def ApplyDiskLimit_def argsForLimit_def run_inspect sample_progs sample_inspect)

lemma sample_stats: "sample_programs v \<Longrightarrow> run_state (StatsCommand ''btrfs'' p True) (process v (\<lambda>_. None) fs) =
     (0, (tick (tick (tick (process v (\<lambda>_. None) fs))))\<lparr>w_stdout := [[]]\<rparr>)"
  by (simp add: StatsCommand_def VolumeStats_def isSubvolume_def syncVolume_def run_inspect sample_progs
      sample_inspect write_stdout_def)

lemma trim_space_Nil [simp]: "trim_space [] = []"
  by (simp add: trim_space_def)

lemma sample_list: "run_state (ListCommand ''btrfs'' [p]) (process v (\<lambda>_. Some EIO) fs) =
     (Some 1, (tick (process v (\<lambda>_. Some EIO) fs))\<lparr>w_stdout := [''list subvolumes: : '' @ [CHR 0x0A]]\<rparr>)"
  by (simp add: ListCommand_def List_def run_cmd_def exit_error_def write_stdout_def)

lemma sample_drax_tool:
  assumes prog: "sample_programs v"
  shows "drax_tool ''btrfs'' ''drax'' v"
  unfolding drax_tool_def acts_as_def sample_progs [OF prog] sample_drax_def
proof (intro conjI allI impI)
  fix p and fs :: fsys and r fs'
  assume "(if length [''--btrfs-bin'', ''btrfs'', ''destroy'', ''--volume-path'', p] = 4 \<and>
      [''--btrfs-bin'', ''btrfs'', ''destroy'', ''--volume-path'', p] ! 2 = ''list''
      then (cmd_failed (''list subvolumes: : '' @ [CHR 0x0A]), fs) else (cmd_ok [], fs)) = (r, fs')"
  then have "r = cmd_ok []" "fs' = fs" by simp_all
  then show "\<exists>faults code w'. run_state (DestroyCommand ''btrfs'' p) (process v faults fs) = (code, w') \<and>
           fs' = w_fs w' \<and> c_out r = concat (w_stdout w') \<and> (c_status r = None \<longleftrightarrow> code = 0)"
    by - (intro exI conjI, rule sample_destroy [OF prog], simp_all)
next
  fix p n ex and fs :: fsys and r fs'
  let ?a = "[''--btrfs-bin'', ''btrfs'', ''limit'', ''--volume-path'', p, ''--disk-limit-bytes'', show_int n] @
          (if ex then [''--exclude-image-from-quota''] else [])"
  assume "(if length ?a = 4 \<and> ?a ! 2 = ''list''
      then (cmd_failed (''list subvolumes: : '' @ [CHR 0x0A]), fs) else (cmd_ok [], fs)) = (r, fs')"
  then have "r = cmd_ok []" "fs' = fs" by simp_all
  then show "\<exists>faults code w'. run_state (LimitCommand ''btrfs'' p n ex) (process v faults fs) = (code, w') \<and>
           fs' = w_fs w' \<and> c_out r = concat (w_stdout w') \<and> (c_status r = None \<longleftrightarrow> code = 0)"
    by - (intro exI conjI, rule sample_limit [OF prog], simp_all)
next
  fix p and fs :: fsys and r fs'
  let ?a = "[''--btrfs-bin'', ''btrfs'', ''stats'', ''--volume-path'', p, ''--force-sync'']"
  assume "(if length ?a = 4 \<and> ?a ! 2 = ''list''
      then (cmd_failed (''list subvolumes: : '' @ [CHR 0x0A]), fs) else (cmd_ok [], fs)) = (r, fs')"
  then have "r = cmd_ok []" "fs' = fs" by simp_all
  then show "\<exists>faults code w'. run_state (StatsCommand ''btrfs'' p True) (process v faults fs) = (code, w') \<and>
           fs' = w_fs w' \<and> c_out r = concat (w_stdout w') \<and> (c_status r = None \<longleftrightarrow> code = 0)"
    by - (intro exI conjI, rule sample_stats [OF prog], simp_all)
next
  fix p and fs :: fsys and r fs'
  let ?a = "[''--btrfs-bin'', ''btrfs'', ''list'', p]"
  assume "(if length ?a = 4 \<and> ?a ! 2 = ''list''
      then (cmd_failed (''list subvolumes: : '' @ [CHR 0x0A]), fs) else (cmd_ok [], fs)) = (r, fs')"
  then have "r = cmd_failed (''list subvolumes: : '' @ [CHR 0x0A])" "fs' = fs" by simp_all
  then show "\<exists>faults code w'. run_state (ListCommand ''btrfs'' [p]) (process v faults fs) = (Some code, w') \<and>
           fs' = w_fs w' \<and> c_out r = concat (w_stdout w') \<and> (c_status r = None \<longleftrightarrow> code = 0)"
    by - (intro exI conjI, rule sample_list, simp_all)
qed

lemma sample_tools_any: "sample_programs v \<Longrightarrow> tools sample_driver v"
  by (simp add: tools_def sample_btrfs_tool sample_drax_tool)

lemma sample_tools: "tools sample_driver sample_env"
  by (rule sample_tools_any [OF sample_programs_env])

section \<open>A store\<close>

definition sample_fs :: fsys where
  "sample_fs =
     [([], dir_node), ([''s''], dir_node), ([''s'', ''images''], dir_node), ([''s'', ''volumes''], dir_node),
      ([''s'', ''meta''], dir_node), ([''s'', ''locks''], dir_node), ([''s'', ''tmp''], dir_node),
      ([''s'', ''meta'', ''dependencies''], dir_node),
      ([''s'', ''images'', ''i''], dir_node), ([''s'', ''images'', ''i'', ''rootfs''], subvolume_node),
      ([''s'', ''volumes'', ''v1''], subvolume_node), ([''s'', ''volumes'', ''v1'', ''a''], file_node ''x''),
      ([''s'', ''volumes'', ''v2''], subvolume_node), ([''s'', ''volumes'', ''v2'', ''b''], file_node ''y''),
      ([''s'', ''meta'', ''volume-v1''], file_node (json_encode (meta_json \<lparr>vm_Size = 10\<rparr>))),
      ([''s'', ''meta'', ''dependencies'', ''image:i.json''], file_node (json_print (json_strings [''v1''])))]"

definition sample_world :: world where
  "sample_world =
     \<lparr>w_env = sample_env, w_fs = sample_fs, w_clock = 0, w_locks = [], w_events = [], w_stdout = []\<rparr>"

lemma sample_world_sel [simp]:
  "w_env sample_world = sample_env" "w_fs sample_world = sample_fs" "w_locks sample_world = []"
  "w_clock sample_world = 0"
  by (simp_all add: sample_world_def)

lemma quiet_sample [simp]: "quiet sample_world"
  by (simp add: quiet_def sample_env_def)

lemma fresh_sample [simp]: "fresh_handles sample_world"
  by (simp add: fresh_handles_def)

lemma resolve_s [simp]: "resolve ''/s'' = [''s'']"
  by (simp add: resolve_def norm_step.simps)

lemma clean_abs_s [simp]: "clean_abs ''/s''"
  by (simp add: clean_abs_def Clean_def rooted_def Let_def norm_step.simps)

end
