(* ===== verification/Cleaner.thy ===== *)
theory Cleaner
  imports StoreMeasurer Sample
begin

text \<open>
  \<open>groot/cleaner.go\<close>: the clean-up of volumes that no image uses. The lists are computed and the
  volumes marked under the global lock; destroying the marked ones needs no lock. The main
  property is that a volume in use survives, whatever fails on the way.
\<close>

section \<open>The code\<close>

definition MetricImageCleanTime :: string where
  "MetricImageCleanTime = ''ImageCleanTime''"

record Cleaner =
  cl_storeMeasurer :: StoreMeasurer
  cl_garbageCollector :: GarbageCollector
  cl_locksmith :: locksmith_ops

definition IamCleaner :: "locksmith_ops \<Rightarrow> StoreMeasurer \<Rightarrow> GarbageCollector \<Rightarrow> Cleaner" where
  "IamCleaner locksmith sm gc =
     \<lparr>cl_storeMeasurer = sm, cl_garbageCollector = gc, cl_locksmith = locksmith\<rparr>"

text \<open>An error of \<open>UnusedVolumes\<close> leaves the list empty; the errors of the steps are logged.\<close>

definition mark_and_collect :: "Cleaner \<Rightarrow> string list \<Rightarrow> (bool \<times> error option) io" where
  "mark_and_collect c chainIDsToPreserve = do {
     l \<leftarrow> lk_Lock (cl_locksmith c) GlobalLockKey;
     (case l of
        Inl err \<Rightarrow> State_Monad.return (False, Some (Wrap ''garbage collector acquiring lock'' err))
      | Inr lockFile \<Rightarrow> do {
          unused \<leftarrow> UnusedVolumes (cl_garbageCollector c) chainIDsToPreserve;
          _ \<leftarrow> MarkUnused (cl_garbageCollector c) (case unused of Inl _ \<Rightarrow> [] | Inr vs \<Rightarrow> vs);
          _ \<leftarrow> lk_Unlock (cl_locksmith c) lockFile;
          r \<leftarrow> Collect (cl_garbageCollector c);
          State_Monad.return (False, case r of Inl err \<Rightarrow> Some err | Inr _ \<Rightarrow> None)
        })
   }"

definition clean_body :: "Cleaner \<Rightarrow> int \<Rightarrow> string list \<Rightarrow> (bool \<times> error option) io" where
  "clean_body c threshold chainIDsToPreserve =
     (if threshold > 0 then do {
        u \<leftarrow> Usage (cl_storeMeasurer c);
        (case u of
           Inl err \<Rightarrow> State_Monad.return (True, Some (Wrap ''measuring store usage'' err))
         | Inr storeUsage \<Rightarrow>
             if storeUsage < threshold then State_Monad.return (True, None)
             else mark_and_collect c chainIDsToPreserve)
      }
      else if threshold < 0 then State_Monad.return (True, Some (Plain ''Threshold must be greater than 0''))
      else mark_and_collect c chainIDsToPreserve)"

definition Clean :: "Cleaner \<Rightarrow> int \<Rightarrow> string list \<Rightarrow> (bool \<times> error option) io" where
  "Clean c threshold chainIDsToPreserve =
     timed MetricImageCleanTime (clean_body c threshold chainIDsToPreserve)"

section \<open>What a clean-up touches\<close>

text \<open>A cleaner of a store over any driver, and the one over the btrfs driver.\<close>

definition store_registry :: "string \<Rightarrow> DependencyManager" where
  "store_registry store = NewDependencyManager (Join [store, MetaDirName, ''dependencies''])"

definition cleaner_of :: "driver_ops \<Rightarrow> StoreMeasurer \<Rightarrow> ImageCloner \<Rightarrow> string \<Rightarrow> Cleaner" where
  "cleaner_of ops sm ic store =
     IamCleaner (file_locksmith (NewExclusiveFileSystem store)) sm
       (NewGC ops (ImageIDs ic) (Dependencies (store_registry store)))"

definition store_cleaner :: "Driver \<Rightarrow> Cleaner" where
  "store_cleaner d =
     cleaner_of (btrfs_ops d) (NewStoreMeasurer (storePath d) (btrfs_ops d)) (NewImageCloner (btrfs_ops d) (storePath d)) (storePath d)"

definition store_images :: "string \<Rightarrow> fsys \<Rightarrow> string list" where
  "store_images store = fs_children (images_dir store)"

definition store_deps :: "string \<Rightarrow> fsys \<Rightarrow> string \<Rightarrow> string list option" where
  "store_deps store fs i = registered (store_registry store) fs (image_ref i)"

text \<open>A volume is needed when a registered image uses it or the caller wants it kept.\<close>

definition needed :: "string \<Rightarrow> fsys \<Rightarrow> string list \<Rightarrow> string \<Rightarrow> bool" where
  "needed store fs preserve v \<longleftrightarrow>
     v \<in> set preserve \<or>
     (\<exists>i\<in>set (store_images store fs). case store_deps store fs i of Some cs \<Rightarrow> v \<in> set cs | None \<Rightarrow> False)"

lemma needed_iff:
  "needed store fs preserve v \<longleftrightarrow>
     v \<in> set preserve \<or> (\<exists>i\<in>set (store_images store fs). \<exists>cs. store_deps store fs i = Some cs \<and> v \<in> set cs)"
  by (auto simp: needed_def split: option.splits)

definition fair_order :: "env \<Rightarrow> bool" where
  "fair_order v \<longleftrightarrow> (\<forall>xs. set (e_order v xs) = set xs)"

text \<open>No volume has a name that occurs in the path of the volumes directory.\<close>

definition names_apart :: "string \<Rightarrow> fsys \<Rightarrow> bool" where
  "names_apart store fs \<longleftrightarrow>
     (\<forall>v\<in>set (fs_children (volumes_dir store) fs). \<not> contains (store @ ''/volumes/'') v)"

lemma lock_area: "lock_files (NewExclusiveFileSystem store) = below (resolve store @ [LocksDirName])"
  by (simp add: lock_files_def NewExclusiveFileSystem_def)

lemma cleaner_of_sel:
  "cl_garbageCollector (cleaner_of ops sm ic store) = NewGC ops (ImageIDs ic) (Dependencies (store_registry store))"
  "lk_Lock (cl_locksmith (cleaner_of ops sm ic store)) = Lock (NewExclusiveFileSystem store)"
  "lk_Unlock (cl_locksmith (cleaner_of ops sm ic store)) = Unlock (NewExclusiveFileSystem store)"
  "cl_storeMeasurer (cleaner_of ops sm ic store) = sm"
  by (simp_all add: cleaner_of_def IamCleaner_def file_locksmith_def)

definition clean_area :: "string \<Rightarrow> fsys \<Rightarrow> string list \<Rightarrow> path set" where
  "clean_area store fs preserve =
     below (resolve store @ [LocksDirName]) \<union> collect_area store \<union>
     (\<Union>v\<in>{v. plain_name v \<and> live v \<and> \<not> needed store fs preserve v}. below (volume_entry store v))"

text \<open>The lock file is outside of all that the collector reads.\<close>

lemma lock_keeps:
  assumes "within E (below (resolve store @ [LocksDirName])) w w'" and "E (w_env w)"
  shows "fs_children (volumes_dir store) (w_fs w') = fs_children (volumes_dir store) (w_fs w)"
    and "store_images store (w_fs w') = store_images store (w_fs w)"
    and "store_deps store (w_fs w') = store_deps store (w_fs w)"
proof -
  have get: "fs_get (w_fs w') p = fs_get (w_fs w) p"
    if "\<not> prefix (resolve store @ [LocksDirName]) p" for p
    using withinD [OF assms] that by simp
  have "fs_children (resolve store @ [n]) (w_fs w') = fs_children (resolve store @ [n]) (w_fs w)"
    if "n \<noteq> LocksDirName" for n
  proof (rule sorted_distinct_set_unique)
    show "set (fs_children (resolve store @ [n]) (w_fs w')) = set (fs_children (resolve store @ [n]) (w_fs w))"
      using get that by (simp add: set_fs_children)
  qed (simp_all add: sorted_fs_children distinct_fs_children)
  then show "fs_children (volumes_dir store) (w_fs w') = fs_children (volumes_dir store) (w_fs w)"
    "store_images store (w_fs w') = store_images store (w_fs w)"
    by (simp_all add: volumes_dir_def store_images_def images_dir_def)
  show "store_deps store (w_fs w') = store_deps store (w_fs w)"
    by (rule ext) (simp add: store_deps_def registered_def store_registry_def NewDependencyManager_def get)
qed

lemma volume_entry_prefix [simp]:
  "prefix (volume_entry store u) (volume_entry store v @ x) \<longleftrightarrow> u = v"
  by (auto simp: volume_entry_def)

lemma needed_outside:
  assumes "live v" and "needed store fs preserve v" and "prefix (volume_entry store v) p"
  shows "p \<notin> clean_area store fs preserve"
proof -
  obtain x where p: "p = volume_entry store v @ x" using assms(3) by (auto simp: prefix_def)
  have "\<not> prefix (resolve store @ [LocksDirName]) p" "p \<noteq> meta_dir store @ [meta_entry u]" for u
    by (auto simp: p volume_entry_def volumes_dir_def meta_dir_def prefix_def)
  moreover have "\<not> has_prefix v gc_prefix" using assms(1) by (simp add: live_def)
  ultimately show ?thesis using assms(2) by (auto simp: clean_area_def collect_area_def p)
qed

lemma images_outside: "prefix (images_dir store) p \<Longrightarrow> p \<notin> clean_area store fs preserve"
  by (auto simp: clean_area_def collect_area_def images_dir_def volume_entry_def volumes_dir_def meta_dir_def prefix_def)

lemma deps_outside:
  "prefix (meta_dir store @ [''dependencies'']) p \<Longrightarrow> p \<notin> clean_area store fs preserve"
  by (auto simp: clean_area_def collect_area_def images_dir_def volume_entry_def volumes_dir_def meta_dir_def
      meta_entry_def prefix_def)

text \<open>The store's images and their dependencies are a registry for any driver that keeps volumes.\<close>

locale cleaning = gc_parts ops store E "ImageIDs ic" "Dependencies (store_registry store)"
    "fs_children (images_dir store)" "registered (store_registry store)"
  for ops :: driver_ops and store :: string and E :: "env \<Rightarrow> bool" and ic :: ImageCloner
begin

lemma unused_not_needed:
  assumes "run_state (UnusedVolumes (cl_garbageCollector (cleaner_of ops sm ic store)) preserve) w = (Inr vs, w')"
    and "fair_order (w_env w)" and "v \<in> set vs"
  shows "plain_name v \<and> live v \<and> \<not> needed store (w_fs w) preserve v \<and>
    v \<in> set (fs_children (volumes_dir store) (w_fs w))"
proof -
  have "\<And>xs. set (e_order (w_env w) xs) = set xs" using assms(2) by (simp add: fair_order_def)
  from UnusedVolumes_result [OF assms(1) [unfolded cleaner_of_sel] this] assms(3)
  show ?thesis
    by (auto simp: needed_iff store_images_def store_deps_def set_fs_children)
qed

lemma mark_and_collect_within:
  assumes store: "clean_abs store" and E: "E (w_env w)" and order: "fair_order (w_env w)"
    and apart: "names_apart store (w_fs w)"
    and run: "run_state (mark_and_collect (cleaner_of ops sm ic store) preserve) w = (r, w')"
  shows "within E (clean_area store (w_fs w) preserve) w w'"
proof -
  let ?s = store and ?X = "clean_area store (w_fs w) preserve"
  let ?gc = "cl_garbageCollector (cleaner_of ops sm ic store)"
  obtain x w1 where l: "run_state (Lock (NewExclusiveFileSystem ?s) GlobalLockKey) w = (x, w1)" by fastforce
  have sub: "below (resolve ?s @ [LocksDirName]) \<subseteq> ?X" "collect_area ?s \<subseteq> ?X" by (auto simp: clean_area_def)
  have s1: "within E (below (resolve ?s @ [LocksDirName])) w w1"
    by (rule evolvesD [OF locksmith.lock_frame l]) (simp add: lock_area)
  note keeps = lock_keeps [OF s1 E]
  have W1: "within E ?X w w1" using s1 sub(1) by (rule within_mono)
  have e1: "w_env w1 = w_env w" by (rule within_envD [OF s1 E])
  show ?thesis
  proof (cases x)
    case (Inl e)
    with run l W1 show ?thesis by (simp add: mark_and_collect_def cleaner_of_sel)
  next
    case (Inr fd)
    obtain u w2 where u: "run_state (UnusedVolumes ?gc preserve) w1 = (u, w2)" by fastforce
    then have p2: "w_fs w2 = w_fs w1" "w_env w2 = w_env w1"
      using UnusedVolumes_pure [OF u [unfolded cleaner_of_sel]]
        evolvesD [OF UnusedVolumes_same(1) u [unfolded cleaner_of_sel]]
      by (auto simp: same_env_def)
    define vs where "vs = (case u of Inl _ \<Rightarrow> [] | Inr vs \<Rightarrow> vs)"
    have vs: "\<forall>v\<in>set vs. plain_name v \<and> live v \<and> \<not> needed ?s (w_fs w) preserve v \<and>
        v \<in> set (fs_children (volumes_dir ?s) (w_fs w))"
    proof
      fix v assume "v \<in> set vs"
      then obtain us where us: "u = Inr us" "v \<in> set us" by (auto simp: vs_def split: sum.splits)
      have "fair_order (w_env w1)" using order e1 by simp
      from unused_not_needed [OF u [unfolded us(1)] this us(2)]
      show "plain_name v \<and> live v \<and> \<not> needed ?s (w_fs w) preserve v \<and> v \<in> set (fs_children (volumes_dir ?s) (w_fs w))"
        unfolding needed_iff keeps .
    qed
    have area: "mark_area ?s vs \<subseteq> ?X"
      unfolding mark_area_def
    proof (intro UN_least Un_least)
      fix v assume v: "v \<in> set vs"
      from vs v show "below (volume_entry ?s v) \<subseteq> ?X" unfolding clean_area_def by blast
      have "has_prefix (gc_prefix @ v) gc_prefix" by (simp add: has_prefix_def)
      then have "below (volume_entry ?s (gc_prefix @ v)) \<subseteq> collect_area ?s"
        unfolding collect_area_def by blast
      with sub(2) show "below (volume_entry ?s (gc_prefix @ v)) \<subseteq> ?X" by blast
    qed
    obtain m w3 where m: "run_state (MarkUnused ?gc vs) w2 = (m, w3)" by fastforce
    have pl: "\<forall>v\<in>set vs. plain_name v \<and> \<not> contains (?s @ ''/volumes/'') v"
      using vs apart by (simp add: names_apart_def)
    have W3: "within E ?X w2 w3"
      by (rule evolvesD [OF MarkUnused_frame [OF store pl area] m [unfolded cleaner_of_sel]])
    have W2: "within E ?X w1 w2" using p2 by (simp add: within_def)
    obtain y w4 where un: "run_state (Unlock (NewExclusiveFileSystem ?s) fd) w3 = (y, w4)" by fastforce
    have W4: "within E ?X w3 w4" by (rule evolvesD [OF locksmith.unlock_frame un])
    obtain z w5 where c: "run_state (Collect ?gc) w4 = (z, w5)" by fastforce
    have W5: "within E ?X w4 w5"
      by (rule within_mono [OF evolvesD [OF Collect_frame c [unfolded cleaner_of_sel]] sub(2)])
    have "w' = w5"
      using run unfolding mark_and_collect_def cleaner_of_sel(2,3)
      by (simp add: l Inr u m [unfolded vs_def] un c)
    with within_trans [OF within_trans [OF within_trans [OF within_trans [OF W1 W2] W3] W4] W5]
    show ?thesis by simp
  qed
qed

lemma Clean_within:
  assumes "clean_abs store" and "E (w_env w)" and "fair_order (w_env w)"
    and "names_apart store (w_fs w)"
    and "run_state (Clean (cleaner_of ops sm ic store) threshold preserve) w = (r, w')"
  shows "within E (clean_area store (w_fs w) preserve) w w'"
proof -
  obtain w1 where run: "run_state (clean_body (cleaner_of ops sm ic store) threshold preserve) w = (r, w1)"
    and fs: "w_fs w' = w_fs w1" and env: "w_env w' = w_env w1"
    using timed_run [OF assms(5) [unfolded Clean_def]] by blast
  have "within E (clean_area store (w_fs w) preserve) w w1"
  proof (cases "threshold > 0")
    case True
    obtain u w2 where u: "run_state (Usage (cl_storeMeasurer (cleaner_of ops sm ic store))) w = (u, w2)" by fastforce
    have fs2: "w_fs w2 = w_fs w" and env2: "w_env w2 = w_env w"
      using Usage_pure [OF u] evolvesD [OF Usage_evolves(2) u] by (auto simp: same_env_def)
    show ?thesis
    proof (cases "\<exists>n. u = Inr n \<and> \<not> n < threshold")
      case True
      with run \<open>threshold > 0\<close> u have "run_state (mark_and_collect (cleaner_of ops sm ic store) preserve) w2 = (r, w1)"
        by (auto simp: clean_body_def)
      from mark_and_collect_within [OF assms(1) _ _ _ this] assms(2-4)
      have "within E (clean_area store (w_fs w) preserve) w2 w1"
        by (simp add: fs2 env2)
      then show ?thesis by (simp add: within_def fs2 env2)
    next
      case False
      with run \<open>threshold > 0\<close> u have "w1 = w2" by (auto simp: clean_body_def split: sum.splits if_splits)
      then show ?thesis by (simp add: within_def fs2 env2)
    qed
  next
    case False
    show ?thesis
    proof (cases "threshold < 0")
      case True
      with run False have "w1 = w" by (simp add: clean_body_def)
      then show ?thesis by simp
    next
      case neg: False
      with run False have "run_state (mark_and_collect (cleaner_of ops sm ic store) preserve) w = (r, w1)"
        by (simp add: clean_body_def)
      then show ?thesis by (rule mark_and_collect_within [OF assms(1-4)])
    qed
  qed
  with fs env show ?thesis by (simp add: within_def)
qed

lemma Clean_keeps:
  assumes "clean_abs store" and "E (w_env w)" and "fair_order (w_env w)" and "names_apart store (w_fs w)"
    and "p \<notin> clean_area store (w_fs w) preserve"
    and "run_state (Clean (cleaner_of ops sm ic store) threshold preserve) w = (r, w')"
  shows "fs_get (w_fs w') p = fs_get (w_fs w) p"
  by (rule withinD [OF Clean_within [OF assms(1-4,6)] assms(2,5)])

lemma Clean_same_env: "evolves same_env (Clean (cleaner_of ops sm ic store) threshold preserve)"
  unfolding Clean_def clean_body_def mark_and_collect_def cleaner_of_sel
  by (intro evolves_rules Usage_evolves locksmith.lock_env locksmith.unlock_env UnusedVolumes_same MarkUnused_same Collect_same)

lemma Clean_balanced: "evolves balanced (Clean (cleaner_of ops sm ic store) threshold preserve)"
proof -
  note b = same_locks_balanced
  have "evolves balanced (mark_and_collect (cleaner_of ops sm ic store) preserve)"
  proof -
    have *: "mark_and_collect (cleaner_of ops sm ic store) preserve = do {
        l \<leftarrow> Lock (NewExclusiveFileSystem store) GlobalLockKey;
        (case l of
           Inl err \<Rightarrow> State_Monad.return (False, Some (Wrap ''garbage collector acquiring lock'' err))
         | Inr fd \<Rightarrow> do {
             r \<leftarrow> do { unused \<leftarrow> UnusedVolumes (cl_garbageCollector (cleaner_of ops sm ic store)) preserve;
                     MarkUnused (cl_garbageCollector (cleaner_of ops sm ic store)) (case unused of Inl _ \<Rightarrow> [] | Inr vs \<Rightarrow> vs) };
             _ \<leftarrow> Unlock (NewExclusiveFileSystem store) fd;
             r \<leftarrow> Collect (cl_garbageCollector (cleaner_of ops sm ic store));
             State_Monad.return (False, case r of Inl err \<Rightarrow> Some err | Inr _ \<Rightarrow> None)
           })}"
      by (simp add: mark_and_collect_def cleaner_of_sel(2,3) cong: sum.case_cong)
    show ?thesis unfolding * cleaner_of_sel(1)
      by (intro locksmith.bracket_balanced evolves_rules b [OF UnusedVolumes_same(2)]
          b [OF MarkUnused_same(2)] b [OF Collect_same(2)])
  qed
  then have "evolves balanced (clean_body (cleaner_of ops sm ic store) threshold preserve)"
    unfolding clean_body_def by (intro evolves_rules b [OF Usage_evolves(3)])
  then show ?thesis
    unfolding Clean_def timed_def
    by (intro evolves_rules b [OF TryEmitDurationFrom_evolves(3)])
qed

end

interpretation btrfs_cleaning: cleaning "btrfs_ops d" "storePath d" "tools d" "NewImageCloner (btrfs_ops d) (storePath d)" for d
  using gc.gc_parts_axioms [of d "NewImageCloner (btrfs_ops d) (storePath d)" "store_registry (storePath d)"]
  by (simp add: cleaning_def NewImageCloner_def)

section \<open>Properties\<close>

text \<open>C2. Cleaning never touches a volume in use: whatever system calls and programs fail, every
  file of a volume that a registered image or the caller needs is as it was.\<close>

theorem Clean_keeps_needed:
  assumes "clean_abs (storePath d)" and "tools d (w_env w)" and "fair_order (w_env w)"
    and "names_apart (storePath d) (w_fs w)"
    and "live v" and "needed (storePath d) (w_fs w) preserve v"
    and "prefix (volume_entry (storePath d) v) p"
  shows "fs_get (w_fs (snd (run_state (Clean (store_cleaner d) threshold preserve) w))) p = fs_get (w_fs w) p"
proof -
  obtain r w' where run: "run_state (Clean (store_cleaner d) threshold preserve) w = (r, w')" by fastforce
  from btrfs_cleaning.Clean_keeps [OF assms(1-4) needed_outside [OF assms(5-7)] run [unfolded store_cleaner_def]]
  show ?thesis by (simp add: run)
qed

text \<open>C16. Cleaning leaves the images and the dependency files alone.\<close>

theorem Clean_keeps_images:
  assumes "clean_abs (storePath d)" and "tools d (w_env w)" and "fair_order (w_env w)"
    and "names_apart (storePath d) (w_fs w)"
    and "prefix (images_dir (storePath d)) p \<or> prefix (meta_dir (storePath d) @ [''dependencies'']) p"
  shows "fs_get (w_fs (snd (run_state (Clean (store_cleaner d) threshold preserve) w))) p = fs_get (w_fs w) p"
proof -
  obtain r w' where run: "run_state (Clean (store_cleaner d) threshold preserve) w = (r, w')" by fastforce
  have "p \<notin> clean_area (storePath d) (w_fs w) preserve"
    using assms(5) by (auto dest: images_outside deps_outside)
  from btrfs_cleaning.Clean_keeps [OF assms(1-4) this run [unfolded store_cleaner_def]] show ?thesis by (simp add: run)
qed

text \<open>C17. The locks held after a clean-up are those held before, on every path.\<close>

theorem Clean_balances_locks:
  assumes "fresh_handles w"
  shows "w_locks (snd (run_state (Clean (store_cleaner d) threshold preserve) w)) = w_locks w"
proof -
  note b = btrfs_cleaning.Clean_balanced [of d "NewStoreMeasurer (storePath d) (btrfs_ops d)" threshold preserve, folded store_cleaner_def]
  from evolvesD [OF b, of w] assms show ?thesis
    by (metis balanced_def prod.collapse)
qed

text \<open>On the sample store, the hypotheses hold and the volume of the image is kept.\<close>

lemma sample_fair: "fair_order sample_env"
  by (simp add: fair_order_def sample_env_def)

lemma sample_apart: "names_apart ''/s'' sample_fs"
  by code_simp

lemma sample_needed: "needed ''/s'' sample_fs [] ''v1''"
  by code_simp

theorem Clean_keeps_needed_witness:
  "fs_get (w_fs (snd (run_state (Clean (store_cleaner sample_driver) 0 []) sample_world)))
     [''s'', ''volumes'', ''v1'', ''a''] = Some (file_node ''x'')"
proof -
  have p: "prefix (volume_entry (storePath sample_driver) ''v1'') [''s'', ''volumes'', ''v1'', ''a'']"
    by (simp add: volume_entry_def volumes_dir_def VolumesDirName_def)
  have l: "live ''v1''" by (simp add: live_def has_prefix_def gc_prefix_def)
  from Clean_keeps_needed [of sample_driver sample_world "''v1''" "[]" _ 0, OF _ _ _ _ l _ p]
  show ?thesis
    by (simp add: sample_tools sample_fair sample_apart sample_needed) (simp add: sample_fs_def fs_get_def)
qed

theorem Clean_keeps_images_witness:
  "fs_get (w_fs (snd (run_state (Clean (store_cleaner sample_driver) 0 []) sample_world)))
     [''s'', ''images'', ''i''] = Some dir_node"
proof -
  have p: "prefix (images_dir (storePath sample_driver)) [''s'', ''images'', ''i'']"
    by (simp add: images_dir_def ImageDirName_def)
  from Clean_keeps_images [of sample_driver sample_world _ 0 "[]", OF _ _ _ _ disjI1 [OF p]]
  show ?thesis
    by (simp add: sample_tools sample_fair sample_apart) (simp add: sample_fs_def fs_get_def)
qed

theorem Clean_balances_locks_witness:
  "w_locks (snd (run_state (Clean (store_cleaner sample_driver) 0 []) sample_world)) = []"
  using Clean_balances_locks [of sample_world sample_driver 0 "[]"] by simp

end
