(* ===== verification/Puller.thy ===== *)
theory Puller
  imports Cleaner
begin

text \<open>
  \<open>base_image_puller/base_image_puller.go\<close>: bringing the layers of a base image into the store.
  A layer becomes a volume in three steps: a temporary volume (a snapshot of the parent's
  volume), unpacking into it, and a rename to the chain ID, all under a lock named after the
  layer. Parents are built first.

  The blob of a layer is downloaded by a goroutine while its parents are built. Here the
  download runs to its end before the parents: it touches other files than they do, and its
  result is looked at only after them, in both orders.
\<close>

section \<open>Interfaces\<close>

text \<open>
  An open stream: the bytes it delivers, and the temporary file that closing it removes (for a
  downloaded blob).
\<close>

record blob =
  bl_data :: string
  bl_temp :: "string option"

record UnpackSpec =
  us_Stream :: blob
  us_TargetPath :: string
  us_UIDMappings :: "IDMappingSpec list"
  us_GIDMappings :: "IDMappingSpec list"
  us_BaseDirectory :: string

record UnpackOutput =
  uo_BytesWritten :: int
  uo_OpaqueWhiteouts :: "string list"

record fetcher_ops =
  ft_BaseImageInfo :: "URL \<Rightarrow> (error + BaseImageInfo) io"
  ft_StreamBlob :: "URL \<Rightarrow> LayerInfo \<Rightarrow> (error + blob \<times> int) io"

type_synonym unpacker = "UnpackSpec \<Rightarrow> (error + UnpackOutput) io"

definition close_blob :: "blob \<Rightarrow> (error + unit) io" where
  "close_blob b = (case bl_temp b of None \<Rightarrow> ok () | Some f \<Rightarrow> os_Remove f)"

section \<open>The code\<close>

definition MetricsUnpackTimeName :: string where "MetricsUnpackTimeName = ''UnpackTime''"
definition MetricsDownloadTimeName :: string where "MetricsDownloadTimeName = ''DownloadTime''"

record BaseImagePuller =
  bp_fetcher :: fetcher_ops
  bp_unpacker :: unpacker
  bp_volumeDriver :: driver_ops
  bp_locksmith :: locksmith_ops

definition NewBaseImagePuller :: "fetcher_ops \<Rightarrow> unpacker \<Rightarrow> driver_ops \<Rightarrow> locksmith_ops \<Rightarrow> BaseImagePuller" where
  "NewBaseImagePuller fetcher unpacker volumeDriver locksmith =
     \<lparr>bp_fetcher = fetcher, bp_unpacker = unpacker, bp_volumeDriver = volumeDriver, bp_locksmith = locksmith\<rparr>"

definition FetchBaseImageInfo :: "BaseImagePuller \<Rightarrow> BaseImageSpec \<Rightarrow> (error + BaseImageInfo) io" where
  "FetchBaseImageInfo p spec = ft_BaseImageInfo (bp_fetcher p) (bs_BaseImageSrc spec)"

text \<open>The sum is an \<open>int64\<close>; it wraps.\<close>

definition layersSize :: "LayerInfo list \<Rightarrow> int" where
  "layersSize layerInfos = fold (\<lambda>layerInfo totalSize. wrap64 (totalSize + li_Size layerInfo)) layerInfos 0"

definition quotaExceeded :: "LayerInfo list \<Rightarrow> BaseImageSpec \<Rightarrow> error + unit" where
  "quotaExceeded layerInfos spec =
     (if bs_ExcludeBaseImageFromQuota spec \<or> bs_DiskLimit spec = 0 then Inr ()
      else let totalSize = layersSize layerInfos in
        if totalSize > bs_DiskLimit spec
        then Inl (Plain (''layers exceed disk quota '' @ show_int totalSize @ ''/'' @ show_int (bs_DiskLimit spec) @ '' bytes''))
        else Inr ())"

definition volumeExists :: "BaseImagePuller \<Rightarrow> string \<Rightarrow> bool io" where
  "volumeExists p chainID = do {
     r \<leftarrow> dr_VolumePath (bp_volumeDriver p) chainID;
     State_Monad.return (case r of Inr _ \<Rightarrow> True | Inl _ \<Rightarrow> False)
   }"

definition downloadLayer :: "BaseImagePuller \<Rightarrow> BaseImageSpec \<Rightarrow> LayerInfo \<Rightarrow> (error + blob) io" where
  "downloadLayer p spec layerInfo = timed MetricsDownloadTimeName (
     or_return (ft_StreamBlob (bp_fetcher p) (bs_BaseImageSrc spec) layerInfo)
       (Wrap (''streaming blob `'' @ li_BlobID layerInfo @ ''`'')) (\<lambda>(stream, _). ok stream))"

definition incomplete_name :: "string \<Rightarrow> int \<Rightarrow> int \<Rightarrow> string" where
  "incomplete_name chainID now r = chainID @ ''-incomplete-'' @ show_int now @ ''-'' @ show_int r"

definition createTemporaryVolumeDirectory ::
  "BaseImagePuller \<Rightarrow> LayerInfo \<Rightarrow> BaseImageSpec \<Rightarrow> (error + string \<times> string) io" where
  "createTemporaryVolumeDirectory p layerInfo spec = do {
     now \<leftarrow> time_Now;
     r \<leftarrow> rand_Int;
     let tempVolumeName = incomplete_name (li_ChainID layerInfo) now r;
     or_return (dr_CreateVolume (bp_volumeDriver p) (li_ParentChainID layerInfo) tempVolumeName)
       (Wrap (''creating volume for layer `'' @ li_BlobID layerInfo @ ''`'')) (\<lambda>volumePath.
     if bs_OwnerUID spec \<noteq> 0 \<or> bs_OwnerGID spec \<noteq> 0 then
       or_return (os_Chown volumePath (bs_OwnerUID spec) (bs_OwnerGID spec))
         (Wrap (''changing volume ownership to '' @ show_int (bs_OwnerUID spec) @ '':'' @ show_int (bs_OwnerGID spec))) (\<lambda>_.
       ok (tempVolumeName, volumePath))
     else ok (tempVolumeName, volumePath))
   }"

text \<open>
  \<open>ensureBaseDirectoryExists\<close> calls itself on the parent directory first, down to the root. The
  directories it will come back through are \<open>base_dirs\<close>; for a relative path the recursion does
  not end, and Go's stack overflows before anything was done.
\<close>

partial_function (option) base_dirs :: "string \<Rightarrow> string list option" where
  "base_dirs baseDir =
     (if baseDir = ''/'' then Some []
      else Option.bind (base_dirs (Dir baseDir)) (\<lambda>ds. Some (ds @ [baseDir])))"

declare base_dirs.simps [code]

definition ensure_base_dir :: "string \<Rightarrow> string \<Rightarrow> string \<Rightarrow> (error + unit) io" where
  "ensure_base_dir baseDir childPath parentPath = do {
     st \<leftarrow> os_Stat (Join [childPath, baseDir]);
     (case st of
        Inr _ \<Rightarrow> ok ()
      | Inl err \<Rightarrow>
          if \<not> IsNotExist err then fail (Wrap ''failed to stat base directory'' err)
          else
            or_return (os_Stat (Join [parentPath, baseDir])) (Wrap ''base directory not found in parent layer'') (\<lambda>stat.
            or_return (os_Mkdir (Join [childPath, baseDir]) (nd_mode stat))
              (Wrap ''could not create base directory in child layer'') (\<lambda>_.
            or_return (os_Chown (Join [childPath, baseDir]) (nd_uid stat) (nd_gid stat))
              (Wrap ''could not chown base directory'') (\<lambda>_.
            ok ()))))
   }"

fun ensure_base_dirs :: "string list \<Rightarrow> string \<Rightarrow> string \<Rightarrow> (error + unit) io" where
  "ensure_base_dirs [] childPath parentPath = ok ()"
| "ensure_base_dirs (d # ds) childPath parentPath =
     or_return (ensure_base_dir d childPath parentPath) id (\<lambda>_. ensure_base_dirs ds childPath parentPath)"

definition ensureBaseDirectoryExists :: "string \<Rightarrow> string \<Rightarrow> string \<Rightarrow> (error + unit) io" where
  "ensureBaseDirectoryExists baseDir childPath parentPath =
     (case base_dirs baseDir of
        None \<Rightarrow> fail (Panic ''stack overflow'')
      | Some ds \<Rightarrow> ensure_base_dirs ds childPath parentPath)"

definition unpack_and_handle ::
  "BaseImagePuller \<Rightarrow> UnpackSpec \<Rightarrow> LayerInfo \<Rightarrow> (error + int) io" where
  "unpack_and_handle p unpackSpec layerInfo = do {
     r \<leftarrow> bp_unpacker p unpackSpec;
     (case r of
        Inl err \<Rightarrow> do {
          _ \<leftarrow> dr_DestroyVolume (bp_volumeDriver p) (li_ChainID layerInfo);
          fail (Wrap (''unpacking layer `'' @ li_BlobID layerInfo @ ''`'') err)
        }
      | Inr unpackOutput \<Rightarrow>
          or_return (dr_HandleOpaqueWhiteouts (bp_volumeDriver p) (Base (us_TargetPath unpackSpec)) (uo_OpaqueWhiteouts unpackOutput))
            (Wrap ''handling opaque whiteouts'') (\<lambda>_.
          ok (uo_BytesWritten unpackOutput)))
   }"

definition unpackLayerToTemporaryDirectory ::
  "BaseImagePuller \<Rightarrow> UnpackSpec \<Rightarrow> LayerInfo \<Rightarrow> LayerInfo \<Rightarrow> (error + int) io" where
  "unpackLayerToTemporaryDirectory p unpackSpec layerInfo parentLayerInfo = timed MetricsUnpackTimeName (
     if us_BaseDirectory unpackSpec \<noteq> [] then
       or_return (dr_VolumePath (bp_volumeDriver p) (li_ChainID parentLayerInfo)) id (\<lambda>parentPath.
       or_return (ensureBaseDirectoryExists (us_BaseDirectory unpackSpec) (us_TargetPath unpackSpec) parentPath) id (\<lambda>_.
       unpack_and_handle p unpackSpec layerInfo))
     else unpack_and_handle p unpackSpec layerInfo)"

definition finalizeVolume :: "BaseImagePuller \<Rightarrow> string \<Rightarrow> string \<Rightarrow> string \<Rightarrow> int \<Rightarrow> (error + unit) io" where
  "finalizeVolume p tempVolumeName volumePath chainID volSize =
     or_return (dr_WriteVolumeMeta (bp_volumeDriver p) chainID \<lparr>vm_Size = volSize\<rparr>)
       (Wrap (''writing volume `'' @ chainID @ ''` metadata'')) (\<lambda>_.
     let finalVolumePath = replace_first volumePath tempVolumeName chainID in
     or_return (dr_MoveVolume (bp_volumeDriver p) volumePath finalVolumePath)
       (Wrap ''failed to move volume to its final location'') (\<lambda>_.
     ok ()))"

definition unpackLayer ::
  "BaseImagePuller \<Rightarrow> LayerInfo \<Rightarrow> LayerInfo \<Rightarrow> BaseImageSpec \<Rightarrow> blob \<Rightarrow> (error + unit) io" where
  "unpackLayer p layerInfo parentLayerInfo spec stream =
     or_return (createTemporaryVolumeDirectory p layerInfo spec) id (\<lambda>(tempVolumeName, volumePath).
     let unpackSpec = \<lparr>us_Stream = stream, us_TargetPath = volumePath, us_UIDMappings = bs_UIDMappings spec,
           us_GIDMappings = bs_GIDMappings spec, us_BaseDirectory = li_BaseDirectory layerInfo\<rparr> in
     or_return (unpackLayerToTemporaryDirectory p unpackSpec layerInfo parentLayerInfo) id (\<lambda>volSize.
     finalizeVolume p tempVolumeName volumePath (li_ChainID layerInfo) volSize))"

definition empty_LayerInfo :: LayerInfo where
  "empty_LayerInfo = \<lparr>li_BlobID = [], li_ChainID = [], li_DiffID = [], li_ParentChainID = [], li_Size = 0,
     li_BaseDirectory = [], li_URLs = [], li_MediaType = []\<rparr>"

definition parent_layer :: "LayerInfo list \<Rightarrow> nat \<Rightarrow> LayerInfo" where
  "parent_layer layerInfos index = (if index > 0 then layerInfos ! (index - 1) else empty_LayerInfo)"

text \<open>
  \<open>buildLayer\<close> of the code's index is \<open>buildLayer (index + 1)\<close> here: 0 is the call with a negative
  index. The \<open>Unlock\<close> and the closing of the stream are deferred calls.
\<close>

fun buildLayer :: "BaseImagePuller \<Rightarrow> nat \<Rightarrow> LayerInfo list \<Rightarrow> BaseImageSpec \<Rightarrow> (error + unit) io" where
  "buildLayer p 0 layerInfos spec = ok ()"
| "buildLayer p (Suc index) layerInfos spec =
     (let layerInfo = layerInfos ! index in do {
        exists \<leftarrow> volumeExists p (li_ChainID layerInfo);
        if exists then ok ()
        else do {
          l \<leftarrow> lk_Lock (bp_locksmith p) (li_ChainID layerInfo);
          (case l of
             Inl err \<Rightarrow> fail (Wrap ''acquiring lock'' err)
           | Inr lockFile \<Rightarrow> do {
               result \<leftarrow> do {
                 exists \<leftarrow> volumeExists p (li_ChainID layerInfo);
                 if exists then ok ()
                 else do {
                   download \<leftarrow> downloadLayer p spec layerInfo;
                   or_return (buildLayer p index layerInfos spec) id (\<lambda>_.
                   (case download of
                      Inl err \<Rightarrow> fail err
                    | Inr stream \<Rightarrow> do {
                        r \<leftarrow> unpackLayer p layerInfo (parent_layer layerInfos index) spec stream;
                        _ \<leftarrow> close_blob stream;
                        State_Monad.return r
                      }))
                 }
               };
               _ \<leftarrow> lk_Unlock (bp_locksmith p) lockFile;
               State_Monad.return result
             })
        }
      })"

definition Pull :: "BaseImagePuller \<Rightarrow> BaseImageInfo \<Rightarrow> BaseImageSpec \<Rightarrow> (error + unit) io" where
  "Pull p baseImageInfo spec =
     or_return (State_Monad.return (quotaExceeded (bi_LayerInfos baseImageInfo) spec)) id (\<lambda>_.
     buildLayer p (length (bi_LayerInfos baseImageInfo)) (bi_LayerInfos baseImageInfo) spec)"

end
