(* ===== verification/Fetchers.thy ===== *)
theory Fetchers
  imports Puller
begin

text \<open>
  Where layers come from: \<open>fetcher/tar_fetcher\<close> (a local tar file as one layer) and
  \<open>fetcher/layer_fetcher\<close> with its \<open>source\<close> (the layers of a remote or OCI image). The library
  \<open>containers/image\<close> and the gzip decoder are parameters: the record \<open>image_service\<close>.
\<close>

section \<open>tar_fetcher\<close>

definition generateChainID :: "string \<Rightarrow> int \<Rightarrow> string" where
  "generateChainID baseImagePath timestamp = sha256_hex baseImagePath @ ''-'' @ show_int timestamp"

definition validateBaseImage :: "string \<Rightarrow> (error + unit) io" where
  "validateBaseImage baseImagePath =
     or_return (os_Stat baseImagePath) id (\<lambda>stat.
     if is_dir stat then fail (Plain ''directory provided instead of a tar file'') else ok ())"

text \<open>The bytes that an opened file will deliver.\<close>

definition file_bytes :: "string \<Rightarrow> string io" where
  "file_bytes p = gets (\<lambda>w. case fs_get (w_fs w) (resolve p) of
     Some n \<Rightarrow> (case nd_kind n of File s \<Rightarrow> s | _ \<Rightarrow> []) | None \<Rightarrow> [])"

definition tar_StreamBlob :: "URL \<Rightarrow> LayerInfo \<Rightarrow> (error + blob \<times> int) io" where
  "tar_StreamBlob baseImageURL layerInfo =
     (let baseImagePath = url_String baseImageURL in
      or_return (os_Stat baseImagePath) (Wrap (''local image not found in `'' @ baseImagePath @ ''`'')) (\<lambda>_.
      or_return (validateBaseImage baseImagePath) (Wrap ''invalid base image'') (\<lambda>_.
      or_return (os_Open baseImagePath) (Wrap ''reading local image'') (\<lambda>_. do {
        bytes \<leftarrow> file_bytes baseImagePath;
        ok (\<lparr>bl_data = bytes, bl_temp = None\<rparr>, 0)
      }))))"

definition tar_BaseImageInfo :: "URL \<Rightarrow> (error + BaseImageInfo) io" where
  "tar_BaseImageInfo baseImageURL =
     or_return (os_Stat (url_String baseImageURL)) (Wrap ''fetching image timestamp'') (\<lambda>stat.
     ok \<lparr>bi_LayerInfos =
           [empty_LayerInfo\<lparr>li_BlobID := url_String baseImageURL, li_ParentChainID := [],
              li_ChainID := generateChainID (url_String baseImageURL) (nd_mtime stat)\<rparr>],
         bi_Config = empty_Image\<rparr>)"

definition tar_fetcher :: fetcher_ops where
  "tar_fetcher = \<lparr>ft_BaseImageInfo = tar_BaseImageInfo, ft_StreamBlob = tar_StreamBlob\<rparr>"

section \<open>The image library\<close>

text \<open>\<open>types.BlobInfo\<close>, and what is read of \<open>types.Image\<close>.\<close>

record BlobInfo =
  bi_Digest :: string
  bi_Size :: int
  bi_URLs :: "string list"
  bi_Annotations :: "(string \<times> string) list"
  bi_MediaType :: string

record manifest =
  mf_LayerInfos :: "BlobInfo list"
  mf_MimeType :: "error + string"
  mf_OCIConfig :: "error + Image"

text \<open>
  The operations of the library. A transport that is not registered is \<open>None\<close>; calling a method
  on it panics. The operations that reach out answer differently at different times, so their last
  argument is the moment of the call; they leave the files of this host alone. \<open>sv_UpdatedImage\<close>
  gives the converted image for new diff IDs. \<open>sv_gzip_header\<close> is the error of \<open>gzip.NewReader\<close>,
  \<open>sv_gunzip\<close> the whole decompressed text or the error met while reading it.
\<close>

record image_service =
  sv_ParseReference :: "string \<Rightarrow> (string \<Rightarrow> error + string) option"
  sv_NewImage :: "string \<Rightarrow> nat \<Rightarrow> error + manifest"
  sv_NewImageSource :: "string \<Rightarrow> nat \<Rightarrow> error + string"
  sv_ConfigBlob :: "manifest \<Rightarrow> nat \<Rightarrow> error + string"
  sv_GetBlob :: "string \<Rightarrow> BlobInfo \<Rightarrow> nat \<Rightarrow> error + string \<times> int"
  sv_UpdatedImage :: "manifest \<Rightarrow> string list \<Rightarrow> nat \<Rightarrow> error + manifest"
  sv_gzip_header :: "string \<Rightarrow> error option"
  sv_gunzip :: "string \<Rightarrow> error + string"

definition answer :: "(nat \<Rightarrow> 'a) \<Rightarrow> 'a io" where
  "answer f = State (\<lambda>w. (f (w_clock w), tick w))"

lemma answer_evolves [evolves_rules]:
  "evolves (within E X) (answer f)" "evolves same_env (answer f)" "evolves same_locks (answer f)"
  by (simp_all add: evolves_def answer_def within_def same_env_def same_locks_def)

section \<open>source\<close>

definition MAX_DOCKER_RETRIES :: nat where "MAX_DOCKER_RETRIES = 3"

text \<open>\<open>so_tempDir\<close> is the directory of temporary files, from the variable \<open>TMPDIR\<close>.\<close>

record LayerSource =
  so_service :: image_service
  so_skipOCIChecksumValidation :: bool
  so_tempDir :: string

definition NewLayerSource :: "image_service \<Rightarrow> bool \<Rightarrow> string \<Rightarrow> LayerSource" where
  "NewLayerSource service skip tempDir =
     \<lparr>so_service = service, so_skipOCIChecksumValidation = skip, so_tempDir = tempDir\<rparr>"

definition reference :: "LayerSource \<Rightarrow> URL \<Rightarrow> error + string" where
  "reference s baseImageURL =
     (let refString = ''/'' @ (if url_Host baseImageURL \<noteq> [] then ''/'' @ url_Host baseImageURL else []) @ url_Path baseImageURL in
      (case sv_ParseReference (so_service s) (url_Scheme baseImageURL) of
         None \<Rightarrow> Inl (Panic ''invalid memory address or nil pointer dereference'')
       | Some parse \<Rightarrow> (case parse refString of Inl err \<Rightarrow> Inl (Wrap ''parsing url failed'' err) | Inr ref \<Rightarrow> Inr ref)))"

definition imageSource :: "LayerSource \<Rightarrow> URL \<Rightarrow> (error + string) io" where
  "imageSource s baseImageURL =
     or_return (State_Monad.return (reference s baseImageURL)) id (\<lambda>ref.
     or_return (answer (sv_NewImageSource (so_service s) ref)) (Wrap ''creating image source'') (\<lambda>imgSrc.
     ok imgSrc))"

text \<open>The three retry loops: the first success, or the last error.\<close>

fun retry :: "nat \<Rightarrow> error \<Rightarrow> (error + 'a) io \<Rightarrow> (error + 'a) io" where
  "retry 0 err attempt = fail err"
| "retry (Suc n) err attempt = do {
     r \<leftarrow> attempt;
     (case r of Inr x \<Rightarrow> ok x | Inl e \<Rightarrow> retry n e attempt)
   }"

definition no_error :: error where "no_error = Plain []"

definition getBlobWithRetries :: "LayerSource \<Rightarrow> string \<Rightarrow> BlobInfo \<Rightarrow> (error + string \<times> int) io" where
  "getBlobWithRetries s imgSrc blobInfo =
     retry MAX_DOCKER_RETRIES no_error (answer (sv_GetBlob (so_service s) imgSrc blobInfo))"

definition getImageWithRetries :: "LayerSource \<Rightarrow> URL \<Rightarrow> (error + manifest) io" where
  "getImageWithRetries s baseImageURL =
     or_return (State_Monad.return (reference s baseImageURL)) id (\<lambda>ref.
     or_return (retry MAX_DOCKER_RETRIES no_error (answer (sv_NewImage (so_service s) ref))) (Wrap ''creating image'') (\<lambda>img.
     ok img))"

definition v1DiffID :: "LayerSource \<Rightarrow> BlobInfo \<Rightarrow> string \<Rightarrow> (error + string) io" where
  "v1DiffID s layer imgSrc =
     or_return (getBlobWithRetries s imgSrc layer) (Wrap ''fetching V1 layer blob'') (\<lambda>(blob, _).
     (case sv_gzip_header (so_service s) blob of
        Some err \<Rightarrow> fail (Wrap ''creating reader for V1 layer blob'' err)
      | None \<Rightarrow>
          (case sv_gunzip (so_service s) blob of
             Inl err \<Rightarrow> fail (Wrap ''reading V1 layer blob'' err)
           | Inr bytes \<Rightarrow> ok (''sha256:'' @ sha256_hex bytes))))"

fun v1_diff_ids :: "LayerSource \<Rightarrow> BlobInfo list \<Rightarrow> string \<Rightarrow> (error + string list) io" where
  "v1_diff_ids s [] imgSrc = ok []"
| "v1_diff_ids s (layer # rest) imgSrc =
     or_return (v1DiffID s layer imgSrc) (Wrap ''converting V1 schema failed'') (\<lambda>diffID.
     or_return (v1_diff_ids s rest imgSrc) id (\<lambda>diffIDs. ok (diffID # diffIDs)))"

definition DockerV2Schema1MediaType :: string where
  "DockerV2Schema1MediaType = ''application/vnd.docker.distribution.manifest.v1+json''"

definition DockerV2Schema1SignedMediaType :: string where
  "DockerV2Schema1SignedMediaType = ''application/vnd.docker.distribution.manifest.v1+prettyjws''"

definition convertImage :: "LayerSource \<Rightarrow> manifest \<Rightarrow> URL \<Rightarrow> (error + manifest) io" where
  "convertImage s originalImage baseImageURL =
     or_return (State_Monad.return (mf_MimeType originalImage)) id (\<lambda>mimetype.
     if mimetype \<noteq> DockerV2Schema1MediaType \<and> mimetype \<noteq> DockerV2Schema1SignedMediaType then ok originalImage
     else
       or_return (imageSource s baseImageURL) id (\<lambda>imgSrc.
       or_return (v1_diff_ids s (mf_LayerInfos originalImage) imgSrc) id (\<lambda>diffIDs.
       answer (sv_UpdatedImage (so_service s) originalImage diffIDs))))"

definition Manifest :: "LayerSource \<Rightarrow> URL \<Rightarrow> (error + manifest) io" where
  "Manifest s baseImageURL =
     or_return (getImageWithRetries s baseImageURL)
       (\<lambda>err. if is_panic err then err else Wrap ''fetching image reference'' err) (\<lambda>img.
     or_return (convertImage s img baseImageURL) id (\<lambda>img.
     or_return (retry MAX_DOCKER_RETRIES no_error (answer (sv_ConfigBlob (so_service s) img)))
       (Wrap ''fetching image configuration'') (\<lambda>_.
     ok img)))"

definition checkCheckSum :: "LayerSource \<Rightarrow> string \<Rightarrow> string \<Rightarrow> string \<Rightarrow> error + unit" where
  "checkCheckSum s blobContentsSha digest scheme =
     (if so_skipOCIChecksumValidation s \<and> scheme = ''oci'' then Inr ()
      else if digest \<noteq> blobContentsSha
      then Inl (Plain (''expected: '' @ digest @ '', actual: '' @ blobContentsSha))
      else Inr ())"

text \<open>\<open>ioutil.TempFile("", "blob-<id>")\<close>: a new file with a random suffix.\<close>

definition temp_blob :: "LayerSource \<Rightarrow> string \<Rightarrow> (error + string) io" where
  "temp_blob s blobID = do {
     r \<leftarrow> rand_Int;
     let name = Join [so_tempDir s, ''blob-'' @ blobID @ show_nat (nat \<bar>r\<bar>)];
     or_return (os_OpenCreate name 0x180) id (\<lambda>_. ok name)
   }"

text \<open>
  The steps after the temporary file is open; the deferred function removes it when one of them
  fails. Both digests are taken of whole texts: the decoder reads to the end of its input.
\<close>

definition write_and_check :: "LayerSource \<Rightarrow> URL \<Rightarrow> LayerInfo \<Rightarrow> string \<Rightarrow> error + string \<Rightarrow> string \<Rightarrow> (error + unit) io" where
  "write_and_check s baseImageURL layerInfo blob contents name =
     (case contents of
        Inl err \<Rightarrow> fail (Wrap ''writing blob to tempfile'' err)
      | Inr text \<Rightarrow>
          or_return (file_Write name text) (Wrap ''writing blob to tempfile'') (\<lambda>_.
          (case split_on (CHR '':'') (li_BlobID layerInfo) of
             _ # blobIDHex # _ \<Rightarrow>
               or_return (State_Monad.return (checkCheckSum s (sha256_hex blob) blobIDHex (url_Scheme baseImageURL)))
                 (Wrap ''layerID digest mismatch'') (\<lambda>_.
               or_return (State_Monad.return (checkCheckSum s (sha256_hex text) (li_DiffID layerInfo) (url_Scheme baseImageURL)))
                 (Wrap ''diffID digest mismatch'') (\<lambda>_.
               ok ()))
           | _ \<Rightarrow> fail (Panic ''index out of range''))))"

text \<open>
  The blob goes into the temporary file, decompressed if its type says so. The error of \<open>TempFile\<close>
  is overwritten by the success of \<open>gzip.NewReader\<close>, and then there is no file to write to.
\<close>

definition fill_temp :: "LayerSource \<Rightarrow> URL \<Rightarrow> LayerInfo \<Rightarrow> string \<Rightarrow> int \<Rightarrow> error + string \<Rightarrow> (error + string \<times> int) io" where
  "fill_temp s baseImageURL layerInfo blob sz temp =
     (let gzipped = (li_MediaType layerInfo = [] \<or> contains (li_MediaType layerInfo) ''gzip'') in
      (case (if gzipped then sv_gzip_header (so_service s) blob else None) of
         Some err \<Rightarrow> fail (Wrap (''expected blob to be of type '' @ li_MediaType layerInfo) err)
       | None \<Rightarrow>
           (case temp of
              Inl err \<Rightarrow>
                if gzipped then fail (Panic ''invalid memory address or nil pointer dereference'')
                else fail err
            | Inr name \<Rightarrow> do {
                r \<leftarrow> write_and_check s baseImageURL layerInfo blob
                       (if gzipped then sv_gunzip (so_service s) blob else Inr blob) name;
                (case r of
                   Inl err \<Rightarrow>
                     if is_panic err then fail err
                     else do { _ \<leftarrow> os_Remove name; fail err }
                 | Inr _ \<Rightarrow> ok (name, sz))
              })))"

definition Blob :: "LayerSource \<Rightarrow> URL \<Rightarrow> LayerInfo \<Rightarrow> (error + string \<times> int) io" where
  "Blob s baseImageURL layerInfo =
     or_return (imageSource s baseImageURL) id (\<lambda>imgSrc.
     let blobInfo = \<lparr>bi_Digest = li_BlobID layerInfo, bi_Size = 0, bi_URLs = li_URLs layerInfo,
           bi_Annotations = [], bi_MediaType = []\<rparr> in
     or_return (getBlobWithRetries s imgSrc blobInfo) id (\<lambda>(blob, sz). do {
       temp \<leftarrow> temp_blob s (li_BlobID layerInfo);
       fill_temp s baseImageURL layerInfo blob sz temp
     }))"

section \<open>layer_fetcher\<close>

definition cfBaseDirectoryAnnotation :: string where
  "cfBaseDirectoryAnnotation = ''org.cloudfoundry.experimental.image.base-directory''"

definition NewBlobReader :: "string \<Rightarrow> (error + blob) io" where
  "NewBlobReader blobPath =
     or_return (os_Open blobPath) (Wrap ''failed to open blob'') (\<lambda>_. do {
       bytes \<leftarrow> file_bytes blobPath;
       ok \<lparr>bl_data = bytes, bl_temp = Some blobPath\<rparr>
     })"

text \<open>The part after the first colon; a text without one makes the code panic.\<close>

definition after_colon :: "string \<Rightarrow> string option" where
  "after_colon d = (case split_on (CHR '':'') d of _ # h # _ \<Rightarrow> Some h | _ \<Rightarrow> None)"

definition chain_id :: "string \<Rightarrow> string \<Rightarrow> string" where
  "chain_id diffHex parentChainID =
     (if parentChainID \<noteq> [] then sha256_hex (parentChainID @ '' '' @ diffHex) else diffHex)"

fun createLayerInfos :: "string \<Rightarrow> BlobInfo list \<Rightarrow> string list \<Rightarrow> error + LayerInfo list" where
  "createLayerInfos parentChainID [] diffIDs = Inr []"
| "createLayerInfos parentChainID (layer # rest) [] = Inl (Panic ''index out of range'')"
| "createLayerInfos parentChainID (layer # rest) (diffID # diffIDs) =
     (case after_colon diffID of
        None \<Rightarrow> Inl (Panic ''index out of range'')
      | Some diffHex \<Rightarrow>
          let chainID = chain_id diffHex parentChainID in
          (case createLayerInfos chainID rest diffIDs of
             Inl err \<Rightarrow> Inl err
           | Inr layerInfos \<Rightarrow>
               Inr (\<lparr>li_BlobID = bi_Digest layer, li_ChainID = chainID, li_DiffID = diffHex,
                     li_ParentChainID = parentChainID, li_Size = bi_Size layer,
                     li_BaseDirectory = (case map_of (bi_Annotations layer) cfBaseDirectoryAnnotation of Some d \<Rightarrow> d | None \<Rightarrow> []),
                     li_URLs = bi_URLs layer, li_MediaType = bi_MediaType layer\<rparr> # layerInfos)))"

definition layer_BaseImageInfo :: "LayerSource \<Rightarrow> URL \<Rightarrow> (error + BaseImageInfo) io" where
  "layer_BaseImageInfo s baseImageURL =
     or_return (Manifest s baseImageURL) id (\<lambda>manifest.
     or_return (State_Monad.return (mf_OCIConfig manifest)) id (\<lambda>config.
     or_return (State_Monad.return (createLayerInfos [] (mf_LayerInfos manifest) (img_DiffIDs config))) id (\<lambda>layerInfos.
     ok \<lparr>bi_LayerInfos = layerInfos, bi_Config = config\<rparr>)))"

definition layer_StreamBlob :: "LayerSource \<Rightarrow> URL \<Rightarrow> LayerInfo \<Rightarrow> (error + blob \<times> int) io" where
  "layer_StreamBlob s baseImageURL layerInfo =
     or_return (Blob s baseImageURL layerInfo) id (\<lambda>(blobFilePath, sz).
     or_return (NewBlobReader blobFilePath) (Wrap ''opening stream from temporary blob file'') (\<lambda>blobReader.
     ok (blobReader, sz)))"

definition layer_fetcher :: "LayerSource \<Rightarrow> fetcher_ops" where
  "layer_fetcher s = \<lparr>ft_BaseImageInfo = layer_BaseImageInfo s, ft_StreamBlob = layer_StreamBlob s\<rparr>"

section \<open>Chain IDs\<close>

text \<open>
  The identifiers form a chain: every layer's parent is the layer before it, the first one has
  none, and the chain ID of a layer depends on the diff IDs up to it and on nothing else.
\<close>

lemma createLayerInfos_length:
  "createLayerInfos p ls ds = Inr lis \<Longrightarrow> length lis = length ls"
  by (induction p ls ds arbitrary: lis rule: createLayerInfos.induct)
    (auto simp: Let_def split: option.splits sum.splits)

lemma createLayerInfos_parent0:
  "createLayerInfos p ls ds = Inr (li # lis) \<Longrightarrow> li_ParentChainID li = p"
  by (cases ls; cases ds) (auto simp: Let_def split: option.splits sum.splits)

lemma createLayerInfos_linked:
  "createLayerInfos p ls ds = Inr lis \<Longrightarrow> i < length lis \<Longrightarrow>
     li_ParentChainID (lis ! i) = (if i = 0 then p else li_ChainID (lis ! (i - 1))) \<and>
     li_ChainID (lis ! i) = chain_id (li_DiffID (lis ! i)) (li_ParentChainID (lis ! i))"
proof (induction p ls ds arbitrary: lis i rule: createLayerInfos.induct)
  case (3 p layer rest d ds)
  then obtain h lis' where h: "after_colon d = Some h"
    and r: "createLayerInfos (chain_id h p) rest ds = Inr lis'" and lis: "lis = lis ! 0 # lis'"
    and l0: "li_ParentChainID (lis ! 0) = p" "li_ChainID (lis ! 0) = chain_id h p" "li_DiffID (lis ! 0) = h"
    by (auto simp: Let_def split: option.splits sum.splits)
  show ?case
  proof (cases i)
    case 0
    with l0 show ?thesis by simp
  next
    case (Suc j)
    with 3(3) lis have j: "j < length lis'" by (metis Suc_less_eq length_Cons)
    have "lis ! Suc k = lis' ! k" for k using lis by (metis nth_Cons_Suc)
    with 3(1) [OF h refl r j] Suc l0 show ?thesis by (cases j) auto
  qed
qed auto

lemma createLayerInfos_diff_prefix:
  assumes "createLayerInfos p ls ds = Inr lis" and "createLayerInfos p ls' ds' = Inr lis'"
    and "i < length lis" and "i < length lis'" and "take (Suc i) ds = take (Suc i) ds'"
  shows "li_ChainID (lis ! i) = li_ChainID (lis' ! i)"
  using assms
proof (induction p ls ds arbitrary: lis ls' ds' lis' i rule: createLayerInfos.induct)
  case (3 p layer rest d ds)
  obtain layer' rest' ds'' where ls': "ls' = layer' # rest'" and ds': "ds' = d # ds''"
    using 3(3,5,6) by (cases ls'; cases ds') auto
  obtain h lis1 where h: "after_colon d = Some h"
    and r: "createLayerInfos (chain_id h p) rest ds = Inr lis1" and lis: "tl lis = lis1"
    and l0: "li_ChainID (lis ! 0) = chain_id h p"
    using 3(2) by (auto simp: Let_def split: option.splits sum.splits)
  obtain lis2 where r': "createLayerInfos (chain_id h p) rest' ds'' = Inr lis2" and lis': "tl lis' = lis2"
    and l0': "li_ChainID (lis' ! 0) = chain_id h p"
    using 3(3) h by (auto simp: ls' ds' Let_def split: option.splits sum.splits)
  show ?case
  proof (cases i)
    case 0
    with l0 l0' show ?thesis by simp
  next
    case (Suc j)
    have "li_ChainID (lis1 ! j) = li_ChainID (lis2 ! j)"
      by (rule 3(1) [OF h refl r r']) (use 3(4-6) Suc lis lis' ds' in auto)
    then have "li_ChainID (tl lis ! j) = li_ChainID (tl lis' ! j)" by (simp only: lis lis')
    with Suc 3(4,5) show ?thesis by (simp add: nth_tl)
  qed
qed auto

section \<open>Checksums\<close>

text \<open>What a successful \<open>Blob\<close> leaves in its file has the digest the manifest names.\<close>

lemma write_and_check_ok:
  assumes "run_state (write_and_check s u li blob contents name) w = (Inr (), w')"
    and "\<not> (so_skipOCIChecksumValidation s \<and> url_Scheme u = ''oci'')"
  shows "\<exists>text. contents = Inr text \<and> sha256_hex text = li_DiffID li \<and>
     after_colon (li_BlobID li) = Some (sha256_hex blob) \<and>
     (\<exists>n. fs_get (w_fs w') (resolve name) = Some n \<and> nd_kind n = File text)"
  using assms
  by (auto simp: write_and_check_def checkCheckSum_def after_colon_def file_Write_def syscall_def k_write_def fs_simps
      split: sum.splits list.splits if_splits option.splits prod.splits)

lemma Blob_checked:
  assumes "run_state (Blob s u li) w = (Inr (name, sz), w')"
    and "\<not> (so_skipOCIChecksumValidation s \<and> url_Scheme u = ''oci'')"
  shows "\<exists>n text. fs_get (w_fs w') (resolve name) = Some n \<and> nd_kind n = File text \<and> sha256_hex text = li_DiffID li"
proof -
  from assms(1) obtain blob contents w1 where
    "run_state (write_and_check s u li blob contents name) w1 = (Inr (), w')"
    by (auto simp: Blob_def fill_temp_def Let_def split: sum.splits prod.splits option.splits if_splits)
  from write_and_check_ok [OF this assms(2)] show ?thesis by blast
qed

text \<open>A success of the loop is a success of an attempt.\<close>

lemma retry_success:
  "run_state (retry n e m) w = (Inr x, w') \<Longrightarrow> \<exists>v. run_state m v = (Inr x, w')"
  by (induction n arbitrary: e w) (auto split: prod.splits sum.splits)

section \<open>The contract of a fetcher\<close>

text \<open>
  What the puller relies on, for layers that are \<open>good\<close>: fetching writes only temporary files, in
  \<open>T\<close>, and the data of a stream is what was asked for (\<open>served\<close>).
\<close>

locale layer_source =
  fixes fetcher :: fetcher_ops and T :: "path set" and good :: "LayerInfo \<Rightarrow> bool"
    and served :: "URL \<Rightarrow> LayerInfo \<Rightarrow> string \<Rightarrow> bool"
  assumes StreamBlob_frame: "\<And>E X u li. good li \<Longrightarrow> T \<subseteq> X \<Longrightarrow> evolves (within E X) (ft_StreamBlob fetcher u li)"
    and StreamBlob_temp: "\<And>u li w b n w' f. run_state (ft_StreamBlob fetcher u li) w = (Inr (b, n), w') \<Longrightarrow> good li \<Longrightarrow>
        bl_temp b = Some f \<Longrightarrow> resolve f \<in> T"
    and StreamBlob_served: "\<And>u li w b n w'. run_state (ft_StreamBlob fetcher u li) w = (Inr (b, n), w') \<Longrightarrow>
        served u li (bl_data b)"
    and BaseImageInfo_frame: "\<And>E X u. evolves (within E X) (ft_BaseImageInfo fetcher u)"
    and fetcher_env: "\<And>u li. evolves same_env (ft_StreamBlob fetcher u li)" "\<And>u. evolves same_env (ft_BaseImageInfo fetcher u)"
    and fetcher_locks: "\<And>u li. evolves same_locks (ft_StreamBlob fetcher u li)" "\<And>u. evolves same_locks (ft_BaseImageInfo fetcher u)"

lemma file_bytes_evolves [evolves_rules]: "preorder_on_state R \<Longrightarrow> evolves R (file_bytes p)"
  unfolding file_bytes_def by (rule evolves_gets)

lemma tar_fetcher_evolves:
  "evolves (within E X) (tar_StreamBlob u li)" "evolves (within E X) (tar_BaseImageInfo u)"
  "evolves same_env (tar_StreamBlob u li)" "evolves same_env (tar_BaseImageInfo u)"
  "evolves same_locks (tar_StreamBlob u li)" "evolves same_locks (tar_BaseImageInfo u)"
  unfolding tar_StreamBlob_def tar_BaseImageInfo_def validateBaseImage_def by (intro evolves_rules)+

lemma tar_StreamBlob_temp: "run_state (tar_StreamBlob u li) w = (Inr (b, n), w') \<Longrightarrow> bl_temp b = None"
  by (auto simp: tar_StreamBlob_def file_bytes_def Let_def split: prod.splits sum.splits)

interpretation tar_source: layer_source tar_fetcher "{}" "\<lambda>_. True" "\<lambda>_ _ _. True"
  by unfold_locales (auto simp: tar_fetcher_def tar_fetcher_evolves dest: tar_StreamBlob_temp)

text \<open>The digest of a layer is a text without slashes, so its temporary file is in the temporary directory.\<close>

definition temp_files :: "LayerSource \<Rightarrow> path set" where
  "temp_files s = below (resolve (so_tempDir s))"

definition plain_digest :: "LayerInfo \<Rightarrow> bool" where
  "plain_digest li \<longleftrightarrow> CHR ''/'' \<notin> set (li_BlobID li)"

definition blob_checked :: "LayerSource \<Rightarrow> URL \<Rightarrow> LayerInfo \<Rightarrow> string \<Rightarrow> bool" where
  "blob_checked s u li data \<longleftrightarrow>
     \<not> (so_skipOCIChecksumValidation s \<and> url_Scheme u = ''oci'') \<longrightarrow> sha256_hex data = li_DiffID li"

lemma temp_name_plain: "plain_digest li \<Longrightarrow> plain_name (''blob-'' @ li_BlobID li @ show_nat n)"
  using show_nat_digits [of n] by (auto simp: plain_name_def plain_digest_def is_digit_def)

lemma temp_blob_run:
  assumes "run_state (temp_blob s (li_BlobID li)) w = (Inr name, w')" and "plain_digest li"
  shows "resolve name \<in> temp_files s"
  using assms temp_name_plain [OF assms(2)]
  by (auto simp: temp_blob_def temp_files_def Let_def split: prod.splits sum.splits)

lemma temp_blob_within: "plain_digest li \<Longrightarrow> temp_files s \<subseteq> X \<Longrightarrow> evolves (within E X) (temp_blob s (li_BlobID li))"
  unfolding temp_blob_def Let_def temp_files_def
  by (intro evolves_rules) (use temp_name_plain in \<open>auto simp: subset_iff\<close>)

lemma retry_evolves [evolves_rules]: "preorder_on_state R \<Longrightarrow> evolves R m \<Longrightarrow> evolves R (retry n e m)"
  by (induction n arbitrary: e) (auto intro!: evolves_rules)

lemma source_evolves [evolves_rules]:
  "evolves (within E X) (imageSource s u)" "evolves same_env (imageSource s u)" "evolves same_locks (imageSource s u)"
  "evolves (within E X) (getBlobWithRetries s i b)" "evolves same_env (getBlobWithRetries s i b)"
  "evolves same_locks (getBlobWithRetries s i b)"
  unfolding imageSource_def getBlobWithRetries_def by (intro evolves_rules)+

lemma write_and_check_evolves:
  "resolve name \<in> X \<Longrightarrow> evolves (within E X) (write_and_check s u li blob contents name)"
  "evolves same_env (write_and_check s u li blob contents name)"
  "evolves same_locks (write_and_check s u li blob contents name)"
  unfolding write_and_check_def by (intro evolves_rules; assumption?)+

lemma temp_blob_same: "evolves same_env (temp_blob s b)" "evolves same_locks (temp_blob s b)"
  unfolding temp_blob_def Let_def by (intro evolves_rules)+

lemma fill_temp_evolves:
  "(\<And>name. temp = Inr name \<Longrightarrow> resolve name \<in> X) \<Longrightarrow> evolves (within E X) (fill_temp s u li blob sz temp)"
  "evolves same_env (fill_temp s u li blob sz temp)" "evolves same_locks (fill_temp s u li blob sz temp)"
  unfolding fill_temp_def Let_def by (intro evolves_rules write_and_check_evolves; simp)+

lemma Blob_within:
  assumes "plain_digest li" and "temp_files s \<subseteq> X"
  shows "evolves (within E X) (Blob s u li)"
  unfolding Blob_def Let_def
  by (intro evolves_or_return evolves_case_prod evolves_bind_result source_evolves preorder_within
      temp_blob_within [OF assms] fill_temp_evolves)
    (use temp_blob_run [OF _ assms(1)] assms(2) in blast)

lemma Blob_same [evolves_rules]: "evolves same_env (Blob s u li)" "evolves same_locks (Blob s u li)"
  unfolding Blob_def Let_def by (intro evolves_rules temp_blob_same fill_temp_evolves)+

lemma NewBlobReader_evolves [evolves_rules]:
  "evolves (within E X) (NewBlobReader p)" "evolves same_env (NewBlobReader p)" "evolves same_locks (NewBlobReader p)"
  unfolding NewBlobReader_def by (intro evolves_rules)+

lemma v1_diff_ids_evolves [evolves_rules]:
  "evolves (within E X) (v1_diff_ids s ls i)" "evolves same_env (v1_diff_ids s ls i)" "evolves same_locks (v1_diff_ids s ls i)"
  by (induction ls; simp; intro evolves_rules; (simp add: v1DiffID_def)?; intro evolves_rules; assumption?)+

lemma Manifest_evolves [evolves_rules]:
  "evolves (within E X) (Manifest s u)" "evolves same_env (Manifest s u)" "evolves same_locks (Manifest s u)"
  unfolding Manifest_def getImageWithRetries_def convertImage_def by (intro evolves_rules)+

lemma layer_fetcher_evolves:
  "plain_digest li \<Longrightarrow> temp_files s \<subseteq> X \<Longrightarrow> evolves (within E X) (layer_StreamBlob s u li)"
  "evolves same_env (layer_StreamBlob s u li)" "evolves same_locks (layer_StreamBlob s u li)"
  "evolves (within E X) (layer_BaseImageInfo s u)" "evolves same_env (layer_BaseImageInfo s u)"
  "evolves same_locks (layer_BaseImageInfo s u)"
  unfolding layer_StreamBlob_def layer_BaseImageInfo_def by (intro evolves_rules Blob_within; assumption)+

lemma Blob_temp:
  assumes "run_state (Blob s u li) w = (Inr (name, sz), w')" and "plain_digest li"
  shows "resolve name \<in> temp_files s"
proof -
  from assms(1) obtain w1 w2 where "run_state (temp_blob s (li_BlobID li)) w1 = (Inr name, w2)"
    by (auto simp: Blob_def fill_temp_def Let_def split: sum.splits prod.splits option.splits if_splits)
  then show ?thesis using assms(2) by (rule temp_blob_run)
qed

lemma layer_StreamBlob_run:
  assumes "run_state (layer_StreamBlob s u li) w = (Inr (b, n), w')"
  shows "\<exists>name w1. run_state (Blob s u li) w = (Inr (name, n), w1) \<and> bl_temp b = Some name \<and>
    (\<forall>nd text. fs_get (w_fs w1) (resolve name) = Some nd \<longrightarrow> nd_kind nd = File text \<longrightarrow> bl_data b = text)"
proof -
  obtain name w1 where 1: "run_state (Blob s u li) w = (Inr (name, n), w1)"
    and 2: "run_state (NewBlobReader name) w1 = (Inr b, w')"
    using assms by (auto simp: layer_StreamBlob_def split: prod.splits sum.splits)
  from 2 have "bl_temp b = Some name \<and>
    (\<forall>nd text. fs_get (w_fs w1) (resolve name) = Some nd \<longrightarrow> nd_kind nd = File text \<longrightarrow> bl_data b = text)"
    by (auto simp: NewBlobReader_def os_Open_def syscall_def file_bytes_def split: prod.splits sum.splits option.splits)
  with 1 show ?thesis by blast
qed

lemma layer_StreamBlob_served:
  assumes "run_state (layer_StreamBlob s u li) w = (Inr (b, n), w')"
  shows "blob_checked s u li (bl_data b)"
  unfolding blob_checked_def
proof
  assume "\<not> (so_skipOCIChecksumValidation s \<and> url_Scheme u = ''oci'')"
  note checked = this
  obtain name w1 where 1: "run_state (Blob s u li) w = (Inr (name, n), w1)"
    "\<forall>nd tx. fs_get (w_fs w1) (resolve name) = Some nd \<longrightarrow> nd_kind nd = File tx \<longrightarrow> bl_data b = tx"
    using layer_StreamBlob_run [OF assms] by (elim exE conjE)
  from Blob_checked [OF 1(1) checked] 1(2) show "sha256_hex (bl_data b) = li_DiffID li" by auto
qed

lemma layer_StreamBlob_temp:
  assumes "run_state (layer_StreamBlob s u li) w = (Inr (b, n), w')" and "plain_digest li" and "bl_temp b = Some f"
  shows "resolve f \<in> temp_files s"
  using layer_StreamBlob_run [OF assms(1)] Blob_temp [OF _ assms(2)] assms(3) by auto

interpretation registry: layer_source "layer_fetcher s" "temp_files s" plain_digest "blob_checked s" for s
  by unfold_locales
    (auto simp: layer_fetcher_def layer_fetcher_evolves dest: layer_StreamBlob_temp layer_StreamBlob_served)

end
