(* ===== verification/StoreNamespacer.thy ===== *)
theory StoreNamespacer
  imports Cleaner "HOL-Library.Multiset"
begin

text \<open>
  \<open>groot/store_namespacer.go\<close>: the UID and GID mappings of a store, kept as sorted texts in
  \<open>meta/namespace.json\<close>. A store accepts mappings exactly when they are the recorded ones
  up to their order, and reads back what was recorded.
\<close>

section \<open>The code\<close>

definition NamespaceFilename :: string where "NamespaceFilename = ''namespace.json''"

record StoreNamespacer =
  ns_storePath :: string

definition NewStoreNamespacer :: "string \<Rightarrow> StoreNamespacer" where
  "NewStoreNamespacer store = \<lparr>ns_storePath = store\<rparr>"

definition namespaceFilePath :: "StoreNamespacer \<Rightarrow> string" where
  "namespaceFilePath n = Join [ns_storePath n, MetaDirName, NamespaceFilename]"

definition format_mapping :: "IDMappingSpec \<Rightarrow> string" where
  "format_mapping m = show_int (NamespaceID m) @ '':'' @ show_int (HostID m) @ '':'' @ show_int (Size m)"

definition normalizeMappings :: "IDMappingSpec list \<Rightarrow> string list" where
  "normalizeMappings ms = sort (map format_mapping ms)"

fun parseIDMappings :: "string list \<Rightarrow> (error + IDMappingSpec list)" where
  "parseIDMappings [] = Inr []"
| "parseIDMappings (v # args) =
     (case sscanf3 v of
        None \<Rightarrow> Inl (Plain ''input does not match format'')
      | Some (a, b, c) \<Rightarrow>
          (case parseIDMappings args of
             Inl err \<Rightarrow> Inl err
           | Inr ms \<Rightarrow> Inr (\<lparr>HostID = b, NamespaceID = a, Size = c\<rparr> # ms)))"

text \<open>The struct \<open>mappings\<close>; a slice that the text does not give is nil (\<open>None\<close>), not empty.\<close>

record mappings =
  mp_UIDMappings :: "string list option"
  mp_GIDMappings :: "string list option"

fun slice_of_json :: "json \<Rightarrow> string list option option" where
  "slice_of_json JNull = Some None"
| "slice_of_json j = map_option Some (strings_of_json j)"

definition mappings_json :: "string list \<Rightarrow> string list \<Rightarrow> json" where
  "mappings_json us gs = JObj [(''uid-mappings'', json_strings us), (''gid-mappings'', json_strings gs)]"

definition mappings_of_json :: "json \<Rightarrow> mappings option" where
  "mappings_of_json j =
     (case (Option.bind (member ''uid-mappings'' j) slice_of_json, Option.bind (member ''gid-mappings'' j) slice_of_json) of
        (Some us, Some gs) \<Rightarrow> Some \<lparr>mp_UIDMappings = us, mp_GIDMappings = gs\<rparr>
      | _ \<Rightarrow> None)"

definition slice :: "string list option \<Rightarrow> string list" where
  "slice s = (case s of None \<Rightarrow> [] | Some xs \<Rightarrow> xs)"

definition write_mappings :: "StoreNamespacer \<Rightarrow> IDMappingSpec list \<Rightarrow> IDMappingSpec list \<Rightarrow> (error + unit) io" where
  "write_mappings n uidMappings gidMappings =
     or_return (os_Create (namespaceFilePath n)) (Wrap ''creating namespace file'') (\<lambda>_.
     or_return (os_Chmod (namespaceFilePath n) 0x1ED) (Wrap ''failed to chmod namespace file'') (\<lambda>_.
     file_Write (namespaceFilePath n)
       (json_encode (mappings_json (normalizeMappings uidMappings) (normalizeMappings gidMappings)))))"

definition validateNamespace ::
  "StoreNamespacer \<Rightarrow> string \<Rightarrow> IDMappingSpec list \<Rightarrow> IDMappingSpec list \<Rightarrow> (error + unit) io" where
  "validateNamespace n path uidMappings gidMappings =
     or_return (os_Open path) (Wrap ''opening namespace file'') (\<lambda>_.
     or_return (file_Read path) (Wrap (''reading namespace file '' @ path)) (\<lambda>text.
     (case Option.bind (json_decode text) (\<lambda>(j, _). mappings_of_json j) of
        None \<Rightarrow> fail (Wrap (''reading namespace file '' @ path) (Plain ''json: cannot decode''))
      | Some namespace \<Rightarrow>
          if mp_UIDMappings namespace \<noteq> Some (normalizeMappings uidMappings)
          then fail (Plain ''provided UID mappings do not match those already configured in the store'')
          else if mp_GIDMappings namespace \<noteq> Some (normalizeMappings gidMappings)
          then fail (Plain ''provided GID mappings do not match those already configured in the store'')
          else ok ())))"

definition ApplyMappings :: "StoreNamespacer \<Rightarrow> IDMappingSpec list \<Rightarrow> IDMappingSpec list \<Rightarrow> (error + unit) io" where
  "ApplyMappings n uidMappings gidMappings = do {
     st \<leftarrow> os_Stat (namespaceFilePath n);
     (case st of
        Inl err \<Rightarrow>
          if IsNotExist err then write_mappings n uidMappings gidMappings
          else validateNamespace n (namespaceFilePath n) uidMappings gidMappings
      | Inr _ \<Rightarrow> validateNamespace n (namespaceFilePath n) uidMappings gidMappings)
   }"

definition parse_namespace :: "string \<Rightarrow> error + IDMappings" where
  "parse_namespace text =
     (case Option.bind (json_unmarshal text) mappings_of_json of
        None \<Rightarrow> Inl (Wrap ''invalid namespace file'' (Plain ''json: cannot unmarshal''))
      | Some m \<Rightarrow>
          (case parseIDMappings (slice (mp_UIDMappings m)) of
             Inl err \<Rightarrow> Inl (Wrap ''invalid uid mappings format'' err)
           | Inr us \<Rightarrow>
               (case parseIDMappings (slice (mp_GIDMappings m)) of
                  Inl err \<Rightarrow> Inl (Wrap ''invalid gid mappings format'' err)
                | Inr gs \<Rightarrow> Inr \<lparr>im_UIDMappings = us, im_GIDMappings = gs\<rparr>)))"

definition Read :: "StoreNamespacer \<Rightarrow> (error + IDMappings) io" where
  "Read n =
     or_return (ioutil_ReadFile (namespaceFilePath n)) (Wrap ''reading namespace file'') (\<lambda>jsonBytes.
     State_Monad.return (parse_namespace jsonBytes))"

section \<open>Texts and mappings\<close>

definition mapping64 :: "IDMappingSpec \<Rightarrow> bool" where
  "mapping64 m \<longleftrightarrow> is_int64 (NamespaceID m) \<and> is_int64 (HostID m) \<and> is_int64 (Size m)"

lemma sscanf3_format: "mapping64 m \<Longrightarrow> sscanf3 (format_mapping m) = Some (NamespaceID m, HostID m, Size m)"
  using sscanf3_show [of "NamespaceID m" "HostID m" "Size m"] by (simp add: mapping64_def format_mapping_def)

lemma format_mapping_inj: "mapping64 m \<Longrightarrow> mapping64 m' \<Longrightarrow> format_mapping m = format_mapping m' \<longleftrightarrow> m = m'"
  using sscanf3_format [of m] sscanf3_format [of m'] by (metis (mono_tags) IDMappingSpec.equality old.unit.exhaust option.inject prod.inject)

lemma parse_format: "\<forall>m\<in>set ms. mapping64 m \<Longrightarrow> parseIDMappings (map format_mapping ms) = Inr ms"
  by (induction ms) (simp_all add: sscanf3_format)

text \<open>The recorded texts are those of the mappings in the order of their texts.\<close>

definition in_order :: "IDMappingSpec list \<Rightarrow> IDMappingSpec list" where
  "in_order ms = sort_key format_mapping ms"

lemma normalize_in_order: "normalizeMappings ms = map format_mapping (in_order ms)"
  unfolding normalizeMappings_def in_order_def by (rule properties_for_sort) simp_all

lemma parse_normalize: "\<forall>m\<in>set ms. mapping64 m \<Longrightarrow> parseIDMappings (normalizeMappings ms) = Inr (in_order ms)"
  by (simp add: normalize_in_order parse_format in_order_def)

lemma normalize_eq_iff:
  assumes "\<forall>m\<in>set ms. mapping64 m" and "\<forall>m\<in>set ms'. mapping64 m"
  shows "normalizeMappings ms = normalizeMappings ms' \<longleftrightarrow> mset ms = mset ms'"
proof
  assume "normalizeMappings ms = normalizeMappings ms'"
  then have "in_order ms = in_order ms'" using parse_normalize assms by (metis sum.inject(2))
  then show "mset ms = mset ms'" by (metis in_order_def mset_sort)
next
  assume "mset ms = mset ms'"
  then have "mset (map format_mapping ms) = mset (map format_mapping ms')" by simp
  then show "normalizeMappings ms = normalizeMappings ms'"
    unfolding normalizeMappings_def by (metis properties_for_sort sorted_sort mset_sort)
qed

lemma decode_mappings:
  "Option.bind (json_decode (json_encode (mappings_json us gs))) (\<lambda>(j, _). mappings_of_json j) =
     Some \<lparr>mp_UIDMappings = Some us, mp_GIDMappings = Some gs\<rparr>"
proof -
  have "json_ok (mappings_json us gs)" by (simp add: mappings_json_def)
  moreover have "slice_of_json (json_strings xs) = Some (Some xs)" for xs
    by (cases "json_strings xs") (simp_all add: json_strings_def comp_def)
  ultimately show ?thesis
    by (simp add: json_decode_encode mappings_json_def mappings_of_json_def) (simp add: to_lower_def)
qed

section \<open>The namespace file\<close>

lemma plain_namespace [simp]: "plain_name NamespaceFilename"
  by (simp add: plain_name_def NamespaceFilename_def)

lemma namespaceFilePath_resolve [simp]:
  "resolve (namespaceFilePath n) = meta_dir (ns_storePath n) @ [NamespaceFilename]"
  by (simp add: namespaceFilePath_def meta_dir_def)

lemma ApplyMappings_evolves [evolves_rules]:
  "meta_dir (ns_storePath n) @ [NamespaceFilename] \<in> X \<Longrightarrow> evolves (within E X) (ApplyMappings n us gs)"
  "evolves same_env (ApplyMappings n us gs)" "evolves same_locks (ApplyMappings n us gs)"
  unfolding ApplyMappings_def write_mappings_def validateNamespace_def
  by (intro evolves_rules; simp)+

lemma Read_evolves [evolves_rules]:
  "evolves (within E X) (Read n)" "evolves same_env (Read n)" "evolves same_locks (Read n)"
  unfolding Read_def by (intro evolves_rules)+

text \<open>The text of the namespace file, if it exists.\<close>

definition namespace_text :: "StoreNamespacer \<Rightarrow> fsys \<Rightarrow> string option" where
  "namespace_text n fs =
     (case fs_get fs (resolve (namespaceFilePath n)) of
        None \<Rightarrow> None
      | Some nd \<Rightarrow> (case nd_kind nd of File s \<Rightarrow> Some s | _ \<Rightarrow> None))"

lemma write_mappings_text:
  "run_state (write_mappings n us gs) w = (Inr (), w') \<Longrightarrow>
     namespace_text n (w_fs w') = Some (json_encode (mappings_json (normalizeMappings us) (normalizeMappings gs)))"
  by (auto simp: write_mappings_def os_Create_def os_Chmod_def file_Write_def syscall_def k_write_def k_update_def
      namespace_text_def fs_simps split: option.splits sum.splits prod.splits if_splits)

lemma Read_text:
  assumes "quiet w" and "namespace_text n (w_fs w) = Some s"
  shows "fst (run_state (Read n) w) = parse_namespace s"
proof -
  obtain nd where "fs_get (w_fs w) (resolve (namespaceFilePath n)) = Some nd" "nd_kind nd = File s"
    using assms(2) by (auto simp: namespace_text_def split: option.splits kind.splits)
  with assms(1) show ?thesis
    by (auto simp: Read_def ioutil_ReadFile_def syscall_def k_read_file_def quiet_def k_lookup_get)
qed

lemma validateNamespace_text:
  assumes "quiet w"
    and "namespace_text n (w_fs w) = Some (json_encode (mappings_json (normalizeMappings us) (normalizeMappings gs)))"
  shows "(fst (run_state (validateNamespace n (namespaceFilePath n) us' gs') w) = Inr ()) \<longleftrightarrow>
    normalizeMappings us = normalizeMappings us' \<and> normalizeMappings gs = normalizeMappings gs'"
proof -
  obtain nd where nd: "fs_get (w_fs w) (resolve (namespaceFilePath n)) = Some nd"
    "nd_kind nd = File (json_encode (mappings_json (normalizeMappings us) (normalizeMappings gs)))"
    using assms(2) by (auto simp: namespace_text_def split: option.splits kind.splits)
  with assms(1) show ?thesis
    by (simp add: validateNamespace_def os_Open_def file_Read_def syscall_def k_read_file_def quiet_def
        k_lookup_get decode_mappings)
qed

lemma parse_namespace_mappings:
  assumes "\<forall>m\<in>set us. mapping64 m" and "\<forall>m\<in>set gs. mapping64 m"
  shows "parse_namespace (json_encode (mappings_json (normalizeMappings us) (normalizeMappings gs))) =
    Inr \<lparr>im_UIDMappings = in_order us, im_GIDMappings = in_order gs\<rparr>"
proof -
  let ?j = "mappings_json (normalizeMappings us) (normalizeMappings gs)"
  have "json_ok ?j" by (simp add: mappings_json_def)
  then have "json_unmarshal (json_encode ?j) = Some ?j"
    by (simp add: json_unmarshal_def json_decode_encode skip_ws_def is_ws_def)
  moreover have "mappings_of_json ?j = Some \<lparr>mp_UIDMappings = Some (normalizeMappings us), mp_GIDMappings = Some (normalizeMappings gs)\<rparr>"
    using decode_mappings [of "normalizeMappings us" "normalizeMappings gs"] \<open>json_ok ?j\<close>
    by (simp add: json_decode_encode)
  ultimately show ?thesis using assms by (simp add: parse_namespace_def slice_def parse_normalize)
qed

section \<open>Properties\<close>

text \<open>C18. What was applied to a store is read back, in the order of its texts.\<close>

theorem ApplyMappings_Read:
  assumes "run_state (write_mappings n us gs) w = (Inr (), w')" and "quiet w'"
    and "\<forall>m\<in>set us. mapping64 m" and "\<forall>m\<in>set gs. mapping64 m"
  shows "fst (run_state (Read n) w') = Inr \<lparr>im_UIDMappings = in_order us, im_GIDMappings = in_order gs\<rparr> \<and>
    mset (in_order us) = mset us \<and> mset (in_order gs) = mset gs"
  using Read_text [OF assms(2) write_mappings_text [OF assms(1)]] parse_namespace_mappings [OF assms(3,4)]
  by (simp add: in_order_def)

text \<open>C19. A store with recorded mappings accepts mappings exactly when they are those recorded, up
  to their order.\<close>

theorem ApplyMappings_accepts:
  assumes "quiet w"
    and "namespace_text n (w_fs w) = Some (json_encode (mappings_json (normalizeMappings us) (normalizeMappings gs)))"
    and "\<forall>m\<in>set (us @ us' @ gs @ gs'). mapping64 m"
  shows "fst (run_state (ApplyMappings n us' gs') w) = Inr () \<longleftrightarrow> mset us' = mset us \<and> mset gs' = mset gs"
proof -
  obtain nd where "fs_get (w_fs w) (resolve (namespaceFilePath n)) = Some nd"
    using assms(2) by (auto simp: namespace_text_def split: option.splits)
  then have "run_state (ApplyMappings n us' gs') w = run_state (validateNamespace n (namespaceFilePath n) us' gs') (tick w)"
    using assms(1) by (simp add: ApplyMappings_def os_Stat_def syscall_def k_stat_def quiet_def k_lookup_get)
  moreover have "normalizeMappings us = normalizeMappings us' \<longleftrightarrow> mset us = mset us'"
    "normalizeMappings gs = normalizeMappings gs' \<longleftrightarrow> mset gs = mset gs'"
    using assms(3) by (auto intro!: normalize_eq_iff)
  ultimately show ?thesis
    using validateNamespace_text [of "tick w" n us gs us' gs'] assms(1,2) by auto
qed

definition sample_mappings :: "IDMappingSpec list" where
  "sample_mappings = [\<lparr>HostID = 1000, NamespaceID = 0, Size = 1\<rparr>, \<lparr>HostID = 100000, NamespaceID = 1, Size = 65536\<rparr>]"

lemma sample_mapping64: "\<forall>m\<in>set sample_mappings. mapping64 m" "\<forall>m\<in>set (rev sample_mappings). mapping64 m"
  by (simp_all add: sample_mappings_def mapping64_def is_int64_def)

lemma sample_namespace_written:
  "\<exists>w'. run_state (write_mappings (NewStoreNamespacer ''/s'') sample_mappings []) sample_world = (Inr (), w') \<and> quiet w'"
  by (simp add: write_mappings_def os_Create_def os_Chmod_def file_Write_def syscall_def k_open_create_def k_update_def
      k_write_def k_parent_def sample_env_def quiet_def sample_fs_def fs_get_def fs_put_def k_lookup_def
      NewStoreNamespacer_def meta_dir_def MetaDirName_def NamespaceFilename_def is_dir_def dir_node_def new_node_def
      file_node_def subvolume_node_def)

theorem ApplyMappings_Read_witness:
  "\<exists>w'. fst (run_state (Read (NewStoreNamespacer ''/s'')) w') = Inr \<lparr>im_UIDMappings = in_order sample_mappings, im_GIDMappings = []\<rparr>"
proof -
  obtain w' where "run_state (write_mappings (NewStoreNamespacer ''/s'') sample_mappings []) sample_world = (Inr (), w')" "quiet w'"
    using sample_namespace_written by blast
  from ApplyMappings_Read [OF this sample_mapping64(1)] show ?thesis by (auto simp: in_order_def)
qed

theorem ApplyMappings_accepts_witness:
  "\<exists>w'. fst (run_state (ApplyMappings (NewStoreNamespacer ''/s'') (rev sample_mappings) []) w') = Inr () \<and>
        fst (run_state (ApplyMappings (NewStoreNamespacer ''/s'') [] []) w') \<noteq> Inr ()"
proof -
  obtain w' where r: "run_state (write_mappings (NewStoreNamespacer ''/s'') sample_mappings []) sample_world = (Inr (), w')" "quiet w'"
    using sample_namespace_written by blast
  note acc = ApplyMappings_accepts [OF r(2) write_mappings_text [OF r(1)]]
  have "fst (run_state (ApplyMappings (NewStoreNamespacer ''/s'') (rev sample_mappings) []) w') = Inr ()"
    using sample_mapping64 by (subst acc) auto
  moreover have "fst (run_state (ApplyMappings (NewStoreNamespacer ''/s'') [] []) w') \<noteq> Inr ()"
    using sample_mapping64 by (subst acc) (auto simp: sample_mappings_def)
  ultimately show ?thesis by blast
qed

end
