(* ===== verification/StoreManager.thy ===== *)
theory StoreManager
  imports StoreNamespacer
begin

text \<open>
  \<open>store/manager/manager.go\<close>: making, checking and deleting a store. The main property is that a
  store whose initialisation succeeded is one that the check accepts: all its directories and its
  namespace file are there, whatever faults were survived on the way.
\<close>

section \<open>The code\<close>

definition MinStoreSizeBytes :: int where "MinStoreSizeBytes = 1024 * 1024 * 200"

record store_driver_ops =
  sd_ConfigureStore :: "string \<Rightarrow> int \<Rightarrow> int \<Rightarrow> (error + unit) io"
  sd_ValidateFileSystem :: "string \<Rightarrow> (error + unit) io"
  sd_InitFilesystem :: "string \<Rightarrow> string \<Rightarrow> (error + unit) io"

definition btrfs_store_ops :: "Driver \<Rightarrow> store_driver_ops" where
  "btrfs_store_ops d =
     \<lparr>sd_ConfigureStore = ConfigureStore d, sd_ValidateFileSystem = ValidateFileSystem d,
      sd_InitFilesystem = InitFilesystem d\<rparr>"

record Manager =
  mg_storePath :: string
  mg_imageDriver :: driver_ops
  mg_volumeDriver :: driver_ops
  mg_storeDriver :: store_driver_ops
  mg_applyMappings :: "IDMappingSpec list \<Rightarrow> IDMappingSpec list \<Rightarrow> (error + unit) io"

record InitSpec =
  in_UIDMappings :: "IDMappingSpec list"
  in_GIDMappings :: "IDMappingSpec list"
  in_StoreSizeBytes :: int

definition New :: "string \<Rightarrow> (IDMappingSpec list \<Rightarrow> IDMappingSpec list \<Rightarrow> (error + unit) io) \<Rightarrow>
    driver_ops \<Rightarrow> driver_ops \<Rightarrow> store_driver_ops \<Rightarrow> Manager" where
  "New store applyMappings volumeDriver imageDriver storeDriver =
     \<lparr>mg_storePath = store, mg_imageDriver = imageDriver, mg_volumeDriver = volumeDriver,
      mg_storeDriver = storeDriver, mg_applyMappings = applyMappings\<rparr>"

text \<open>An error of \<open>Stat\<close> counts as fine here; \<open>Mkdir\<close> will meet it again.\<close>

definition isDirectory :: "string \<Rightarrow> (error + unit) io" where
  "isDirectory requiredPath = do {
     r \<leftarrow> os_Stat requiredPath;
     (case r of
        Inr info \<Rightarrow> if \<not> is_dir info then fail (Plain (''path `'' @ requiredPath @ ''` is not a directory'')) else ok ()
      | Inl _ \<Rightarrow> ok ())
   }"

definition createInternalDirectory :: "Manager \<Rightarrow> string \<Rightarrow> int \<Rightarrow> int \<Rightarrow> (error + unit) io" where
  "createInternalDirectory m folderName ownerUID ownerGID =
     (let requiredPath = Join [mg_storePath m, folderName];
          chown = or_return (os_Chown requiredPath ownerUID ownerGID)
            (Wrap (''changing store owner to '' @ show_int ownerUID @ '':'' @ show_int ownerGID @ '' for path '' @ requiredPath))
            (\<lambda>_. ok ())
      in or_return (isDirectory requiredPath) id (\<lambda>_. do {
        mk \<leftarrow> os_Mkdir requiredPath 0x1ED;
        (case mk of
           Inr _ \<Rightarrow> chown
         | Inl err \<Rightarrow> do {
             dir \<leftarrow> os_Lstat requiredPath;
             (case dir of
                Inl _ \<Rightarrow> fail (Wrap (''making directory `'' @ requiredPath @ ''`'') err)
              | Inr info \<Rightarrow>
                  if \<not> is_dir info then fail (Wrap (''making directory `'' @ requiredPath @ ''`'') err) else chown)
           })
      }))"

fun create_directories :: "Manager \<Rightarrow> string list \<Rightarrow> int \<Rightarrow> int \<Rightarrow> (error + unit) io" where
  "create_directories m [] ownerUID ownerGID = ok ()"
| "create_directories m (f # fs) ownerUID ownerGID =
     or_return (createInternalDirectory m f ownerUID ownerGID) id (\<lambda>_. create_directories m fs ownerUID ownerGID)"

definition configureStore :: "Manager \<Rightarrow> int \<Rightarrow> int \<Rightarrow> (error + unit) io" where
  "configureStore m ownerUID ownerGID =
     or_return (isDirectory (mg_storePath m)) id (\<lambda>_.
     or_return (os_Chown (mg_storePath m) ownerUID ownerGID)
       (Wrap (''changing store owner to '' @ show_int ownerUID @ '':'' @ show_int ownerGID @ '' for path '' @ mg_storePath m)) (\<lambda>_.
     or_return (os_Chmod (mg_storePath m) 0x1C0) (Wrap (''changing store permissions '' @ mg_storePath m)) (\<lambda>_.
     or_return (create_directories m StoreFolders ownerUID ownerGID) id (\<lambda>_.
     or_return (sd_ConfigureStore (mg_storeDriver m) (mg_storePath m) ownerUID ownerGID)
       (Wrap ''running filesystem-specific configuration'') (\<lambda>_.
     ok ())))))"

text \<open>The first mapping of size one onto 0; the identity of the process when there are no mappings.\<close>

fun owner_loop :: "IDMappingSpec list \<Rightarrow> int \<Rightarrow> int" where
  "owner_loop [] owner = owner"
| "owner_loop (mapping # rest) owner =
     (if Size mapping = 1 \<and> NamespaceID mapping = 0 then HostID mapping else owner_loop rest (-1))"

definition findStoreOwner :: "IDMappingSpec list \<Rightarrow> IDMappingSpec list \<Rightarrow> (int \<times> int) io" where
  "findStoreOwner uidMappings gidMappings = do {
     uid \<leftarrow> os_Getuid;
     gid \<leftarrow> os_Getgid;
     State_Monad.return (owner_loop uidMappings uid, owner_loop gidMappings gid)
   }"

definition ensure_backing_file :: "string \<Rightarrow> (error + unit) io" where
  "ensure_backing_file backingStoreFile = do {
     st \<leftarrow> os_Stat backingStoreFile;
     (case st of
        Inl err \<Rightarrow>
          if IsNotExist err
          then or_return (ioutil_WriteFile backingStoreFile [] 0x180) (Wrap ''creating backing store file'') (\<lambda>_. ok ())
          else ok ()
      | Inr _ \<Rightarrow> ok ())
   }"

definition createAndMountFilesystem :: "Manager \<Rightarrow> int \<Rightarrow> (error + unit) io" where
  "createAndMountFilesystem m storeSizeBytes =
     (if storeSizeBytes < MinStoreSizeBytes then fail (Plain ''store size must be at least 200Mb'')
      else let backingStoreFile = mg_storePath m @ ''.backing-store'' in
        or_return (ensure_backing_file backingStoreFile) id (\<lambda>_.
        or_return (os_Truncate backingStoreFile storeSizeBytes) (Wrap ''truncating backing store file'') (\<lambda>_.
        or_return (os_MkdirAll (mg_storePath m) 0x1ED) (Wrap ''initializing store'') (\<lambda>_.
        or_return (sd_InitFilesystem (mg_storeDriver m) backingStoreFile (mg_storePath m))
          (Wrap ''initializing filesyztem'') (\<lambda>_.
        ok ())))))"

definition set_up_store :: "Manager \<Rightarrow> InitSpec \<Rightarrow> (error + unit) io" where
  "set_up_store m spec =
     or_return (os_MkdirAll (Join [mg_storePath m, MetaDirName]) 0x1ED) (Wrap ''initializing store'') (\<lambda>_.
     or_return (mg_applyMappings m (in_UIDMappings spec) (in_GIDMappings spec)) id (\<lambda>_. do {
       owner \<leftarrow> findStoreOwner (in_UIDMappings spec) (in_GIDMappings spec);
       or_return (os_Chown (mg_storePath m) (fst owner) (snd owner)) (Wrap ''chowing store'') (\<lambda>_.
       or_return (configureStore m (fst owner) (snd owner)) (Wrap ''running filesystem-specific configuration'') (\<lambda>_.
       ok ()))
     }))"

definition InitStore :: "Manager \<Rightarrow> InitSpec \<Rightarrow> (error + unit) io" where
  "InitStore m spec = do {
     st \<leftarrow> os_Stat (mg_storePath m);
     let validationPath =
       (if in_StoreSizeBytes spec > 0 then mg_storePath m
        else case st of Inr stat \<Rightarrow> if is_dir stat then mg_storePath m else Dir (mg_storePath m)
             | Inl _ \<Rightarrow> Dir (mg_storePath m));
     v \<leftarrow> sd_ValidateFileSystem (mg_storeDriver m) validationPath;
     (case v of
        Inl err \<Rightarrow>
          if in_StoreSizeBytes spec \<le> 0 then fail (Wrap ''validating store path filesystem'' err)
          else or_return (createAndMountFilesystem m (in_StoreSizeBytes spec)) id (\<lambda>_. set_up_store m spec)
      | Inr _ \<Rightarrow> set_up_store m spec)
   }"

fun none_missing :: "Manager \<Rightarrow> string list \<Rightarrow> bool io" where
  "none_missing m [] = State_Monad.return True"
| "none_missing m (f # fs) = do {
     st \<leftarrow> os_Stat (Join [mg_storePath m, f]);
     (case st of
        Inl err \<Rightarrow> if IsNotExist err then State_Monad.return False else none_missing m fs
      | Inr _ \<Rightarrow> none_missing m fs)
   }"

definition IsStoreInitialized :: "Manager \<Rightarrow> bool io" where
  "IsStoreInitialized m = do {
     present \<leftarrow> none_missing m StoreFolders;
     if \<not> present then State_Monad.return False
     else do {
       st \<leftarrow> os_Stat (Join [mg_storePath m, MetaDirName, NamespaceFilename]);
       State_Monad.return (case st of Inl err \<Rightarrow> \<not> IsNotExist err | Inr _ \<Rightarrow> True)
     }
   }"

definition manager_images :: "Manager \<Rightarrow> (error + string list) io" where
  "manager_images m =
     (let imagesPath = Join [mg_storePath m, ImageDirName] in
      or_return (ioutil_ReadDir imagesPath) (Wrap ''listing images'') (\<lambda>images.
      ok (map (\<lambda>file. Join [imagesPath, file]) images)))"

definition manager_volumes :: "Manager \<Rightarrow> (error + string list) io" where
  "manager_volumes m =
     or_return (ioutil_ReadDir (Join [mg_storePath m, VolumesDirName])) (Wrap ''listing volumes'') (\<lambda>vols. ok vols)"

fun destroy_images :: "Manager \<Rightarrow> string list \<Rightarrow> (error + unit) io" where
  "destroy_images m [] = ok ()"
| "destroy_images m (img # rest) =
     or_return (dr_DestroyImage (mg_imageDriver m) img) (Wrap (''destroying image '' @ img)) (\<lambda>_. destroy_images m rest)"

fun destroy_store_volumes :: "Manager \<Rightarrow> string list \<Rightarrow> (error + unit) io" where
  "destroy_store_volumes m [] = ok ()"
| "destroy_store_volumes m (volume # rest) =
     or_return (dr_DestroyVolume (mg_volumeDriver m) volume) (Wrap (''destroying volume '' @ volume)) (\<lambda>_. destroy_store_volumes m rest)"

definition delete_contents :: "Manager \<Rightarrow> (error + unit) io" where
  "delete_contents m =
     or_return (manager_images m) id (\<lambda>existingImages.
     or_return (destroy_images m existingImages) id (\<lambda>_.
     or_return (manager_volumes m) id (\<lambda>existingVolumes.
     or_return (destroy_store_volumes m existingVolumes) id (\<lambda>_.
     or_return (os_RemoveAll (mg_storePath m)) (Wrap ''deleting store path'') (\<lambda>_.
     ok ())))))"

definition DeleteStore :: "Manager \<Rightarrow> locksmith_ops \<Rightarrow> (error + unit) io" where
  "DeleteStore m locksmith = do {
     st \<leftarrow> os_Stat (mg_storePath m);
     (case (case st of Inl err \<Rightarrow> IsNotExist err | Inr _ \<Rightarrow> False) of
        True \<Rightarrow> ok ()
      | False \<Rightarrow> do {
          l \<leftarrow> lk_Lock locksmith GlobalLockKey;
          (case l of
             Inl err \<Rightarrow> fail (Wrap ''failed to lock - refusing to delete possibly corrupted store'' err)
           | Inr fileLock \<Rightarrow> do {
               r \<leftarrow> delete_contents m;
               _ \<leftarrow> lk_Unlock locksmith fileLock;
               State_Monad.return r
             })
        })
   }"

lemma Stat_tick: "\<exists>st. run_state (os_Stat p) w = (st, tick w)"
  by (cases w) (auto simp: os_Stat_def syscall_def k_stat_def split: option.splits sum.splits)

section \<open>Owners\<close>

lemma owner_loop_spec:
  "owner_loop ms owner =
     (case find (\<lambda>m. Size m = 1 \<and> NamespaceID m = 0) ms of
        Some m \<Rightarrow> HostID m | None \<Rightarrow> if ms = [] then owner else -1)"
  by (induction ms arbitrary: owner) auto

section \<open>Directories that stay\<close>

text \<open>The relation that setting up keeps: directories stay directories, files keep their content.\<close>

definition keeps_entries :: "world \<Rightarrow> world \<Rightarrow> bool" where
  "keeps_entries w w' \<longleftrightarrow>
     (\<forall>p n. fs_get (w_fs w) p = Some n \<longrightarrow> (\<exists>n'. fs_get (w_fs w') p = Some n' \<and> nd_kind n' = nd_kind n))"

lemma preorder_keeps [simp, evolves_rules]: "preorder_on_state keeps_entries"
  unfolding preorder_on_state_def keeps_entries_def by (metis (no_types, lifting))

lemma keeps_update:
  assumes "\<And>n. nd_kind (g n) = nd_kind n"
  shows "evolves keeps_entries (syscall mk (k_update p g))"
  by (rule evolves_syscall)
    (auto simp: keeps_entries_def k_update_def fs_simps assms split: sum.splits)

lemma keeps_calls [evolves_rules]:
  "evolves keeps_entries (os_Chown p u g)" "evolves keeps_entries (os_Chmod p m)"
  unfolding os_Chown_def os_Chmod_def by (rule keeps_update; simp)+

lemma keeps_pure [evolves_rules]:
  "evolves keeps_entries (os_Stat p)" "evolves keeps_entries (os_Lstat p)"
  unfolding os_Stat_def os_Lstat_def
  by (rule evolves_syscall; auto simp: keeps_entries_def k_stat_def split: sum.splits)+

lemma keeps_Mkdir [evolves_rules]: "evolves keeps_entries (os_Mkdir p m)"
  unfolding os_Mkdir_def
  by (rule evolves_syscall) (auto simp: keeps_entries_def k_mkdir_def fs_simps split: option.splits)

lemma createInternalDirectory_keeps: "evolves keeps_entries (createInternalDirectory m f u g)"
  unfolding createInternalDirectory_def isDirectory_def Let_def by (intro evolves_rules)

lemma create_directories_keeps: "evolves keeps_entries (create_directories m fs u g)"
  by (induction fs) (auto intro!: evolves_rules createInternalDirectory_keeps)

lemma dir_at_keeps: "keeps_entries w w' \<Longrightarrow> dir_at (w_fs w) p \<Longrightarrow> dir_at (w_fs w') p"
  by (fastforce simp: keeps_entries_def dir_at_def is_dir_def split: option.splits)

lemma Mkdir_dir: "run_state (os_Mkdir p m) w = (Inr x, w') \<Longrightarrow> dir_at (w_fs w') (resolve p)"
  by (auto simp: os_Mkdir_def syscall_def k_mkdir_def dir_at_def new_node_def is_dir_def fs_simps
      split: option.splits sum.splits prod.splits)

lemma Lstat_dir: "run_state (os_Lstat p) w = (Inr n, w') \<Longrightarrow> is_dir n \<Longrightarrow> dir_at (w_fs w') (resolve p)"
  by (auto simp: os_Lstat_def syscall_def k_stat_def dir_at_def split: option.splits sum.splits prod.splits)

lemma chown_keeps_dir:
  assumes "run_state (or_return (os_Chown p u g) h (\<lambda>_. ok ())) w = (Inr x, w')" "dir_at (w_fs w) q"
  shows "dir_at (w_fs w') q"
proof -
  have "evolves keeps_entries (or_return (os_Chown p u g) h (\<lambda>_. ok ()))" by (intro evolves_rules)
  from dir_at_keeps [OF evolvesD [OF this assms(1)] assms(2)] show ?thesis .
qed

lemma createInternalDirectory_dir:
  assumes "run_state (createInternalDirectory m f u g) w = (Inr (), w')"
  shows "dir_at (w_fs w') (resolve (Join [mg_storePath m, f]))"
proof -
  let ?p = "Join [mg_storePath m, f]"
  define chown where "chown = or_return (os_Chown ?p u g)
     (Wrap (''changing store owner to '' @ show_int u @ '':'' @ show_int g @ '' for path '' @ ?p)) (\<lambda>_. ok ())"
  have keep: "dir_at (w_fs w2) q" if "run_state chown w1 = (Inr y, w2)" "dir_at (w_fs w1) q" for w1 w2 y q
    using that unfolding chown_def by (rule chown_keeps_dir)
  from assms show ?thesis
    unfolding createInternalDirectory_def Let_def chown_def [symmetric]
    by (auto split: sum.splits prod.splits if_splits dest: Mkdir_dir Lstat_dir keep)
qed

lemma create_directories_dirs:
  "run_state (create_directories m fs u g) w = (Inr (), w') \<Longrightarrow> f \<in> set fs \<Longrightarrow>
     dir_at (w_fs w') (resolve (Join [mg_storePath m, f]))"
proof (induction fs arbitrary: w)
  case (Cons a fs)
  then obtain w1 where 1: "run_state (createInternalDirectory m a u g) w = (Inr (), w1)"
    and 2: "run_state (create_directories m fs u g) w1 = (Inr (), w')"
    by (auto split: prod.splits sum.splits)
  show ?case
  proof (cases "f \<in> set fs")
    case True
    with Cons.IH [OF 2] show ?thesis by simp
  next
    case False
    with Cons.prems have "f = a" by simp
    with dir_at_keeps [OF evolvesD [OF create_directories_keeps 2] createInternalDirectory_dir [OF 1]]
    show ?thesis by simp
  qed
qed simp

section \<open>Initialisation\<close>

lemma text_keeps: "keeps_entries w w' \<Longrightarrow> namespace_text n (w_fs w) = Some s \<Longrightarrow> namespace_text n (w_fs w') = Some s"
  by (fastforce simp: keeps_entries_def namespace_text_def split: option.splits)

text \<open>The namespace file says what was asked for.\<close>

definition records :: "StoreNamespacer \<Rightarrow> IDMappingSpec list \<Rightarrow> IDMappingSpec list \<Rightarrow> fsys \<Rightarrow> bool" where
  "records n us gs fs \<longleftrightarrow>
     (\<exists>s. namespace_text n fs = Some s \<and>
        Option.bind (json_decode s) (\<lambda>(j, _). mappings_of_json j) =
          Some \<lparr>mp_UIDMappings = Some (normalizeMappings us), mp_GIDMappings = Some (normalizeMappings gs)\<rparr>)"

lemma records_keeps: "keeps_entries w w' \<Longrightarrow> records n us gs (w_fs w) \<Longrightarrow> records n us gs (w_fs w')"
  unfolding records_def using text_keeps by blast

lemma validateNamespace_records:
  assumes "run_state (validateNamespace n (namespaceFilePath n) us gs) w = (Inr (), w')"
  shows "records n us gs (w_fs w')"
proof -
  obtain w1 s w2 where 1: "run_state (file_Read (namespaceFilePath n)) w1 = (Inr s, w2)"
    and 2: "run_state (case Option.bind (json_decode s) (\<lambda>(j, _). mappings_of_json j) of
        None \<Rightarrow> fail (Wrap (''reading namespace file '' @ namespaceFilePath n) (Plain ''json: cannot decode''))
      | Some namespace \<Rightarrow>
          if mp_UIDMappings namespace \<noteq> Some (normalizeMappings us)
          then fail (Plain ''provided UID mappings do not match those already configured in the store'')
          else if mp_GIDMappings namespace \<noteq> Some (normalizeMappings gs)
          then fail (Plain ''provided GID mappings do not match those already configured in the store'')
          else ok ()) w2 = (Inr (), w')"
    using assms unfolding validateNamespace_def by (auto split: prod.splits sum.splits)
  from 1 have "namespace_text n (w_fs w2) = Some s"
    by (auto simp: file_Read_def syscall_def k_read_file_def namespace_text_def
        split: option.splits sum.splits prod.splits kind.splits)
  moreover from 2 obtain m where "Option.bind (json_decode s) (\<lambda>(j, _). mappings_of_json j) = Some m"
      "mp_UIDMappings m = Some (normalizeMappings us)" "mp_GIDMappings m = Some (normalizeMappings gs)" "w' = w2"
    by (cases "Option.bind (json_decode s) (\<lambda>(j, _). mappings_of_json j)") (auto split: if_splits)
  ultimately show ?thesis unfolding records_def by auto
qed

lemma ApplyMappings_records:
  assumes "run_state (ApplyMappings n us gs) w = (Inr (), w')"
  shows "records n us gs (w_fs w')"
proof -
  obtain w1 where "run_state (write_mappings n us gs) w1 = (Inr (), w') \<or>
      run_state (validateNamespace n (namespaceFilePath n) us gs) w1 = (Inr (), w')"
    using assms unfolding ApplyMappings_def by (auto split: prod.splits sum.splits if_splits)
  then show ?thesis
    using validateNamespace_records write_mappings_text decode_mappings unfolding records_def by blast
qed

lemma configureStore_keeps:
  "mg_storeDriver m = btrfs_store_ops d \<Longrightarrow> evolves keeps_entries (configureStore m u g)"
  unfolding configureStore_def isDirectory_def
  by (intro evolves_rules create_directories_keeps) (simp add: btrfs_store_ops_def ConfigureStore_def evolves_ok)

lemma configureStore_dirs:
  assumes "mg_storeDriver m = btrfs_store_ops d" and "run_state (configureStore m u g) w = (Inr (), w')"
    and "f \<in> set StoreFolders"
  shows "dir_at (w_fs w') (resolve (Join [mg_storePath m, f]))"
proof -
  obtain w1 where "run_state (create_directories m StoreFolders u g) w1 = (Inr (), w')"
    using assms(1,2) unfolding configureStore_def
    by (auto simp: btrfs_store_ops_def ConfigureStore_def split: prod.splits sum.splits)
  with assms(3) show ?thesis by (rule create_directories_dirs [rotated])
qed

lemma findStoreOwner_run [simp]: "run_state (findStoreOwner us gs) w =
    ((owner_loop us (e_uid (w_env w)), owner_loop gs (e_gid (w_env w))), w)"
  by (simp add: findStoreOwner_def os_Getuid_def os_Getgid_def)

lemma set_up_store_result:
  assumes "mg_storeDriver m = btrfs_store_ops d" and "mg_applyMappings m = ApplyMappings n"
    and "run_state (set_up_store m spec) w = (Inr (), w')"
  shows "(\<forall>f\<in>set StoreFolders. dir_at (w_fs w') (resolve (Join [mg_storePath m, f]))) \<and>
    records n (in_UIDMappings spec) (in_GIDMappings spec) (w_fs w')"
proof -
  obtain w1 w2 u g w3 where 1: "run_state (ApplyMappings n (in_UIDMappings spec) (in_GIDMappings spec)) w1 = (Inr (), w2)"
    and 2: "run_state (os_Chown (mg_storePath m) u g) w2 = (Inr (), w3)"
    and 3: "run_state (configureStore m u g) w3 = (Inr (), w')"
    using assms(2,3) unfolding set_up_store_def by (auto split: prod.splits sum.splits)
  have "keeps_entries w2 w3" using keeps_calls(1) 2 by (rule evolvesD)
  moreover have "keeps_entries w3 w'" using configureStore_keeps [OF assms(1)] 3 by (rule evolvesD)
  moreover have "records n (in_UIDMappings spec) (in_GIDMappings spec) (w_fs w2)" using 1 by (rule ApplyMappings_records)
  ultimately have "records n (in_UIDMappings spec) (in_GIDMappings spec) (w_fs w')" using records_keeps by blast
  with configureStore_dirs [OF assms(1) 3] show ?thesis by blast
qed

lemma InitStore_result:
  assumes "mg_storeDriver m = btrfs_store_ops d" and "mg_applyMappings m = ApplyMappings n"
    and "run_state (InitStore m spec) w = (Inr (), w')"
  shows "(\<forall>f\<in>set StoreFolders. dir_at (w_fs w') (resolve (Join [mg_storePath m, f]))) \<and>
    records n (in_UIDMappings spec) (in_GIDMappings spec) (w_fs w')"
proof -
  obtain w1 where "run_state (set_up_store m spec) w1 = (Inr (), w')"
    using assms(3) unfolding InitStore_def Let_def by (auto split: prod.splits sum.splits if_splits)
  with assms(1,2) show ?thesis by (rule set_up_store_result)
qed

section \<open>The check\<close>

lemma Stat_present:
  "quiet w \<Longrightarrow> fs_get (w_fs w) (resolve p) = Some n \<Longrightarrow> run_state (os_Stat p) w = (Inr n, tick w)"
  by (simp add: os_Stat_def syscall_def k_stat_def quiet_def k_lookup_get)

lemma none_missing_present:
  "quiet w \<Longrightarrow> \<forall>f\<in>set fs. dir_at (w_fs w) (resolve (Join [mg_storePath m, f])) \<Longrightarrow>
     \<exists>w'. run_state (none_missing m fs) w = (True, w') \<and> w_fs w' = w_fs w \<and> quiet w'"
proof (induction fs arbitrary: w)
  case (Cons f fs)
  then obtain n where "fs_get (w_fs w) (resolve (Join [mg_storePath m, f])) = Some n"
    by (auto simp: dir_at_def split: option.splits)
  with Cons.prems have "run_state (none_missing m (f # fs)) w = run_state (none_missing m fs) (tick w)"
    by (simp add: Stat_present)
  with Cons.IH [of "tick w"] Cons.prems show ?case by simp
qed simp

section \<open>Properties\<close>

lemma IsStoreInitialized_present:
  assumes "quiet v" and "\<forall>f\<in>set StoreFolders. dir_at (w_fs v) (resolve (Join [mg_storePath m, f]))"
    and "records n us gs (w_fs v)" and "ns_storePath n = mg_storePath m"
  shows "fst (run_state (IsStoreInitialized m) v) = True"
proof -
  obtain v' where v': "run_state (none_missing m StoreFolders) v = (True, v')" "w_fs v' = w_fs v" "quiet v'"
    using none_missing_present [OF assms(1,2)] by blast
  obtain nd where "fs_get (w_fs v) (resolve (namespaceFilePath n)) = Some nd"
    using assms(3) by (auto simp: records_def namespace_text_def split: option.splits)
  then have "fs_get (w_fs v') (resolve (Join [mg_storePath m, MetaDirName, NamespaceFilename])) = Some nd"
    using v'(2) assms(4) by (simp add: namespaceFilePath_def)
  with v' show ?thesis by (simp add: IsStoreInitialized_def Stat_present)
qed

text \<open>C20. Whatever calls failed and were survived, a store whose initialisation succeeded has all its
  directories, records the mappings it was initialised with, and passes the check.\<close>

theorem InitStore_ready:
  assumes "run_state (InitStore m spec) w = (Inr (), w')"
    and "mg_storeDriver m = btrfs_store_ops d" and "mg_applyMappings m = ApplyMappings n"
    and "ns_storePath n = mg_storePath m" and "quiet v" and "w_fs v = w_fs w'"
  shows "(\<forall>f\<in>set StoreFolders. dir_at (w_fs w') (resolve (Join [mg_storePath m, f]))) \<and>
    records n (in_UIDMappings spec) (in_GIDMappings spec) (w_fs w') \<and>
    fst (run_state (IsStoreInitialized m) v) = True"
proof -
  note made = InitStore_result [OF assms(2,3,1)]
  then have "fst (run_state (IsStoreInitialized m) v) = True"
    by (intro IsStoreInitialized_present [OF assms(5) _ _ assms(4)]) (auto simp: assms(6))
  with made show ?thesis by blast
qed

definition fresh_world :: world where
  "fresh_world = sample_world\<lparr>w_fs := [([], dir_node), ([''s''], dir_node), ([''proc''], dir_node), ([''proc'', ''mounts''], file_node [])]\<rparr>"

definition sample_manager :: Manager where
  "sample_manager = New ''/s'' (ApplyMappings (NewStoreNamespacer ''/s'')) (btrfs_ops sample_driver) (btrfs_ops sample_driver) (btrfs_store_ops sample_driver)"

definition sample_init :: InitSpec where
  "sample_init = \<lparr>in_UIDMappings = [\<lparr>HostID = 1000, NamespaceID = 0, Size = 1\<rparr>], in_GIDMappings = [], in_StoreSizeBytes = 0\<rparr>"

lemma sample_InitStore: "fst (run_state (InitStore sample_manager sample_init) fresh_world) = Inr ()"
  by code_simp

theorem InitStore_ready_witness:
  "\<exists>w'. run_state (InitStore sample_manager sample_init) fresh_world = (Inr (), w') \<and>
     fst (run_state (IsStoreInitialized sample_manager) (fresh_world\<lparr>w_fs := w_fs w'\<rparr>)) = True"
proof -
  obtain w' where w': "run_state (InitStore sample_manager sample_init) fresh_world = (Inr (), w')"
    using sample_InitStore by (metis prod.collapse)
  have "fst (run_state (IsStoreInitialized sample_manager) (fresh_world\<lparr>w_fs := w_fs w'\<rparr>)) = True"
    using InitStore_ready [OF w', of sample_driver "NewStoreNamespacer ''/s''" "fresh_world\<lparr>w_fs := w_fs w'\<rparr>"]
    by (simp add: sample_manager_def New_def NewStoreNamespacer_def fresh_world_def)
  with w' show ?thesis by blast
qed

text \<open>C21. A store file smaller than 200 MB is refused before anything was written, when the store path
  is not on btrfs already.\<close>

theorem InitStore_small:
  assumes "run_state (InitStore m spec) w = (r, w')" and "mg_storeDriver m = btrfs_store_ops d"
    and "0 < in_StoreSizeBytes spec" and "in_StoreSizeBytes spec < MinStoreSizeBytes"
    and "st_type (e_statfs (w_env w) (w_fs w) (resolve (mg_storePath m))) \<noteq> BtrfsType"
  shows "r = Inl (Plain ''store size must be at least 200Mb'') \<and> fs_get (w_fs w') = fs_get (w_fs w)"
proof -
  obtain st w1 where 1: "run_state (os_Stat (mg_storePath m)) w = (st, w1)" by fastforce
  then have same: "w_env w1 = w_env w" "w_fs w1 = w_fs w"
    by (auto simp: os_Stat_def syscall_def k_stat_def split: option.splits sum.splits)
  obtain v w2 where 2: "run_state (ValidateFileSystem d (mg_storePath m)) w1 = (v, w2)" by fastforce
  have "v \<noteq> Inr x" for x
  proof
    assume "v = Inr x"
    with 2 have "run_state (CheckFSPath (mg_storePath m) ''btrfs'' [''user_subvol_rm_allowed'']) w1 = (Inr (), w2)"
      by (auto simp: ValidateFileSystem_def split: prod.splits sum.splits)
    from CheckFSPath_type [OF this] assms(5) same show False by (simp add: filesystemCode_def)
  qed
  then obtain e where v: "v = Inl e" by (cases v) auto
  from assms 1 2 v have "r = Inl (Plain ''store size must be at least 200Mb'')" "w' = w2"
    by (simp_all add: InitStore_def btrfs_store_ops_def createAndMountFilesystem_def)
  moreover have "within (\<lambda>_. True) {} w1 w2"
    by (rule evolvesD [OF _ 2]) (unfold ValidateFileSystem_def, intro evolves_rules)
  ultimately show ?thesis using same by (auto simp: within_def)
qed

theorem InitStore_small_witness:
  "fst (run_state (InitStore sample_manager (sample_init\<lparr>in_StoreSizeBytes := 1024\<rparr>))
     (fresh_world\<lparr>w_env := sample_env\<lparr>e_statfs := (\<lambda>_ _. \<lparr>st_type = 0, st_bsize = 1, st_blocks = 1, st_bfree = 1\<rparr>)\<rparr>\<rparr>)) =
   Inl (Plain ''store size must be at least 200Mb'')" (is "fst (run_state ?m ?w) = _")
proof -
  obtain r w' where run: "run_state ?m ?w = (r, w')" by fastforce
  from InitStore_small [OF this, of sample_driver] have "r = Inl (Plain ''store size must be at least 200Mb'')"
    by (simp add: sample_manager_def New_def sample_init_def MinStoreSizeBytes_def BtrfsType_def)
  with run show ?thesis by simp
qed

text \<open>C22. A deletion that reports success has deleted everything of the store, whatever failed on the
  way, if its first look at the store path was answered and found it.\<close>

theorem DeleteStore_gone:
  assumes "run_state (DeleteStore m (file_locksmith l)) w = (Inr (), w')"
    and "e_faults (w_env w) (w_clock w) = None" and "fs_get (w_fs w) (resolve (mg_storePath m)) \<noteq> None"
    and "prefix (resolve (mg_storePath m)) q"
  shows "fs_get (w_fs w') q = None"
proof -
  obtain nd where "run_state (os_Stat (mg_storePath m)) w = (Inr nd, tick w)"
    using assms(2,3) by (auto simp: os_Stat_def syscall_def k_stat_def k_lookup_get)
  with assms(1) obtain w1 fd w2 w3 u where d: "run_state (delete_contents m) w1 = (Inr (), w3)"
    and u: "run_state (Unlock l fd) w3 = (u, w')"
    by (auto simp: DeleteStore_def file_locksmith_def split: prod.splits sum.splits)
  from d obtain w2 where "run_state (os_RemoveAll (mg_storePath m)) w2 = (Inr (), w3)"
    by (auto simp: delete_contents_def split: prod.splits sum.splits)
  then have "w_fs w3 = fs_rm_tree (resolve (mg_storePath m)) (w_fs w2)"
    by (auto simp: os_RemoveAll_def syscall_def k_remove_all_def split: option.splits sum.splits)
  with assms(4) have "fs_get (w_fs w3) q = None" by (simp add: fs_simps)
  moreover have "within (\<lambda>_. True) {} w3 w'" using Unlock_frame u by (rule evolvesD)
  ultimately show ?thesis by (auto simp: within_def)
qed

definition empty_store :: world where
  "empty_store = sample_world\<lparr>w_fs := [([], dir_node), ([''s''], dir_node), ([''s'', ''images''], dir_node),
     ([''s'', ''volumes''], dir_node), ([''s'', ''locks''], dir_node)]\<rparr>"

lemma sample_DeleteStore:
  "fst (run_state (DeleteStore sample_manager (file_locksmith (NewExclusiveFileSystem ''/s''))) empty_store) = Inr ()"
  by code_simp

theorem DeleteStore_gone_witness:
  "fs_get (w_fs (snd (run_state (DeleteStore sample_manager (file_locksmith (NewExclusiveFileSystem ''/s''))) empty_store)))
     [''s'', ''images''] = None"
  by (rule DeleteStore_gone [where w = empty_store and m = sample_manager and l = "NewExclusiveFileSystem ''/s''"])
    (use sample_DeleteStore in \<open>simp_all add: prod_eq_iff empty_store_def sample_env_def sample_manager_def New_def fs_get_def\<close>)

text \<open>C23. Without the store's lock nothing is deleted.\<close>

theorem DeleteStore_needs_lock:
  assumes "run_state (Lock l GlobalLockKey) (tick w) = (Inl e, w1)"
    and "run_state (DeleteStore m (file_locksmith l)) w = (r, w')"
    and "q \<notin> lock_files l"
  shows "fs_get (w_fs w') q = fs_get (w_fs w) q"
proof -
  obtain st where st: "run_state (os_Stat (mg_storePath m)) w = (st, tick w)"
    using Stat_tick by blast
  with assms(1,2) have "w' = tick w \<or> w' = w1"
    by (auto simp: DeleteStore_def file_locksmith_def split: bool.splits sum.splits)
  moreover have "within (\<lambda>_. True) (lock_files l) (tick w) w1"
    using Lock_frame [OF subset_refl] assms(1) by (rule evolvesD)
  ultimately show ?thesis using assms(3) by (auto simp: within_def)
qed

theorem DeleteStore_needs_lock_witness:
  "fs_get (w_fs (snd (run_state (DeleteStore sample_manager (file_locksmith (NewExclusiveFileSystem ''/s''))) fresh_world)))
     [''proc'', ''mounts''] = fs_get (w_fs fresh_world) [''proc'', ''mounts'']"
proof -
  have l: "isl (fst (run_state (Lock (NewExclusiveFileSystem ''/s'') GlobalLockKey) (tick fresh_world)))"
    by code_simp
  then obtain e w1 where "run_state (Lock (NewExclusiveFileSystem ''/s'') GlobalLockKey) (tick fresh_world) = (Inl e, w1)"
    by (metis isl_def prod.collapse)
  moreover have "[''proc'', ''mounts''] \<notin> lock_files (NewExclusiveFileSystem ''/s'')"
    by (simp add: lock_files_def NewExclusiveFileSystem_def)
  ultimately show ?thesis
    by (intro DeleteStore_needs_lock [OF _ prod.collapse [symmetric]])
qed

end
