(* ===== verification/Chroot.thy ===== *)
theory Chroot
  imports Go_Laws
begin

text \<open>
  The files as a process sees them that changes its root directory: names and inodes apart, so
  that hard links share content, symbolic links that the kernel follows, and a root and a working
  directory of the process, from which paths are walked. The unpacker of layers runs in such a
  process (theory \<open>Untar\<close>).

  The main law is \<open>contained\<close>: once root and working directory are below \<open>R\<close>, no call, whatever
  path it is given and whatever symbolic links it meets, changes a name that is not below \<open>R\<close>,
  nor an inode with such a name.
\<close>

section \<open>State\<close>

record tree =
  t_names :: "(path \<times> nat) list"
  t_inodes :: "(nat \<times> node) list"
  t_next :: nat
  t_root :: path
  t_cwd :: path
  t_files :: "nat list"            \<comment> \<open>the inodes of the open files\<close>
  t_clock :: nat
  t_faults :: "nat \<Rightarrow> errno option"
  t_uid :: int
  t_umask :: filemode
  t_printed :: "string list"

type_synonym 'a tio = "(tree, 'a) state"

definition ino :: "tree \<Rightarrow> path \<Rightarrow> nat option" where
  "ino t p = map_of (t_names t) p"

definition inode :: "tree \<Rightarrow> nat \<Rightarrow> node option" where
  "inode t i = map_of (t_inodes t) i"

definition entry_at :: "tree \<Rightarrow> path \<Rightarrow> node option" where
  "entry_at t p = Option.bind (ino t p) (inode t)"

definition set_name :: "path \<Rightarrow> nat \<Rightarrow> tree \<Rightarrow> tree" where
  "set_name p i t = t\<lparr>t_names := (p, i) # filter (\<lambda>(q, _). q \<noteq> p) (t_names t)\<rparr>"

definition drop_names :: "(path \<Rightarrow> bool) \<Rightarrow> tree \<Rightarrow> tree" where
  "drop_names P t = t\<lparr>t_names := filter (\<lambda>(q, _). \<not> P q) (t_names t)\<rparr>"

definition set_inode :: "nat \<Rightarrow> node \<Rightarrow> tree \<Rightarrow> tree" where
  "set_inode i n t = t\<lparr>t_inodes := (i, n) # filter (\<lambda>(j, _). j \<noteq> i) (t_inodes t)\<rparr>"

definition new_entry :: "path \<Rightarrow> node \<Rightarrow> tree \<Rightarrow> tree" where
  "new_entry p n t = (set_name p (t_next t) (set_inode (t_next t) n t))\<lparr>t_next := Suc (t_next t)\<rparr>"

definition t_new_node :: "tree \<Rightarrow> kind \<Rightarrow> filemode \<Rightarrow> node" where
  "t_new_node t k m = \<lparr>nd_kind = k, nd_mode = m AND NOT (t_umask t), nd_uid = t_uid t, nd_gid = 0, nd_mtime = 0\<rparr>"

definition tcall :: "(errno \<Rightarrow> error) \<Rightarrow> (tree \<Rightarrow> errno + 'a \<times> tree) \<Rightarrow> (error + 'a) tio" where
  "tcall mk f = State (\<lambda>t0.
     let t = t0\<lparr>t_clock := Suc (t_clock t0)\<rparr> in
     (case t_faults t0 (t_clock t0) of
        Some e \<Rightarrow> (Inl (mk e), t)
      | None \<Rightarrow> (case f t of Inl e \<Rightarrow> (Inl (mk e), t) | Inr (x, t') \<Rightarrow> (Inr x, t'))))"

section \<open>Walking a path\<close>

definition path_comps :: "string \<Rightarrow> string list" where
  "path_comps s = filter (\<lambda>c. c \<noteq> [] \<and> c \<noteq> ''.'') (split_on (CHR ''/'') s)"

text \<open>
  \<open>..\<close> stays at the root. A symbolic link is followed from the directory it is in, an absolute
  one from the root, at most \<open>n\<close> of them; the last component only if \<open>follow\<close> holds. The last
  component need not exist.
\<close>

function walk :: "nat \<Rightarrow> tree \<Rightarrow> bool \<Rightarrow> path \<Rightarrow> string list \<Rightarrow> errno + path" where
  "walk n t follow cur [] = Inr cur"
| "walk n t follow cur (c # cs) =
     (if c = ''..'' then walk n t follow (if cur = t_root t then cur else butlast cur) cs
      else (case entry_at t (cur @ [c]) of
              None \<Rightarrow> if cs = [] then Inr (cur @ [c]) else Inl ENOENT
            | Some nd \<Rightarrow>
                (case nd_kind nd of
                   Symlink target \<Rightarrow>
                     if cs = [] \<and> \<not> follow then Inr (cur @ [c])
                     else if n = 0 then Inl ELOOP
                     else walk (n - 1) t follow (if rooted target then t_root t else cur) (path_comps target @ cs)
                 | File _ \<Rightarrow> if cs = [] then Inr (cur @ [c]) else Inl ENOTDIR
                 | _ \<Rightarrow> walk n t follow (cur @ [c]) cs)))"
  by pat_completeness auto
termination
  by (relation "measures [\<lambda>(n, _, _, _, _). n, \<lambda>(_, _, _, _, cs). length cs]") auto

definition max_symlinks :: nat where "max_symlinks = 40"

definition t_walk :: "tree \<Rightarrow> bool \<Rightarrow> string \<Rightarrow> errno + path" where
  "t_walk t follow s =
     (if s = [] then Inl ENOENT
      else walk max_symlinks t follow (if rooted s then t_root t else t_cwd t) (path_comps s))"

text \<open>A path that ends in a name can be removed; one that ends in \<open>..\<close> or is the root cannot.\<close>

definition ends_in_name :: "string \<Rightarrow> bool" where
  "ends_in_name s \<longleftrightarrow> path_comps s \<noteq> [] \<and> last (path_comps s) \<noteq> ''..''"

section \<open>Calls\<close>

definition t_stat :: "bool \<Rightarrow> string \<Rightarrow> tree \<Rightarrow> errno + (path \<times> nat \<times> node)" where
  "t_stat follow s t =
     (case t_walk t follow s of
        Inl e \<Rightarrow> Inl e
      | Inr p \<Rightarrow> (case ino t p of
          None \<Rightarrow> Inl ENOENT
        | Some i \<Rightarrow> (case inode t i of None \<Rightarrow> Inl ENOENT | Some nd \<Rightarrow> Inr (p, i, nd))))"

definition t_Stat :: "string \<Rightarrow> (error + node) tio" where
  "t_Stat s = tcall (PathError ''stat'' s) (\<lambda>t. map_sum id (\<lambda>(_, _, nd). (nd, t)) (t_stat True s t))"

definition t_Lstat :: "string \<Rightarrow> (error + node) tio" where
  "t_Lstat s = tcall (PathError ''lstat'' s) (\<lambda>t. map_sum id (\<lambda>(_, _, nd). (nd, t)) (t_stat False s t))"

text \<open>A new entry where there is none; a last component that is a symbolic link counts as one.\<close>

definition t_create :: "string \<Rightarrow> (tree \<Rightarrow> node) \<Rightarrow> tree \<Rightarrow> errno + unit \<times> tree" where
  "t_create s mk t =
     (case t_walk t False s of
        Inl e \<Rightarrow> Inl e
      | Inr p \<Rightarrow> if entry_at t p \<noteq> None then Inl EEXIST else Inr ((), new_entry p (mk t) t))"

definition t_Mkdir :: "string \<Rightarrow> filemode \<Rightarrow> (error + unit) tio" where
  "t_Mkdir s m = tcall (PathError ''mkdir'' s) (t_create s (\<lambda>t. t_new_node t Directory m))"

definition t_Symlink :: "string \<Rightarrow> string \<Rightarrow> (error + unit) tio" where
  "t_Symlink target s = tcall (LinkError ''symlink'' target s) (\<lambda>t.
     if target = [] then Inl ENOENT else t_create s (\<lambda>t. (t_new_node t (Symlink target) 0x1FF)\<lparr>nd_mode := 0x1FF\<rparr>) t)"

definition t_Chroot :: "string \<Rightarrow> (error + unit) tio" where
  "t_Chroot s = tcall SysError (\<lambda>t.
     (case t_stat True s t of
        Inl e \<Rightarrow> Inl e
      | Inr (p, _, nd) \<Rightarrow> if is_dir nd then Inr ((), t\<lparr>t_root := p\<rparr>) else Inl ENOTDIR))"

definition t_Chdir :: "string \<Rightarrow> (error + unit) tio" where
  "t_Chdir s = tcall (PathError ''chdir'' s) (\<lambda>t.
     (case t_stat True s t of
        Inl e \<Rightarrow> Inl e
      | Inr (p, _, nd) \<Rightarrow> if is_dir nd then Inr ((), t\<lparr>t_cwd := p\<rparr>) else Inl ENOTDIR))"

definition t_children :: "path \<Rightarrow> tree \<Rightarrow> string list" where
  "t_children p t = sort (remdups (map (last \<circ> fst) (filter (\<lambda>(q, _). q \<noteq> [] \<and> butlast q = p) (t_names t))))"

definition t_ReadDir :: "string \<Rightarrow> (error + string list) tio" where
  "t_ReadDir s = tcall (PathError ''open'' s) (\<lambda>t.
     (case t_stat True s t of
        Inl e \<Rightarrow> Inl e
      | Inr (p, _, nd) \<Rightarrow> if is_dir nd then Inr (t_children p t, t) else Inl ENOTDIR))"

text \<open>
  \<open>os.RemoveAll\<close>: what is missing counts as removed. A path that does not end in a name loses
  everything below it, and then the directory itself cannot be removed.
\<close>

definition t_remove_all :: "string \<Rightarrow> tree \<Rightarrow> errno + errno option \<times> tree" where
  "t_remove_all s t =
     (case t_walk t False s of
        Inl e \<Rightarrow> if e = ENOENT \<or> e = ENOTDIR then Inr (None, t) else Inl e
      | Inr p \<Rightarrow> if ends_in_name s then Inr (None, drop_names (prefix p) t)
                 else Inr (Some EINVAL, drop_names (strict_prefix p) t))"

definition t_RemoveAll :: "string \<Rightarrow> (error + unit) tio" where
  "t_RemoveAll s =
     or_return (tcall (PathError ''unlinkat'' s) (t_remove_all s)) id (\<lambda>r.
     (case r of None \<Rightarrow> ok () | Some e \<Rightarrow> fail (PathError ''unlinkat'' s e)))"

definition t_Remove :: "string \<Rightarrow> (error + unit) tio" where
  "t_Remove s = tcall (PathError ''remove'' s) (\<lambda>t.
     (case t_stat False s t of
        Inl e \<Rightarrow> Inl e
      | Inr (p, _, nd) \<Rightarrow>
          if \<not> ends_in_name s then Inl EINVAL
          else if is_dir nd \<and> t_children p t \<noteq> [] then Inl ENOTEMPTY
          else Inr ((), drop_names (\<lambda>q. q = p) t)))"

definition t_Link :: "string \<Rightarrow> string \<Rightarrow> (error + unit) tio" where
  "t_Link old new = tcall (LinkError ''link'' old new) (\<lambda>t.
     (case t_stat False old t of
        Inl e \<Rightarrow> Inl e
      | Inr (_, i, nd) \<Rightarrow>
          (case t_walk t False new of
             Inl e \<Rightarrow> Inl e
           | Inr q \<Rightarrow> if entry_at t q \<noteq> None then Inl EEXIST
                      else if is_dir nd then Inl EPERM
                      else Inr ((), set_name q i t))))"

text \<open>\<open>O_CREATE | O_TRUNC | O_WRONLY\<close>; the handle is the inode.\<close>

definition t_OpenTrunc :: "string \<Rightarrow> filemode \<Rightarrow> (error + nat) tio" where
  "t_OpenTrunc s m = tcall (PathError ''open'' s) (\<lambda>t.
     (case t_walk t True s of
        Inl e \<Rightarrow> Inl e
      | Inr p \<Rightarrow>
          (case ino t p of
             Some i \<Rightarrow>
               (case inode t i of
                  Some nd \<Rightarrow> (case nd_kind nd of
                      File _ \<Rightarrow> Inr (i, (set_inode i (nd\<lparr>nd_kind := File []\<rparr>) t)\<lparr>t_files := i # t_files t\<rparr>)
                    | Symlink _ \<Rightarrow> Inl ELOOP
                    | _ \<Rightarrow> Inl EISDIR)
                | None \<Rightarrow> Inl ENOENT)
           | None \<Rightarrow> Inr (t_next t, (new_entry p (t_new_node t (File []) m) t)\<lparr>t_files := t_next t # t_files t\<rparr>))))"

definition t_Write :: "nat \<Rightarrow> string \<Rightarrow> (error + unit) tio" where
  "t_Write i s = tcall SysError (\<lambda>t.
     (case inode t i of
        Some nd \<Rightarrow> (case nd_kind nd of
            File c \<Rightarrow> if i \<in> set (t_files t) then Inr ((), set_inode i (nd\<lparr>nd_kind := File (c @ s)\<rparr>) t) else Inl EINVAL
          | _ \<Rightarrow> Inl EINVAL)
      | None \<Rightarrow> Inl EINVAL))"

definition t_Close :: "nat \<Rightarrow> (error + unit) tio" where
  "t_Close i = tcall SysError (\<lambda>t. Inr ((), t\<lparr>t_files := remove1 i (t_files t)\<rparr>))"

definition t_update :: "bool \<Rightarrow> string \<Rightarrow> (node \<Rightarrow> node) \<Rightarrow> tree \<Rightarrow> errno + unit \<times> tree" where
  "t_update follow s g t =
     (case t_stat follow s t of Inl e \<Rightarrow> Inl e | Inr (_, i, nd) \<Rightarrow> Inr ((), set_inode i (g nd) t))"

text \<open>Changing the owner of a file takes its set-user-ID bit, and an executable's set-group-ID bit.\<close>

definition mode_setgid :: filemode where "mode_setgid = push_bit 22 1"

definition chowned_mode :: "node \<Rightarrow> filemode" where
  "chowned_mode nd =
     (case nd_kind nd of
        File _ \<Rightarrow> (let m = nd_mode nd AND NOT mode_setuid in
                   if nd_mode nd AND 0x8 \<noteq> 0 then m AND NOT mode_setgid else m)
      | _ \<Rightarrow> nd_mode nd)"

definition chowned :: "int \<Rightarrow> int \<Rightarrow> node \<Rightarrow> node" where
  "chowned u g nd = nd\<lparr>nd_mode := chowned_mode nd, nd_uid := u, nd_gid := g\<rparr>"

definition t_Chown :: "string \<Rightarrow> int \<Rightarrow> int \<Rightarrow> (error + unit) tio" where
  "t_Chown s u g = tcall (PathError ''chown'' s) (t_update True s (chowned u g))"

definition t_Lchown :: "string \<Rightarrow> int \<Rightarrow> int \<Rightarrow> (error + unit) tio" where
  "t_Lchown s u g = tcall (PathError ''lchown'' s) (t_update False s (chowned u g))"

definition t_Chmod :: "string \<Rightarrow> filemode \<Rightarrow> (error + unit) tio" where
  "t_Chmod s m = tcall (PathError ''chmod'' s) (t_update True s (\<lambda>nd. nd\<lparr>nd_mode := m\<rparr>))"

text \<open>\<open>utimensat\<close> with \<open>AT_SYMLINK_NOFOLLOW\<close>, and \<open>os.Chtimes\<close>, which follows.\<close>

definition t_utimensat :: "string \<Rightarrow> int \<Rightarrow> (error + unit) tio" where
  "t_utimensat s mt = tcall SysError (t_update False s (\<lambda>nd. nd\<lparr>nd_mtime := mt\<rparr>))"

definition t_Chtimes :: "string \<Rightarrow> int \<Rightarrow> (error + unit) tio" where
  "t_Chtimes s mt = tcall (PathError ''chtimes'' s) (t_update True s (\<lambda>nd. nd\<lparr>nd_mtime := mt\<rparr>))"

definition t_Getuid :: "int tio" where
  "t_Getuid = gets t_uid"

definition t_print :: "string \<Rightarrow> unit tio" where
  "t_print s = modify (\<lambda>t. t\<lparr>t_printed := t_printed t @ [s]\<rparr>)"

section \<open>Containment\<close>

definition confined :: "path \<Rightarrow> tree \<Rightarrow> bool" where
  "confined R t \<longleftrightarrow>
     t_root t = R \<and> prefix R (t_cwd t) \<and>
     (\<forall>p i. ino t p = Some i \<longrightarrow> i < t_next t) \<and>
     (\<forall>p q i. ino t p = Some i \<longrightarrow> ino t q = Some i \<longrightarrow> prefix R p \<longrightarrow> prefix R q) \<and>
     (\<forall>p i. i \<in> set (t_files t) \<longrightarrow> i < t_next t \<and> (ino t p = Some i \<longrightarrow> prefix R p))"

definition contained :: "path \<Rightarrow> tree \<Rightarrow> tree \<Rightarrow> bool" where
  "contained R s t \<longleftrightarrow>
     (confined R s \<longrightarrow>
        confined R t \<and>
        (\<forall>p. \<not> prefix R p \<longrightarrow> ino t p = ino s p \<and> entry_at t p = entry_at s p))"

lemma preorder_contained [simp, evolves_rules]: "preorder_on_state (contained R)"
  unfolding preorder_on_state_def contained_def by auto

lemma tree_simps [simp]:
  "ino (t\<lparr>t_clock := c\<rparr>) p = ino t p" "inode (t\<lparr>t_clock := c\<rparr>) i = inode t i"
  "ino (t\<lparr>t_root := r\<rparr>) p = ino t p" "inode (t\<lparr>t_root := r\<rparr>) i = inode t i"
  "ino (t\<lparr>t_cwd := r\<rparr>) p = ino t p" "inode (t\<lparr>t_cwd := r\<rparr>) i = inode t i"
  "ino (t\<lparr>t_files := l\<rparr>) p = ino t p" "inode (t\<lparr>t_files := l\<rparr>) i = inode t i"
  "ino (t\<lparr>t_printed := x\<rparr>) p = ino t p" "inode (t\<lparr>t_printed := x\<rparr>) i = inode t i"
  "ino (t\<lparr>t_next := k\<rparr>) p = ino t p" "inode (t\<lparr>t_next := k\<rparr>) i = inode t i"
  by (simp_all add: ino_def inode_def)

lemma map_of_filter_key: "map_of (filter (\<lambda>(q, _). P q) xs) p = (if P p then map_of xs p else None)"
  by (induction xs) auto

lemma name_simps [simp]:
  "ino (set_name p i t) q = (if q = p then Some i else ino t q)" "inode (set_name p i t) j = inode t j"
  "ino (drop_names P t) q = (if P q then None else ino t q)" "inode (drop_names P t) j = inode t j"
  "ino (set_inode i n t) q = ino t q" "inode (set_inode i n t) j = (if j = i then Some n else inode t j)"
  by (auto simp: ino_def inode_def set_name_def drop_names_def set_inode_def map_of_filter_key
      map_of_filter_key [where P = "\<lambda>q. \<not> P q"])

lemma inode_names [simp]: "inode (drop_names P t) = inode t" "inode (set_name p i t) = inode t"
  by (simp_all add: fun_eq_iff)

lemma name_sel [simp]:
  "t_root (set_name p i t) = t_root t" "t_cwd (set_name p i t) = t_cwd t" "t_files (set_name p i t) = t_files t" "t_next (set_name p i t) = t_next t"
  "t_root (drop_names P t) = t_root t" "t_cwd (drop_names P t) = t_cwd t" "t_files (drop_names P t) = t_files t" "t_next (drop_names P t) = t_next t"
  "t_root (set_inode j n t) = t_root t" "t_cwd (set_inode j n t) = t_cwd t" "t_files (set_inode j n t) = t_files t" "t_next (set_inode j n t) = t_next t"
  by (simp_all add: set_name_def drop_names_def set_inode_def)

lemma entry_simps [simp]:
  "entry_at (t\<lparr>t_clock := c\<rparr>) p = entry_at t p" "entry_at (t\<lparr>t_root := r\<rparr>) p = entry_at t p"
  "entry_at (t\<lparr>t_cwd := r\<rparr>) p = entry_at t p" "entry_at (t\<lparr>t_files := l\<rparr>) p = entry_at t p"
  "entry_at (t\<lparr>t_printed := x\<rparr>) p = entry_at t p" "entry_at (t\<lparr>t_next := k\<rparr>) p = entry_at t p"
  by (simp_all add: entry_at_def inode_def [abs_def])

lemma prefix_up: "prefix R cur \<Longrightarrow> cur \<noteq> R \<Longrightarrow> prefix R (butlast cur)"
  by (metis append_butlast_last_id append_Nil prefix_bot.extremum prefix_order.antisym prefix_snoc)

text \<open>A walk that starts at or below the root stays there.\<close>

lemma walk_confined:
  "prefix (t_root t) cur \<Longrightarrow> walk n t follow cur cs = Inr p \<Longrightarrow> prefix (t_root t) p"
proof (induction n t follow cur cs rule: walk.induct)
  case (2 n t follow cur c cs)
  show ?case
  proof (cases "c = ''..''")
    case True
    moreover have "prefix (t_root t) (if cur = t_root t then cur else butlast cur)"
      using 2(5) by (auto intro: prefix_up)
    ultimately show ?thesis using 2(1) [OF True] 2(6) by simp
  next
    case False
    then show ?thesis
      using 2(2-6) by (auto split: option.splits kind.splits if_splits)
  qed
qed simp

lemma t_walk_confined: "confined R t \<Longrightarrow> t_walk t follow s = Inr p \<Longrightarrow> prefix R p"
  unfolding t_walk_def confined_def
  by (auto split: if_splits dest!: walk_confined [rotated])

lemma t_stat_confined:
  "confined R t \<Longrightarrow> t_stat follow s t = Inr (p, i, nd) \<Longrightarrow>
     prefix R p \<and> ino t p = Some i \<and> inode t i = Some nd"
  unfolding t_stat_def by (auto split: sum.splits option.splits dest: t_walk_confined)

text \<open>The elementary changes keep everything outside when they are made inside.\<close>

lemma confinedI:
  assumes "t_root t = R" and "prefix R (t_cwd t)" and "\<And>p i. ino t p = Some i \<Longrightarrow> i < t_next t"
    and "\<And>p q i. ino t p = Some i \<Longrightarrow> ino t q = Some i \<Longrightarrow> prefix R p \<Longrightarrow> prefix R q"
    and "\<And>i. i \<in> set (t_files t) \<Longrightarrow> i < t_next t"
    and "\<And>p i. i \<in> set (t_files t) \<Longrightarrow> ino t p = Some i \<Longrightarrow> prefix R p"
  shows "confined R t"
  unfolding confined_def using assms by blast

lemma confinedD:
  assumes "confined R t"
  shows "t_root t = R" "prefix R (t_cwd t)" "ino t p = Some i \<Longrightarrow> i < t_next t"
    "ino t p = Some i \<Longrightarrow> ino t q = Some i \<Longrightarrow> prefix R p \<Longrightarrow> prefix R q"
    "i \<in> set (t_files t) \<Longrightarrow> i < t_next t"
    "i \<in> set (t_files t) \<Longrightarrow> ino t p = Some i \<Longrightarrow> prefix R p"
  using assms unfolding confined_def by blast+

lemma containedI:
  assumes "confined R s \<Longrightarrow> confined R t"
    and "\<And>p. confined R s \<Longrightarrow> \<not> prefix R p \<Longrightarrow> ino t p = ino s p"
    and "\<And>p. confined R s \<Longrightarrow> \<not> prefix R p \<Longrightarrow> entry_at t p = entry_at s p"
  shows "contained R s t"
  unfolding contained_def using assms by blast

lemma containedD:
  "contained R s t \<Longrightarrow> confined R s \<Longrightarrow> confined R t"
  "contained R s t \<Longrightarrow> confined R s \<Longrightarrow> \<not> prefix R p \<Longrightarrow> ino t p = ino s p"
  "contained R s t \<Longrightarrow> confined R s \<Longrightarrow> \<not> prefix R p \<Longrightarrow> entry_at t p = entry_at s p"
  unfolding contained_def by blast+

lemma confined_tick [simp]: "confined R (t\<lparr>t_clock := c\<rparr>) \<longleftrightarrow> confined R t"
proof -
  have "t_root (t\<lparr>t_clock := c\<rparr>) = t_root t" "t_cwd (t\<lparr>t_clock := c\<rparr>) = t_cwd t"
    "t_next (t\<lparr>t_clock := c\<rparr>) = t_next t" "t_files (t\<lparr>t_clock := c\<rparr>) = t_files t"
    by simp_all
  then show ?thesis by (simp only: confined_def tree_simps)
qed

lemma contained_tick [simp]: "contained R t (t\<lparr>t_clock := c\<rparr>)"
  by (rule containedI) simp_all

lemma evolves_tcall:
  assumes "\<And>t x t'. confined R t \<Longrightarrow> f t = Inr (x, t') \<Longrightarrow> contained R t t'"
  shows "evolves (contained R) (tcall mk f)"
proof (rule evolvesI)
  fix s r s'
  assume run: "run_state (tcall mk f) s = (r, s')"
  let ?t = "s\<lparr>t_clock := Suc (t_clock s)\<rparr>"
  have "s' = ?t \<or> (\<exists>x. f ?t = Inr (x, s'))"
    using run by (auto simp: tcall_def Let_def split: option.splits sum.splits)
  then show "contained R s s'"
  proof
    assume "s' = ?t"
    then show ?thesis by (simp only: contained_tick)
  next
    assume "\<exists>x. f ?t = Inr (x, s')"
    then obtain x where x: "f ?t = Inr (x, s')" ..
    have c: "contained R ?t s'" if "confined R s"
      by (rule assms [OF _ x]) (simp only: confined_tick that)
    show ?thesis
    proof (rule containedI)
      assume "confined R s"
      then show "confined R s'" using containedD(1) [OF c] by simp
    next
      fix p assume "confined R s" "\<not> prefix R p"
      then show "ino s' p = ino s p" using containedD(2) [OF c] by simp
    next
      fix p assume "confined R s" "\<not> prefix R p"
      then show "entry_at s' p = entry_at s p" using containedD(3) [OF c] by simp
    qed
  qed
qed

lemma contained_drop_names:
  assumes "\<And>q. P q \<Longrightarrow> prefix R q"
  shows "contained R t (drop_names P t)"
proof (rule containedI)
  assume c: "confined R t"
  show "confined R (drop_names P t)"
    by (rule confinedI) (auto simp: confinedD(1,2,5) [OF c] intro: confinedD(3,4,6) [OF c] split: if_splits)
next
  fix p assume "\<not> prefix R p"
  with assms have "\<not> P p" by blast
  then show "ino (drop_names P t) p = ino t p" "entry_at (drop_names P t) p = entry_at t p"
    by (simp_all add: entry_at_def)
qed

lemma contained_set_inode:
  assumes "prefix R p" and "ino t p = Some i"
  shows "contained R t (set_inode i nd t)"
proof (rule containedI)
  assume c: "confined R t"
  show "confined R (set_inode i nd t)"
    by (rule confinedI) (simp_all add: confinedD(1,2,5) [OF c], (fact confinedD [OF c])+)
next
  fix q assume c: "confined R t" and q: "\<not> prefix R q"
  then have "ino t q \<noteq> Some i" using confinedD(4) [OF c assms(2) _ assms(1)] by blast
  then show "entry_at (set_inode i nd t) q = entry_at t q"
    by (cases "ino t q") (simp_all add: entry_at_def)
qed simp

lemma contained_set_open:
  assumes "\<And>p. ino t p = Some i \<Longrightarrow> prefix R p"
  shows "contained R t (set_inode i nd t)"
proof (rule containedI)
  assume c: "confined R t"
  show "confined R (set_inode i nd t)"
    by (rule confinedI) (simp_all add: confinedD(1,2,5) [OF c], (fact confinedD [OF c])+)
next
  fix q assume "\<not> prefix R q"
  with assms have "ino t q \<noteq> Some i" by blast
  then show "entry_at (set_inode i nd t) q = entry_at t q"
    by (cases "ino t q") (simp_all add: entry_at_def)
qed simp

lemma new_entry_simps [simp]:
  "ino (new_entry p nd t) q = (if q = p then Some (t_next t) else ino t q)"
  "inode (new_entry p nd t) i = (if i = t_next t then Some nd else inode t i)"
  "t_root (new_entry p nd t) = t_root t" "t_cwd (new_entry p nd t) = t_cwd t"
  "t_files (new_entry p nd t) = t_files t" "t_next (new_entry p nd t) = Suc (t_next t)"
  by (simp_all add: new_entry_def)

lemma contained_new_entry:
  assumes "prefix R p"
  shows "contained R t (new_entry p nd t)"
proof (rule containedI)
  assume c: "confined R t"
  have fresh: "ino t q \<noteq> Some (t_next t)" for q using confinedD(3) [OF c] by blast
  show "confined R (new_entry p nd t)"
  proof (rule confinedI)
    show "t_root (new_entry p nd t) = R" "prefix R (t_cwd (new_entry p nd t))"
      by (simp_all add: confinedD(1,2) [OF c])
    show "ino (new_entry p nd t) q = Some i \<Longrightarrow> i < t_next (new_entry p nd t)" for q i
      using confinedD(3) [OF c, of q i] by (simp split: if_splits)
    show "i \<in> set (t_files (new_entry p nd t)) \<Longrightarrow> i < t_next (new_entry p nd t)" for i
      using confinedD(5) [OF c, of i] by simp
    show "prefix R q" if "i \<in> set (t_files (new_entry p nd t))" "ino (new_entry p nd t) q = Some i" for q i
      using that confinedD(6) [OF c, of i q] assms by (simp split: if_splits)
    show "prefix R r" if "ino (new_entry p nd t) q = Some i" "ino (new_entry p nd t) r = Some i" "prefix R q" for q r i
      using that confinedD(4) [OF c, of q i r] assms fresh by (auto split: if_splits)
  qed
next
  fix q assume c: "confined R t" and q: "\<not> prefix R q"
  then have "q \<noteq> p" using assms by blast
  then show "ino (new_entry p nd t) q = ino t q" by simp
  have "ino t q \<noteq> Some (t_next t)" using confinedD(3) [OF c] by blast
  with \<open>q \<noteq> p\<close> show "entry_at (new_entry p nd t) q = entry_at t q"
    by (cases "ino t q") (simp_all add: entry_at_def)
qed

lemma contained_set_name:
  assumes "prefix R p" and "prefix R q" and "ino t p = Some i"
  shows "contained R t (set_name q i t)"
proof (rule containedI)
  assume c: "confined R t"
  show "confined R (set_name q i t)"
  proof (rule confinedI)
    show "t_root (set_name q i t) = R" "prefix R (t_cwd (set_name q i t))"
      by (simp_all add: confinedD(1,2) [OF c])
    show "ino (set_name q i t) r = Some j \<Longrightarrow> j < t_next (set_name q i t)" for r j
      using confinedD(3) [OF c] assms(3) by (auto split: if_splits)
    show "j \<in> set (t_files (set_name q i t)) \<Longrightarrow> j < t_next (set_name q i t)" for j
      using confinedD(5) [OF c, of j] by simp
    show "prefix R r" if "j \<in> set (t_files (set_name q i t))" "ino (set_name q i t) r = Some j" for r j
      using that confinedD(6) [OF c, of j r] assms by (simp split: if_splits)
    show "prefix R x" if "ino (set_name q i t) r = Some j" "ino (set_name q i t) x = Some j" "prefix R r" for r x j
      using that confinedD(4) [OF c, of r j x] confinedD(4) [OF c, of p j x] assms by (auto split: if_splits)
  qed
next
  fix r assume "\<not> prefix R r"
  then have "r \<noteq> q" using assms by blast
  then show "ino (set_name q i t) r = ino t r" "entry_at (set_name q i t) r = entry_at t r"
    by (simp_all add: entry_at_def)
qed

lemma contained_files:
  assumes "\<And>i. confined R t \<Longrightarrow> i \<in> set l \<Longrightarrow> i < t_next t \<and> (\<forall>p. ino t p = Some i \<longrightarrow> prefix R p)"
  shows "contained R t (t\<lparr>t_files := l\<rparr>)"
proof (rule containedI)
  assume c: "confined R t"
  show "confined R (t\<lparr>t_files := l\<rparr>)"
    by (rule confinedI) (simp_all add: confinedD(1,2) [OF c] assms [OF c], (fact confinedD [OF c])+)
qed simp_all

lemma contained_trans: "contained R s t \<Longrightarrow> contained R t u \<Longrightarrow> contained R s u"
  by (rule preorder_trans [OF preorder_contained])

section \<open>The calls are contained\<close>

lemma t_Stat_contained [evolves_rules]:
  "evolves (contained R) (t_Stat s)" "evolves (contained R) (t_Lstat s)"
  unfolding t_Stat_def t_Lstat_def
  by (rule evolves_tcall; auto simp: map_sum_def preorder_refl [OF preorder_contained] split: sum.splits)+

lemma t_create_contained: "confined R t \<Longrightarrow> t_create s mk t = Inr (x, t') \<Longrightarrow> contained R t t'"
  by (auto simp: t_create_def dest!: t_walk_confined intro: contained_new_entry split: sum.splits if_splits)

lemma t_Mkdir_contained [evolves_rules]: "evolves (contained R) (t_Mkdir s m)"
  unfolding t_Mkdir_def by (rule evolves_tcall) (rule t_create_contained)

lemma t_Symlink_contained [evolves_rules]: "evolves (contained R) (t_Symlink target s)"
  unfolding t_Symlink_def
  by (rule evolves_tcall) (auto split: if_splits intro: t_create_contained)

lemma t_ReadDir_contained [evolves_rules]: "evolves (contained R) (t_ReadDir s)"
  unfolding t_ReadDir_def
  by (rule evolves_tcall) (auto simp: preorder_refl [OF preorder_contained] split: sum.splits if_splits)

lemma t_remove_all_contained [evolves_rules]: "evolves (contained R) (tcall mk (t_remove_all s))"
  by (rule evolves_tcall)
    (auto simp: t_remove_all_def preorder_refl [OF preorder_contained] strict_prefix_def split: sum.splits if_splits
      dest!: t_walk_confined intro!: contained_drop_names)

lemma t_RemoveAll_contained [evolves_rules]: "evolves (contained R) (t_RemoveAll s)"
  unfolding t_RemoveAll_def by (intro evolves_rules)

lemma t_Remove_contained [evolves_rules]: "evolves (contained R) (t_Remove s)"
  unfolding t_Remove_def
  by (rule evolves_tcall)
    (auto split: sum.splits if_splits dest!: t_stat_confined intro!: contained_drop_names)

lemma t_Link_contained [evolves_rules]: "evolves (contained R) (t_Link old new)"
  unfolding t_Link_def
proof (rule evolves_tcall)
  fix t x t'
  assume c: "confined R t"
    and "(case t_stat False old t of
        Inl e \<Rightarrow> Inl e
      | Inr (_, i, nd) \<Rightarrow>
          (case t_walk t False new of
             Inl e \<Rightarrow> Inl e
           | Inr q \<Rightarrow> if entry_at t q \<noteq> None then Inl EEXIST
                      else if is_dir nd then Inl EPERM
                      else Inr ((), set_name q i t))) = Inr (x, t')"
  then obtain p i nd q where "t_stat False old t = Inr (p, i, nd)" "t_walk t False new = Inr q"
    and t': "t' = set_name q i t"
    by (auto split: sum.splits if_splits)
  with t_stat_confined [OF c] t_walk_confined [OF c] show "contained R t t'"
    unfolding t' by (blast intro: contained_set_name)
qed

lemma t_OpenTrunc_contained [evolves_rules]: "evolves (contained R) (t_OpenTrunc s m)"
  unfolding t_OpenTrunc_def
proof (rule evolves_tcall)
  fix t x t'
  assume c: "confined R t"
    and r: "(case t_walk t True s of
        Inl e \<Rightarrow> Inl e
      | Inr p \<Rightarrow>
          (case ino t p of
             Some i \<Rightarrow>
               (case inode t i of
                  Some nd \<Rightarrow> (case nd_kind nd of
                      File _ \<Rightarrow> Inr (i, (set_inode i (nd\<lparr>nd_kind := File []\<rparr>) t)\<lparr>t_files := i # t_files t\<rparr>)
                    | Symlink _ \<Rightarrow> Inl ELOOP
                    | _ \<Rightarrow> Inl EISDIR)
                | None \<Rightarrow> Inl ENOENT)
           | None \<Rightarrow> Inr (t_next t, (new_entry p (t_new_node t (File []) m) t)\<lparr>t_files := t_next t # t_files t\<rparr>))) = Inr (x, t')"
  then obtain p where p: "t_walk t True s = Inr p" by (auto split: sum.splits)
  with c have R: "prefix R p" by (rule t_walk_confined)
  show "contained R t t'"
  proof (cases "ino t p")
    case None
    with r p have t': "t' = (new_entry p (t_new_node t (File []) m) t)\<lparr>t_files := t_next t # t_files t\<rparr>" by auto
    have "contained R (new_entry p (t_new_node t (File []) m) t) t'"
      unfolding t'
    proof (rule contained_files)
      fix i assume "i \<in> set (t_next t # t_files t)" and "confined R (new_entry p (t_new_node t (File []) m) t)"
      then show "i < t_next (new_entry p (t_new_node t (File []) m) t) \<and>
          (\<forall>q. ino (new_entry p (t_new_node t (File []) m) t) q = Some i \<longrightarrow> prefix R q)"
        using R confinedD(3,5,6) [OF c] by (fastforce split: if_splits)
    qed
    with contained_new_entry [OF R] show ?thesis by (rule contained_trans)
  next
    case (Some i)
    with r p obtain nd where t': "t' = (set_inode i (nd\<lparr>nd_kind := File []\<rparr>) t)\<lparr>t_files := i # t_files t\<rparr>"
      by (auto split: option.splits kind.splits)
    have "contained R (set_inode i (nd\<lparr>nd_kind := File []\<rparr>) t) t'"
      unfolding t'
    proof (rule contained_files)
      fix j assume "j \<in> set (i # t_files t)"
      then show "j < t_next (set_inode i (nd\<lparr>nd_kind := File []\<rparr>) t) \<and>
          (\<forall>q. ino (set_inode i (nd\<lparr>nd_kind := File []\<rparr>) t) q = Some j \<longrightarrow> prefix R q)"
        using confinedD(3) [OF c Some] confinedD(4) [OF c Some _ R] confinedD(5,6) [OF c] by auto
    qed
    with contained_set_inode [OF R Some] show ?thesis by (rule contained_trans)
  qed
qed

lemma t_Close_contained [evolves_rules]: "evolves (contained R) (t_Close i)"
  unfolding t_Close_def
proof (rule evolves_tcall)
  fix t x t' assume "(Inr ((), t\<lparr>t_files := remove1 i (t_files t)\<rparr>) :: errno + unit \<times> tree) = Inr (x, t')"
  then have t': "t' = t\<lparr>t_files := remove1 i (t_files t)\<rparr>" by simp
  have "j \<in> set (remove1 i (t_files t)) \<Longrightarrow> j \<in> set (t_files t)" for j
    using set_remove1_subset by fast
  then show "contained R t t'"
    unfolding t' by (intro contained_files) (blast dest: confinedD(5,6))
qed

lemma t_update_contained: "confined R t \<Longrightarrow> t_update follow s g t = Inr (x, t') \<Longrightarrow> contained R t t'"
  by (auto simp: t_update_def dest!: t_stat_confined intro: contained_set_inode split: sum.splits)

lemma t_Write_contained [evolves_rules]: "evolves (contained R) (t_Write i s)"
  unfolding t_Write_def
proof (rule evolves_tcall)
  fix t x t'
  assume c: "confined R t"
    and "(case inode t i of
        Some nd \<Rightarrow> (case nd_kind nd of
            File d \<Rightarrow> if i \<in> set (t_files t) then Inr ((), set_inode i (nd\<lparr>nd_kind := File (d @ s)\<rparr>) t) else Inl EINVAL
          | _ \<Rightarrow> Inl EINVAL)
      | None \<Rightarrow> Inl EINVAL) = Inr (x, t')"
  then obtain nd where i: "i \<in> set (t_files t)" and t': "t' = set_inode i nd t"
    by (auto split: option.splits kind.splits if_splits)
  show "contained R t t'" unfolding t' using confinedD(6) [OF c i] by (rule contained_set_open)
qed

lemma t_update_calls_contained [evolves_rules]:
  "evolves (contained R) (t_Chown s u g)" "evolves (contained R) (t_Lchown s u g)"
  "evolves (contained R) (t_Chmod s m)" "evolves (contained R) (t_utimensat s mt)"
  "evolves (contained R) (t_Chtimes s mt)"
  unfolding t_Chown_def t_Lchown_def t_Chmod_def t_utimensat_def t_Chtimes_def
  by (rule evolves_tcall, erule (1) t_update_contained)+

lemma t_Getuid_contained [evolves_rules]: "preorder_on_state R \<Longrightarrow> evolves R t_Getuid"
  unfolding t_Getuid_def by (rule evolves_gets)

lemma t_print_contained [evolves_rules]: "evolves (contained R) (t_print s)"
  unfolding t_print_def
proof (rule evolves_modify)
  fix t :: tree
  have "t_root (t\<lparr>t_printed := x\<rparr>) = t_root t" "t_cwd (t\<lparr>t_printed := x\<rparr>) = t_cwd t"
    "t_next (t\<lparr>t_printed := x\<rparr>) = t_next t" "t_files (t\<lparr>t_printed := x\<rparr>) = t_files t" for x
    by simp_all
  then have "confined R (t\<lparr>t_printed := x\<rparr>) \<longleftrightarrow> confined R t" for x by (simp only: confined_def tree_simps)
  then show "contained R t (t\<lparr>t_printed := t_printed t @ [s]\<rparr>)"
    by (intro containedI) simp_all
qed


section \<open>Paths without symbolic links\<close>

definition dir_in :: "tree \<Rightarrow> path \<Rightarrow> bool" where
  "dir_in t p \<longleftrightarrow> (case entry_at t p of Some nd \<Rightarrow> is_dir nd | None \<Rightarrow> False)"

definition symlink_in :: "tree \<Rightarrow> path \<Rightarrow> bool" where
  "symlink_in t p \<longleftrightarrow> (case entry_at t p of Some nd \<Rightarrow> (case nd_kind nd of Symlink _ \<Rightarrow> True | _ \<Rightarrow> False) | None \<Rightarrow> False)"

lemma walk_direct:
  assumes "''..'' \<notin> set cs" and "\<And>xs ys. cs = xs @ ys \<Longrightarrow> xs \<noteq> [] \<Longrightarrow> ys \<noteq> [] \<Longrightarrow> dir_in t (cur @ xs)"
    and "follow \<Longrightarrow> \<not> symlink_in t (cur @ cs)"
  shows "walk n t follow cur cs = Inr (cur @ cs)"
  using assms
proof (induction cs arbitrary: cur)
  case (Cons c cs)
  show ?case
  proof (cases "cs = []")
    case True
    with Cons.prems show ?thesis
      by (auto simp: symlink_in_def split: option.splits kind.splits)
  next
    case False
    with Cons.prems(2) [of "[c]" cs] have "dir_in t (cur @ [c])" by simp
    then obtain nd where nd: "entry_at t (cur @ [c]) = Some nd" "nd_kind nd = Directory \<or> nd_kind nd = Subvolume"
      by (auto simp: dir_in_def is_dir_def split: option.splits kind.splits)
    have "walk n t follow (cur @ [c]) cs = Inr ((cur @ [c]) @ cs)"
    proof (rule Cons.IH)
      show "''..'' \<notin> set cs" using Cons.prems(1) by simp
      show "dir_in t ((cur @ [c]) @ xs)" if "cs = xs @ ys" "xs \<noteq> []" "ys \<noteq> []" for xs ys
        using Cons.prems(2) [of "c # xs" ys] that by simp
      show "follow \<Longrightarrow> \<not> symlink_in t ((cur @ [c]) @ cs)" using Cons.prems(3) by simp
    qed
    with nd Cons.prems(1) show ?thesis by auto
  qed
qed simp

section \<open>Components of clean paths\<close>

definition comp_ok :: "string \<Rightarrow> bool" where
  "comp_ok c \<longleftrightarrow> c \<noteq> [] \<and> c \<noteq> ''.'' \<and> CHR ''/'' \<notin> set c"

lemma norm_step_ok:
  assumes "CHR ''/'' \<notin> set c" and "list_all comp_ok st"
  shows "list_all comp_ok (norm_step r c st)"
proof (cases "c = [] \<or> c = ''.''")
  case True
  with assms(2) show ?thesis by (simp only: norm_step.simps if_True)
next
  case False
  have "comp_ok ''..''" by (simp add: comp_ok_def)
  moreover have "comp_ok c" using False assms(1) by (simp add: comp_ok_def)
  ultimately have ok: "list_all comp_ok (''..'' # st)" "list_all comp_ok (c # st)"
    using assms(2) by (simp_all only: list.pred_inject simp_thms)
  have "norm_step r c st = st \<or> norm_step r c st = [] \<or> norm_step r c st = [''..''] \<or> norm_step r c st = ''..'' # st \<or>
      (\<exists>t ts. st = t # ts \<and> norm_step r c st = ts) \<or> norm_step r c st = c # st"
    unfolding norm_step.simps by (cases st) (simp_all only: list.case split: if_split, blast+)
  with assms(2) ok show ?thesis by (elim disjE exE conjE) (simp_all only: list.pred_inject simp_thms)
qed

lemma norm_ok: "\<forall>c\<in>set cs. CHR ''/'' \<notin> set c \<Longrightarrow> list_all comp_ok st \<Longrightarrow> list_all comp_ok (norm r cs st)"
proof (induction cs arbitrary: st)
  case (Cons c cs)
  then have "list_all comp_ok (norm_step r c st)" by (intro norm_step_ok) simp_all
  with Cons show ?case by simp
qed simp

definition norm_of :: "string \<Rightarrow> string list" where
  "norm_of s = rev (norm (rooted s) (split_on (CHR ''/'') s) [])"

lemma norm_of_ok: "list_all comp_ok (norm_of s)"
proof -
  have "\<forall>d\<in>set (split_on (CHR ''/'') s). CHR ''/'' \<notin> set d" by (rule ballI) (erule split_on_no_sep)
  from norm_ok [OF this, of "[]" "rooted s"] show ?thesis by (simp add: norm_of_def)
qed

lemma norm_of_comps: "c \<in> set (norm_of s) \<Longrightarrow> c \<noteq> [] \<and> c \<noteq> ''.'' \<and> CHR ''/'' \<notin> set c"
  using norm_of_ok [of s] unfolding list_all_iff comp_ok_def by blast

lemma path_comps_join:
  "\<forall>c\<in>set cs. c \<noteq> [] \<and> c \<noteq> ''.'' \<and> CHR ''/'' \<notin> set c \<Longrightarrow> path_comps (join_with ''/'' cs) = cs"
proof (cases "cs = []")
  case True
  then show ?thesis by (simp add: path_comps_def)
next
  case False
  assume cs: "\<forall>c\<in>set cs. c \<noteq> [] \<and> c \<noteq> ''.'' \<and> CHR ''/'' \<notin> set c"
  then have "\<forall>c\<in>set cs. CHR ''/'' \<notin> set c" by blast
  then have "split_on (CHR ''/'') (join_with ''/'' cs) = cs" using False by (rule split_join_plain)
  moreover have "filter (\<lambda>c. c \<noteq> [] \<and> c \<noteq> ''.'') cs = cs" using cs by (intro filter_True) blast
  ultimately show ?thesis by (simp only: path_comps_def)
qed

lemma path_comps_slash: "path_comps (CHR ''/'' # s) = path_comps s"
  by (simp add: path_comps_def)

lemma path_comps_Clean: "path_comps (Clean s) = norm_of s"
proof -
  have j: "path_comps (join_with ''/'' (norm_of s)) = norm_of s"
    by (rule path_comps_join) (use norm_of_comps in blast)
  have dot: "path_comps ''.'' = []" by (simp add: path_comps_def)
  have "Clean s = (if rooted s then CHR ''/'' # join_with ''/'' (norm_of s)
      else if norm_of s = [] then ''.'' else join_with ''/'' (norm_of s))"
    by (simp add: Clean_def Let_def norm_of_def)
  with j dot show ?thesis by (simp add: path_comps_slash)
qed

lemma norm_of_slash: "s \<noteq> [] \<Longrightarrow> plain_name c \<Longrightarrow> norm_of (s @ CHR ''/'' # c) = norm_of s @ [c]"
proof -
  assume "s \<noteq> []" and c: "plain_name c"
  then have "rooted (s @ CHR ''/'' # c) = rooted s" by (auto simp: rooted_def split: list.splits)
  moreover have "split_on (CHR ''/'') c = [c]" using c by (simp add: plain_name_def)
  ultimately show ?thesis using c by (simp add: norm_of_def)
qed

lemma join_ok_relative: "list_all comp_ok cs \<Longrightarrow> cs \<noteq> [] \<Longrightarrow> \<not> rooted (join_with ''/'' cs)"
proof -
  assume ok: "list_all comp_ok cs" and "cs \<noteq> []"
  then obtain c ds where cs: "cs = c # ds" by (meson list.exhaust)
  with ok have "comp_ok c" by simp
  then obtain a as where c: "c = a # as" "a \<noteq> CHR ''/''" by (cases c) (auto simp: comp_ok_def)
  show ?thesis by (cases ds) (simp_all add: cs c rooted_def)
qed

lemma join_plain_ok_Nil: "list_all comp_ok cs \<Longrightarrow> cs \<noteq> [] \<Longrightarrow> join_with ''/'' cs \<noteq> []"
proof -
  assume ok: "list_all comp_ok cs" and "cs \<noteq> []"
  then obtain c ds where cs: "cs = c # ds" by (meson list.exhaust)
  with ok have "c \<noteq> []" by (simp add: comp_ok_def)
  then show ?thesis by (cases ds) (simp_all add: cs)
qed

text \<open>A clean path reads as the components it was made of.\<close>

lemma norm_of_rooted: "rooted s \<Longrightarrow> norm_of s = resolve s"
  by (simp add: norm_of_def resolve_def)

lemma norm_of_idem: "norm_of (Clean s) = norm_of s"
proof (cases "rooted s")
  case True
  then show ?thesis by (simp add: norm_of_rooted rooted_Clean)
next
  case False
  let ?cs = "split_on (CHR ''/'') s"
  have "\<forall>d\<in>set ?cs. CHR ''/'' \<notin> set d" by (rule ballI) (erule split_on_no_sep)
  from norm_relative [OF this, of "[]" 0]
  obtain qs j where form: "norm False ?cs [] = qs @ replicate j ''..''" "\<forall>q\<in>set qs. plain_name q"
    by auto
  have dots: "norm False (replicate j ''..'') (replicate k ''..'') = replicate (j + k) ''..''" for j k
  proof (induction j arbitrary: k)
    case (Suc j)
    have "norm_step False ''..'' (replicate k ''..'') = replicate (Suc k) ''..''"
      by (cases k) (simp_all add: norm_step.simps)
    with Suc [of "Suc k"] show ?case by (simp del: replicate.simps add: replicate.simps(2) [of j])
  qed simp
  have id: "norm False (replicate j ''..'' @ rev qs) [] = qs @ replicate j ''..''"
    using dots [of j 0] norm_plain [of "rev qs" False] form(2) by simp
  show ?thesis
  proof (cases "replicate j ''..'' @ rev qs = []")
    case True
    with form False show ?thesis by (simp add: Clean_def norm_of_def Let_def rooted_def)
  next
    case ne: False
    have comps: "CHR ''/'' \<notin> set c \<and> c \<noteq> []" if "c \<in> set (replicate j ''..'' @ rev qs)" for c
      using form(2) that by (cases "c \<in> set qs") (auto simp: plain_name_def)
    have "list_all comp_ok (rev (norm False ?cs []))"
      using norm_of_ok [of s] False by (simp add: norm_of_def)
    then have "list_all comp_ok (replicate j ''..'' @ rev qs)" by (simp add: form(1))
    from join_ok_relative [OF this ne] have "\<not> rooted (join_with ''/'' (replicate j ''..'' @ rev qs))" .
    moreover have "split_on (CHR ''/'') (join_with ''/'' (replicate j ''..'' @ rev qs)) = replicate j ''..'' @ rev qs"
      by (rule split_join_plain [OF _ ne]) (use comps in blast)
    moreover have "Clean s = join_with ''/'' (replicate j ''..'' @ rev qs)"
      using False form(1) ne by (simp add: Clean_def Let_def)
    ultimately show ?thesis using False form id by (simp add: norm_of_def)
  qed
qed

lemma Clean_not_Nil [simp]: "Clean s \<noteq> []"
  using join_plain_ok_Nil [OF norm_of_ok, of s] by (auto simp: Clean_def Let_def norm_of_def)

lemma rooted_Clean_iff: "rooted (Clean s) \<longleftrightarrow> rooted s"
proof (cases "rooted s")
  case True
  then show ?thesis by (simp add: rooted_Clean)
next
  case False
  then have "Clean s = (if norm_of s = [] then ''.'' else join_with ''/'' (norm_of s))"
    by (simp add: Clean_def Let_def norm_of_def)
  moreover have "\<not> rooted ''.''" by (simp add: rooted_def)
  ultimately show ?thesis using False join_ok_relative [OF norm_of_ok] by auto
qed

lemma path_comps_Join:
  assumes "p = Clean s" and "plain_name c"
  shows "path_comps (Join [p, c]) = path_comps p @ [c]" and "rooted (Join [p, c]) \<longleftrightarrow> rooted p" and "Join [p, c] \<noteq> []"
proof -
  have "c \<noteq> []" using assms(2) by (simp add: plain_name_def)
  then have j: "Join [p, c] = Clean (p @ CHR ''/'' # c)" by (simp add: Join_def Let_def assms(1))
  then show "path_comps (Join [p, c]) = path_comps p @ [c]"
    using norm_of_slash [OF _ assms(2), of p] by (simp add: assms(1) path_comps_Clean norm_of_idem)
  have "rooted (p @ CHR ''/'' # c) \<longleftrightarrow> rooted p"
    using Clean_not_Nil [of s] by (auto simp: rooted_def assms(1) split: list.splits)
  then show "rooted (Join [p, c]) \<longleftrightarrow> rooted p" by (simp add: j rooted_Clean_iff)
  show "Join [p, c] \<noteq> []" by (simp add: j)
qed

section \<open>The volume stands\<close>

text \<open>The directory that a process is confined to is not removed or replaced either.\<close>

definition volume_in :: "tree \<Rightarrow> path \<Rightarrow> bool" where
  "volume_in t p \<longleftrightarrow> (\<exists>nd. entry_at t p = Some nd \<and> nd_kind nd = Subvolume)"

definition stands :: "path \<Rightarrow> tree \<Rightarrow> tree \<Rightarrow> bool" where
  "stands R s t \<longleftrightarrow> (confined R s \<and> volume_in s R \<longrightarrow> confined R t \<and> volume_in t R)"

lemma preorder_stands [simp, evolves_rules]: "preorder_on_state (stands R)"
  by (simp add: preorder_on_state_def stands_def)

lemma volume_in_simps [simp]:
  "volume_in (t\<lparr>t_clock := c\<rparr>) p = volume_in t p" "volume_in (t\<lparr>t_files := l\<rparr>) p = volume_in t p"
  by (simp_all add: volume_in_def)

lemma volume_in_drop: "volume_in t R \<Longrightarrow> \<not> P R \<Longrightarrow> volume_in (drop_names P t) R"
  by (auto simp: volume_in_def entry_at_def)

lemma volume_in_set_inode:
  assumes "volume_in t R" and "inode t i = Some nd" and "nd_kind nd' = nd_kind nd \<or> nd_kind nd \<noteq> Subvolume"
  shows "volume_in (set_inode i nd' t) R"
  using assms by (auto simp: volume_in_def entry_at_def split: Option.bind_splits)

lemma volume_in_set_name: "volume_in t R \<Longrightarrow> entry_at t q = None \<Longrightarrow> volume_in (set_name q i t) R"
  by (auto simp: volume_in_def entry_at_def)

lemma volume_in_new_entry:
  assumes "volume_in t R" and "confined R t" and "entry_at t q = None"
  shows "volume_in (new_entry q nd t) R"
proof -
  obtain i n where i: "ino t R = Some i" "inode t i = Some n" "nd_kind n = Subvolume"
    using assms(1) by (auto simp: volume_in_def entry_at_def split: Option.bind_splits)
  with assms(3) have "R \<noteq> q" by (auto simp: entry_at_def)
  moreover have "i \<noteq> t_next t" using confinedD(3) [OF assms(2) i(1)] by simp
  ultimately show ?thesis using i by (simp add: volume_in_def entry_at_def)
qed

text \<open>A path that ends in a name leads to something below the root.\<close>

lemma walk_below:
  "prefix (t_root t) cur \<Longrightarrow> cs \<noteq> [] \<Longrightarrow> last cs \<noteq> ''..'' \<Longrightarrow> walk n t False cur cs = Inr p \<Longrightarrow> strict_prefix (t_root t) p"
proof (induction n t "False" cur cs rule: walk.induct)
  case (2 n t cur c cs)
  have up: "prefix (t_root t) (if cur = t_root t then cur else butlast cur)"
    using 2(5) by (auto intro: prefix_up)
  have here: "strict_prefix (t_root t) (cur @ [c])"
    using 2(5) by (auto simp: strict_prefix_def prefix_def)
  show ?case
  proof (cases "cs = []")
    case True
    with 2(6-8) here show ?thesis by (auto split: option.splits kind.splits if_splits)
  next
    case False
    with 2(7) have l: "last cs \<noteq> ''..''" by simp
    show ?thesis
    proof (cases "c = ''..''")
      case True
      with 2(1) [OF True up False l] 2(8) show ?thesis by simp
    next
      case c: False
      with 2(2-5,8) False l show ?thesis by (auto split: option.splits kind.splits if_splits)
    qed
  qed
qed simp

lemma t_walk_below:
  assumes "confined R t" and "ends_in_name s" and "t_walk t False s = Inr p"
  shows "strict_prefix R p"
proof -
  have "prefix (t_root t) (if rooted s then t_root t else t_cwd t)"
    using confinedD(1,2) [OF assms(1)] by simp
  from walk_below [OF this, of "path_comps s" max_symlinks p] assms show ?thesis
    by (auto simp: t_walk_def ends_in_name_def confinedD(1) split: if_splits)
qed

lemma evolves_tcall_stands:
  assumes "evolves (contained R) (tcall mk f)"
    and "\<And>t x t'. confined R t \<Longrightarrow> volume_in t R \<Longrightarrow> f t = Inr (x, t') \<Longrightarrow> volume_in t' R"
  shows "evolves (stands R) (tcall mk f)"
proof (rule evolvesI)
  fix s r s'
  assume run: "run_state (tcall mk f) s = (r, s')"
  let ?t = "s\<lparr>t_clock := Suc (t_clock s)\<rparr>"
  have "s' = ?t \<or> (\<exists>x. f ?t = Inr (x, s'))"
    using run by (auto simp: tcall_def Let_def split: option.splits sum.splits)
  moreover have "contained R s s'" using assms(1) run by (rule evolvesD)
  moreover have "volume_in s' R" if "confined R s" "volume_in s R" "f ?t = Inr (x, s')" for x
    by (rule assms(2) [OF _ _ that(3)]) (simp_all only: confined_tick volume_in_simps that)
  ultimately show "stands R s s'" using containedD(1) by (auto simp: stands_def)
qed

lemma calls_stand [evolves_rules]:
  "evolves (stands R) (t_Stat s)" "evolves (stands R) (t_Lstat s)" "evolves (stands R) (t_ReadDir s)"
  "evolves (stands R) (t_Close i)" "evolves (stands R) (t_Mkdir s m)" "evolves (stands R) (t_Symlink l s)"
  unfolding t_Stat_def t_Lstat_def t_ReadDir_def t_Close_def t_Mkdir_def t_Symlink_def
  by (rule evolves_tcall_stands;
      (rule t_Stat_contained [unfolded t_Stat_def t_Lstat_def] t_ReadDir_contained [unfolded t_ReadDir_def]
        t_Close_contained [unfolded t_Close_def] t_Mkdir_contained [unfolded t_Mkdir_def]
        t_Symlink_contained [unfolded t_Symlink_def])?;
      auto simp: map_sum_def t_create_def volume_in_new_entry split: sum.splits if_splits)+

lemma update_stands:
  "t_update follow s g t = Inr (x, t') \<Longrightarrow> (\<And>nd. nd_kind (g nd) = nd_kind nd) \<Longrightarrow> volume_in t R \<Longrightarrow> volume_in t' R"
  by (auto simp: t_update_def t_stat_def intro: volume_in_set_inode split: sum.splits option.splits)

lemma updates_stand [evolves_rules]:
  "evolves (stands R) (t_Chown s u g)" "evolves (stands R) (t_Lchown s u g)" "evolves (stands R) (t_Chmod s m)"
  "evolves (stands R) (t_utimensat s mt)" "evolves (stands R) (t_Chtimes s mt)"
  unfolding t_Chown_def t_Lchown_def t_Chmod_def t_utimensat_def t_Chtimes_def
  by (rule evolves_tcall_stands,
      rule t_update_calls_contained [unfolded t_Chown_def t_Lchown_def t_Chmod_def t_utimensat_def t_Chtimes_def],
      erule update_stands, simp add: chowned_def, assumption)+

lemma RemoveAll_stands [evolves_rules]: "evolves (stands R) (t_RemoveAll s)"
proof -
  have "evolves (stands R) (tcall (PathError ''unlinkat'' s) (t_remove_all s))"
  proof (rule evolves_tcall_stands [OF t_remove_all_contained])
    fix t x t'
    assume c: "confined R t" and v: "volume_in t R" and "t_remove_all s t = Inr (x, t')"
    then consider "t' = t" | p where "t_walk t False s = Inr p" "ends_in_name s" "t' = drop_names (prefix p) t"
      | p where "t_walk t False s = Inr p" "t' = drop_names (strict_prefix p) t"
      by (auto simp: t_remove_all_def split: sum.splits if_splits)
    then show "volume_in t' R"
    proof cases
      case 2
      with t_walk_below [OF c 2(2,1)] v show ?thesis by (auto intro!: volume_in_drop)
    next
      case 3
      with t_walk_confined [OF c 3(1)] v show ?thesis by (auto intro!: volume_in_drop)
    qed (simp add: v)
  qed
  then show ?thesis unfolding t_RemoveAll_def by (intro evolves_rules)
qed

lemma Remove_stands [evolves_rules]: "evolves (stands R) (t_Remove s)"
  unfolding t_Remove_def
proof (rule evolves_tcall_stands [OF t_Remove_contained [unfolded t_Remove_def]])
  fix t x t'
  assume c: "confined R t" and v: "volume_in t R"
    and "(case t_stat False s t of
        Inl e \<Rightarrow> Inl e
      | Inr (p, _, nd) \<Rightarrow>
          if \<not> ends_in_name s then Inl EINVAL
          else if is_dir nd \<and> t_children p t \<noteq> [] then Inl ENOTEMPTY
          else Inr ((), drop_names (\<lambda>q. q = p) t)) = Inr (x, t')"
  then obtain p where "t_walk t False s = Inr p" "ends_in_name s" "t' = drop_names (\<lambda>q. q = p) t"
    by (auto simp: t_stat_def split: sum.splits option.splits if_splits)
  with t_walk_below [OF c] v show "volume_in t' R" by (auto intro!: volume_in_drop)
qed

lemma Link_stands [evolves_rules]: "evolves (stands R) (t_Link old new)"
  unfolding t_Link_def
  by (rule evolves_tcall_stands [OF t_Link_contained [unfolded t_Link_def]])
    (auto intro: volume_in_set_name split: sum.splits if_splits)

lemma OpenTrunc_stands [evolves_rules]: "evolves (stands R) (t_OpenTrunc s m)"
  unfolding t_OpenTrunc_def
  by (rule evolves_tcall_stands [OF t_OpenTrunc_contained [unfolded t_OpenTrunc_def]])
    (auto intro!: volume_in_set_inode volume_in_new_entry simp: entry_at_def split: sum.splits option.splits kind.splits)

lemma Write_stands [evolves_rules]: "evolves (stands R) (t_Write i s)"
  unfolding t_Write_def
  by (rule evolves_tcall_stands [OF t_Write_contained [unfolded t_Write_def]])
    (auto intro!: volume_in_set_inode split: option.splits kind.splits if_splits)

end
