(* ===== verification/Untar.thy ===== *)
theory Untar
  imports Chroot Puller
begin

text \<open>
  \<open>base_image_puller/unpacker/tar.go\<close> and \<open>tar_modtime_linux.go\<close>: unpacking the tar stream of a
  layer into a volume, in a process of its own that has changed its root to the volume.

  The stream is what \<open>archive/tar\<close> delivers: the headers with the content that can be read for
  each, and the error that ends a broken archive; how it is read from bytes is the parameter
  \<open>read_tar\<close> of the registered command.
\<close>

section \<open>Archives\<close>

datatype typeflag = TypeReg | TypeRegA | TypeLink | TypeSymlink | TypeChar | TypeBlock | TypeDir | TypeOther char

record tar_header =
  th_Typeflag :: typeflag
  th_Name :: string
  th_Linkname :: string
  th_Uid :: int
  th_Gid :: int
  th_Mode :: filemode
  th_ModTime :: int

text \<open>An entry with the content that can be read, and the error after it, if the content is cut off.\<close>

datatype tar_item = Entry tar_header string "error option" | Broken error

section \<open>The code\<close>

record UnpackStrategy =
  st_Name :: string
  st_WhiteoutDevicePath :: string

record TarUnpacker =
  tu_strategy :: UnpackStrategy

definition NewTarUnpacker :: "UnpackStrategy \<Rightarrow> error + TarUnpacker" where
  "NewTarUnpacker unpackStrategy = Inr \<lparr>tu_strategy = unpackStrategy\<rparr>"

definition removeWhiteout :: "string \<Rightarrow> (error + unit) tio" where
  "removeWhiteout path =
     (let toBeDeletedPath = replace_first path ''.wh.'' [] in
      or_return (t_RemoveAll toBeDeletedPath) (Wrap ''deleting whiteout file'') (\<lambda>_. ok ()))"

fun tar_clean_contents :: "string \<Rightarrow> string list \<Rightarrow> (error + unit) tio" where
  "tar_clean_contents path [] = ok ()"
| "tar_clean_contents path (content # rest) =
     or_return (t_RemoveAll (Join [path, content])) (Wrap ''cleaning up whiteout directory'') (\<lambda>_.
     tar_clean_contents path rest)"

definition tar_cleanWhiteoutDir :: "string \<Rightarrow> (error + unit) tio" where
  "tar_cleanWhiteoutDir path =
     or_return (t_ReadDir path) (Wrap ''reading whiteout directory'') (\<lambda>contents.
     tar_clean_contents path contents)"

definition changeModTime :: "string \<Rightarrow> int \<Rightarrow> (error + unit) tio" where
  "changeModTime path modTime =
     (if CHR 0x00 \<in> set path then fail (SysError EINVAL)
      else do {
        r \<leftarrow> t_utimensat path modTime;
        (case r of
           Inl err \<Rightarrow> if err = SysError ENOSYS then t_Chtimes path modTime else fail err
         | Inr _ \<Rightarrow> ok ())
      })"

fun translateRootID :: "IDMappingSpec list \<Rightarrow> int" where
  "translateRootID [] = 0"
| "translateRootID (mapping # rest) = (if Size mapping = 1 then HostID mapping else translateRootID rest)"

fun translate_other :: "int \<Rightarrow> IDMappingSpec list \<Rightarrow> int" where
  "translate_other i [] = i"
| "translate_other i (mapping # rest) =
     (if Size mapping = 1 then translate_other i rest
      else if i \<ge> NamespaceID mapping \<and> i < wrap64 (NamespaceID mapping + Size mapping)
      then wrap64 (wrap64 (HostID mapping + i) - 1)
      else translate_other i rest)"

definition translateID :: "int \<Rightarrow> IDMappingSpec list \<Rightarrow> int" where
  "translateID i mappings = (if i = 0 then translateRootID mappings else translate_other i mappings)"

definition no_write_permission :: "tar_header \<Rightarrow> error" where
  "no_write_permission tarHeader =
     Plain ([CHR 0x27] @ ''/'' @ Dir (th_Name tarHeader) @ [CHR 0x27] @
       '' does not give write permission to its owner. This image can only be unpacked using uid and gid mappings, or by running as root.'')"

text \<open>The owner is set only by root.\<close>

definition chown_if_root ::
  "(string \<Rightarrow> int \<Rightarrow> int \<Rightarrow> (error + unit) tio) \<Rightarrow> string \<Rightarrow> string \<Rightarrow> tar_header \<Rightarrow> UnpackSpec \<Rightarrow> (error + unit) tio" where
  "chown_if_root call what path tarHeader spec = do {
     me \<leftarrow> t_Getuid;
     if me = 0 then
       (let uid = translateID (th_Uid tarHeader) (us_UIDMappings spec);
            gid = translateID (th_Gid tarHeader) (us_GIDMappings spec)
        in or_return (call path uid gid)
             (Wrap (''chowning '' @ what @ '' '' @ show_int uid @ '':'' @ show_int gid @ '' `'' @ path @ ''`'')) (\<lambda>_. ok ()))
     else ok ()
   }"

definition createDirectory :: "string \<Rightarrow> tar_header \<Rightarrow> UnpackSpec \<Rightarrow> (error + unit) tio" where
  "createDirectory path tarHeader spec = do {
     st \<leftarrow> t_Stat path;
     made \<leftarrow> (case st of
        Inr _ \<Rightarrow> ok ()
      | Inl _ \<Rightarrow> do {
          mk \<leftarrow> t_Mkdir path (th_Mode tarHeader);
          (case mk of
             Inr _ \<Rightarrow> ok ()
           | Inl err \<Rightarrow>
               if IsPermission err then fail (no_write_permission tarHeader)
               else fail (Wrap (''creating directory `'' @ path @ ''`'') err))
        });
     or_return (State_Monad.return made) id (\<lambda>_.
     or_return (chown_if_root t_Chown ''directory'' path tarHeader spec) id (\<lambda>_.
     or_return (t_Chmod path (th_Mode tarHeader)) (Wrap (''chmoding directory `'' @ path @ ''`'')) (\<lambda>_.
     or_return (changeModTime path (th_ModTime tarHeader))
       (Wrap (''setting the modtime for directory `'' @ path @ ''`: %!s(MISSING)'')) (\<lambda>_.
     ok ()))))
   }"

definition createSymlink :: "string \<Rightarrow> tar_header \<Rightarrow> UnpackSpec \<Rightarrow> (error + unit) tio" where
  "createSymlink path tarHeader spec = do {
     st \<leftarrow> t_Lstat path;
     removed \<leftarrow> (case st of
        Inr _ \<Rightarrow> or_return (t_Remove path) (Wrap (''removing file `'' @ path @ ''`'')) (\<lambda>_. ok ())
      | Inl _ \<Rightarrow> ok ());
     or_return (State_Monad.return removed) id (\<lambda>_.
     or_return (t_Symlink (th_Linkname tarHeader) path)
       (Wrap (''create symlink `'' @ th_Linkname tarHeader @ ''` -> `'' @ path @ ''`'')) (\<lambda>_.
     or_return (changeModTime path (th_ModTime tarHeader))
       (Wrap (''setting the modtime for the symlink `'' @ path @ ''`'')) (\<lambda>_.
     chown_if_root t_Lchown ''link'' path tarHeader spec)))
   }"

definition createLink :: "string \<Rightarrow> tar_header \<Rightarrow> (error + unit) tio" where
  "createLink path tarHeader = t_Link (th_Linkname tarHeader) path"

text \<open>\<open>io.Copy\<close>: what could be read is written, then the error of the reader counts.\<close>

definition io_Copy :: "nat \<Rightarrow> string \<Rightarrow> error option \<Rightarrow> (error + int) tio" where
  "io_Copy file content broken =
     or_return (t_Write file content) id (\<lambda>_.
     (case broken of Some err \<Rightarrow> fail err | None \<Rightarrow> ok (int (length content))))"

definition write_file :: "nat \<Rightarrow> string \<Rightarrow> string \<Rightarrow> error option \<Rightarrow> (error + int) tio" where
  "write_file file path content broken = do {
     copied \<leftarrow> io_Copy file content broken;
     (case copied of
        Inl err \<Rightarrow> do {
          _ \<leftarrow> t_Close file;
          fail (Wrap (''writing to file `'' @ path @ ''`'') err)
        }
      | Inr fileSize \<Rightarrow> or_return (t_Close file) (Wrap (''closing file `'' @ path @ ''`'')) (\<lambda>_. ok fileSize))
   }"

definition createRegularFile ::
  "string \<Rightarrow> tar_header \<Rightarrow> string \<Rightarrow> error option \<Rightarrow> UnpackSpec \<Rightarrow> (error + int) tio" where
  "createRegularFile path tarHeader content broken spec = do {
     opened \<leftarrow> t_OpenTrunc path (th_Mode tarHeader);
     (case opened of
        Inl err \<Rightarrow>
          if IsPermission err then fail (no_write_permission tarHeader)
          else fail (Wrap (''creating file `'' @ path @ ''`'') err)
      | Inr file \<Rightarrow>
          or_return (write_file file path content broken) id (\<lambda>fileSize.
          or_return (chown_if_root t_Chown ''file'' path tarHeader spec) id (\<lambda>_.
          or_return (t_Chmod path (th_Mode tarHeader)) (Wrap (''chmoding file `'' @ path @ ''`'')) (\<lambda>_.
          or_return (changeModTime path (th_ModTime tarHeader))
            (Wrap (''setting the modtime for file `'' @ path @ ''`'')) (\<lambda>_.
          ok fileSize)))))
   }"

text \<open>The first result is the size that counts: only that of a regular file does.\<close>

definition handleEntry ::
  "string \<Rightarrow> tar_header \<Rightarrow> string \<Rightarrow> error option \<Rightarrow> UnpackSpec \<Rightarrow> (error + int) tio" where
  "handleEntry entryPath tarHeader content broken spec =
     (case th_Typeflag tarHeader of
        TypeBlock \<Rightarrow> ok 0
      | TypeChar \<Rightarrow> ok 0
      | TypeLink \<Rightarrow> or_return (createLink entryPath tarHeader) id (\<lambda>_. ok 0)
      | TypeSymlink \<Rightarrow> or_return (createSymlink entryPath tarHeader spec) id (\<lambda>_. ok 0)
      | TypeDir \<Rightarrow> or_return (createDirectory entryPath tarHeader spec) id (\<lambda>_. ok 0)
      | TypeReg \<Rightarrow> createRegularFile entryPath tarHeader content broken spec
      | TypeRegA \<Rightarrow> createRegularFile entryPath tarHeader content broken spec
      | TypeOther _ \<Rightarrow> ok 0)"

definition opaque_mark :: string where "opaque_mark = ''.wh..wh..opq''"
definition whiteout_mark :: string where "whiteout_mark = ''.wh.''"

text \<open>
  One turn of the loop; the result is the number of bytes that the entry adds. Content that is not
  copied is skipped when the next header is read, where a cut-off content is an error too.
\<close>

definition unpack_entry :: "UnpackSpec \<Rightarrow> tar_header \<Rightarrow> string \<Rightarrow> error option \<Rightarrow> (error + int) tio" where
  "unpack_entry spec tarHeader content broken =
     (let entryPath = Join [us_BaseDirectory spec, th_Name tarHeader] in
      if contains (th_Name tarHeader) opaque_mark then
        or_return (tar_cleanWhiteoutDir (Dir entryPath)) id (\<lambda>_. ok 0)
      else if contains (th_Name tarHeader) whiteout_mark then
        or_return (removeWhiteout entryPath) id (\<lambda>_. ok 0)
      else handleEntry entryPath tarHeader content broken spec)"

fun unpack_loop :: "UnpackSpec \<Rightarrow> tar_item list \<Rightarrow> int \<Rightarrow> (error + int) tio" where
  "unpack_loop spec [] totalBytesUnpacked = ok totalBytesUnpacked"
| "unpack_loop spec (Broken err # rest) totalBytesUnpacked = fail err"
| "unpack_loop spec (Entry tarHeader content broken # rest) totalBytesUnpacked =
     or_return (unpack_entry spec tarHeader content broken) id (\<lambda>entrySize.
     (case broken of
        Some err \<Rightarrow> fail err
      | None \<Rightarrow> unpack_loop spec rest (wrap64 (totalBytesUnpacked + entrySize))))"

definition chroot :: "string \<Rightarrow> (error + unit) tio" where
  "chroot path =
     or_return (t_Chroot path) id (\<lambda>_.
     or_return (t_Chdir ''/'') id (\<lambda>_.
     ok ()))"

definition safeMkdir :: "string \<Rightarrow> filemode \<Rightarrow> (error + unit) tio" where
  "safeMkdir path perm = do {
     st \<leftarrow> t_Stat path;
     (case st of
        Inr _ \<Rightarrow> ok ()
      | Inl _ \<Rightarrow> or_return (t_Mkdir path perm) (Wrap (''making destination directory `'' @ path @ ''`'')) (\<lambda>_. ok ()))
   }"

definition unpack :: "TarUnpacker \<Rightarrow> UnpackSpec \<Rightarrow> tar_item list \<Rightarrow> (error + UnpackOutput) tio" where
  "unpack u spec archive =
     or_return (safeMkdir (us_TargetPath spec) 0x1ED) id (\<lambda>_.
     or_return (chroot (us_TargetPath spec)) (Wrap ''failed to chroot'') (\<lambda>_.
     or_return (unpack_loop spec archive 0) id (\<lambda>totalBytesUnpacked.
     ok \<lparr>uo_BytesWritten = totalBytesUnpacked, uo_OpaqueWhiteouts = []\<rparr>)))"

section \<open>The chroot-unpack process\<close>

text \<open>A nil slice is \<open>null\<close>; an empty one is written as nil, and both are read as empty.\<close>

definition mapping_json :: "IDMappingSpec \<Rightarrow> json" where
  "mapping_json m = JObj [(''HostID'', JNum (HostID m)), (''NamespaceID'', JNum (NamespaceID m)), (''Size'', JNum (Size m))]"

definition mapping_specs_json :: "IDMappingSpec list \<Rightarrow> json" where
  "mapping_specs_json ms = (if ms = [] then JNull else JArr (map mapping_json ms))"

definition int_member :: "string \<Rightarrow> json \<Rightarrow> int option" where
  "int_member k j = Option.bind (member k j) int_of_json"

definition mapping_of_json :: "json \<Rightarrow> IDMappingSpec option" where
  "mapping_of_json j =
     (case (int_member ''HostID'' j, int_member ''NamespaceID'' j, int_member ''Size'' j) of
        (Some h, Some n, Some s) \<Rightarrow> Some \<lparr>HostID = h, NamespaceID = n, Size = s\<rparr>
      | _ \<Rightarrow> None)"

fun mapping_specs_of_json :: "json \<Rightarrow> IDMappingSpec list option" where
  "mapping_specs_of_json JNull = Some []"
| "mapping_specs_of_json (JArr js) = all_some (map mapping_of_json js)"
| "mapping_specs_of_json _ = None"

definition unpack_spec_json :: "UnpackSpec \<Rightarrow> json" where
  "unpack_spec_json spec = JObj
     [(''TargetPath'', JStr (us_TargetPath spec)), (''UIDMappings'', mapping_specs_json (us_UIDMappings spec)),
      (''GIDMappings'', mapping_specs_json (us_GIDMappings spec)), (''BaseDirectory'', JStr (us_BaseDirectory spec))]"

text \<open>The stream is not part of the text; the process gives it its standard input.\<close>

definition unpack_spec_of_json :: "blob \<Rightarrow> json \<Rightarrow> UnpackSpec option" where
  "unpack_spec_of_json input j =
     (case (string_member ''TargetPath'' j, Option.bind (member ''UIDMappings'' j) mapping_specs_of_json,
            Option.bind (member ''GIDMappings'' j) mapping_specs_of_json, string_member ''BaseDirectory'' j) of
        (Some t, Some us, Some gs, Some b) \<Rightarrow>
          Some \<lparr>us_Stream = input, us_TargetPath = t, us_UIDMappings = us, us_GIDMappings = gs, us_BaseDirectory = b\<rparr>
      | _ \<Rightarrow> None)"

definition strategy_json :: "UnpackStrategy \<Rightarrow> json" where
  "strategy_json s = JObj [(''Name'', JStr (st_Name s)), (''WhiteoutDevicePath'', JStr (st_WhiteoutDevicePath s))]"

definition strategy_of_json :: "json \<Rightarrow> UnpackStrategy option" where
  "strategy_of_json j =
     (case (string_member ''Name'' j, string_member ''WhiteoutDevicePath'' j) of
        (Some n, Some w) \<Rightarrow> Some \<lparr>st_Name = n, st_WhiteoutDevicePath = w\<rparr> | _ \<Rightarrow> None)"

definition output_json :: "UnpackOutput \<Rightarrow> json" where
  "output_json r = JObj [(''BytesWritten'', JNum (uo_BytesWritten r)),
     (''OpaqueWhiteouts'', if uo_OpaqueWhiteouts r = [] then JNull else json_strings (uo_OpaqueWhiteouts r))]"

definition output_of_json :: "json \<Rightarrow> UnpackOutput option" where
  "output_of_json j =
     (case (int_member ''BytesWritten'' j, Option.bind (member ''OpaqueWhiteouts'' j) strings_of_json) of
        (Some n, Some ws) \<Rightarrow> Some \<lparr>uo_BytesWritten = n, uo_OpaqueWhiteouts = ws\<rparr> | _ \<Rightarrow> None)"

text \<open>The exit code of the process; a failure prints its error.\<close>

definition t_exit :: "error \<Rightarrow> int tio" where
  "t_exit err = do { _ \<leftarrow> t_print (error_text err @ [CHR 0x0A]); State_Monad.return 1 }"

definition chroot_unpack :: "(string \<Rightarrow> tar_item list) \<Rightarrow> string \<Rightarrow> string \<Rightarrow> string \<Rightarrow> int tio" where
  "chroot_unpack read_tar unpackSpecJSON unpackStrategyJSON stdin =
     (case Option.bind (json_unmarshal unpackSpecJSON) (unpack_spec_of_json \<lparr>bl_data = stdin, bl_temp = None\<rparr>) of
        None \<Rightarrow> t_exit (Plain ''json: cannot unmarshal'')
      | Some unpackSpec \<Rightarrow>
          (case Option.bind (json_unmarshal unpackStrategyJSON) strategy_of_json of
             None \<Rightarrow> t_exit (Plain ''json: cannot unmarshal'')
           | Some unpackStrategy \<Rightarrow>
               (case NewTarUnpacker unpackStrategy of
                  Inl err \<Rightarrow> t_exit err
                | Inr unpacker \<Rightarrow> do {
                    r \<leftarrow> unpack unpacker unpackSpec (read_tar (bl_data (us_Stream unpackSpec)));
                    (case r of
                       Inl err \<Rightarrow> t_exit err
                     | Inr unpackOutput \<Rightarrow> do {
                         _ \<leftarrow> t_print (json_encode (output_json unpackOutput));
                         State_Monad.return 0
                       })
                  })))"

section \<open>Containment\<close>

lemma tar_clean_contents_contained: "evolves (contained R) (tar_clean_contents p cs)"
  by (induction cs) (auto intro!: evolves_rules)

lemma chown_if_root_contained:
  "(\<And>s u g. evolves (contained R) (call s u g)) \<Longrightarrow> evolves (contained R) (chown_if_root call what p h spec)"
  unfolding chown_if_root_def by (intro evolves_rules)

lemma changeModTime_contained [evolves_rules]: "evolves (contained R) (changeModTime p m)"
  unfolding changeModTime_def by (intro evolves_rules)

lemma create_contained [evolves_rules]:
  "evolves (contained R) (createDirectory p h spec)" "evolves (contained R) (createSymlink p h spec)"
  "evolves (contained R) (createLink p h)"
  unfolding createDirectory_def createSymlink_def createLink_def
  by (intro evolves_rules chown_if_root_contained)+

lemma createRegularFile_contained [evolves_rules]: "evolves (contained R) (createRegularFile p h c broken spec)"
  unfolding createRegularFile_def write_file_def io_Copy_def by (intro evolves_rules chown_if_root_contained)

lemma unpack_entry_contained [evolves_rules]: "evolves (contained R) (unpack_entry spec h c broken)"
  unfolding unpack_entry_def tar_cleanWhiteoutDir_def removeWhiteout_def handleEntry_def
  by (cases "th_Typeflag h"; simp only: typeflag.case; intro evolves_rules tar_clean_contents_contained)

lemma unpack_loop_contained: "evolves (contained R) (unpack_loop spec items n)"
proof (induction spec items n rule: unpack_loop.induct)
  case (3 spec h c broken rest n)
  then show ?case by (cases broken) (auto intro!: evolves_rules)
qed (auto intro!: evolves_rules)

text \<open>
  A process that can be confined to \<open>R\<close>: no file is open, and the hard links of what is below \<open>R\<close>
  are below \<open>R\<close>, as they are for a subvolume.
\<close>

definition separate :: "path \<Rightarrow> tree \<Rightarrow> bool" where
  "separate R t \<longleftrightarrow> confined R (t\<lparr>t_root := R, t_cwd := R\<rparr>)"

lemma tcall_cases:
  assumes "run_state (tcall mk f) t = (r, t')"
  shows "(\<exists>e. r = Inl (mk e) \<and> t' = t\<lparr>t_clock := Suc (t_clock t)\<rparr>) \<or>
    (\<exists>x. r = Inr x \<and> f (t\<lparr>t_clock := Suc (t_clock t)\<rparr>) = Inr (x, t'))"
  using assms by (auto simp: tcall_def Let_def split: option.splits sum.splits)

text \<open>Everything but the clock stays.\<close>

definition unmoved :: "tree \<Rightarrow> tree \<Rightarrow> bool" where
  "unmoved s t \<longleftrightarrow> t = s\<lparr>t_clock := t_clock t\<rparr>"

lemma unmoved_tick [simp]: "unmoved t (t\<lparr>t_clock := c\<rparr>)"
  by (auto simp: unmoved_def)

lemma unmoved_tick2 [simp]: "unmoved (t\<lparr>t_clock := b\<rparr>) (t\<lparr>t_clock := c\<rparr>)"
  by (simp add: unmoved_def)

lemma unmoved_trans: "unmoved s t \<Longrightarrow> unmoved t u \<Longrightarrow> unmoved s u"
  unfolding unmoved_def by (metis tree.unfold_congs(7) tree.update_convs(7) tree.surjective)

text \<open>The clock comes first.\<close>

lemma clock_first [simp]:
  "t\<lparr>t_root := r, t_clock := c\<rparr> = t\<lparr>t_clock := c, t_root := r\<rparr>"
  "t\<lparr>t_cwd := r, t_clock := c\<rparr> = t\<lparr>t_clock := c, t_cwd := r\<rparr>"
  by (cases t; simp)+

lemma walk_tick: "walk n (t\<lparr>t_clock := c\<rparr>) follow cur cs = walk n t follow cur cs"
proof (induction n t follow cur cs rule: walk.induct)
  case (2 n t follow cur d cs)
  then show ?case by (auto split: option.splits kind.splits) fastforce+
qed simp

lemma walk_simps [simp]:
  "t_walk (t\<lparr>t_clock := c\<rparr>) follow p = t_walk t follow p"
  "t_stat follow p (t\<lparr>t_clock := c\<rparr>) = t_stat follow p t"
  by (simp_all add: t_walk_def t_stat_def walk_tick split: sum.splits option.splits)

lemma t_Stat_unmoved: "run_state (t_Stat p) t = (r, t') \<Longrightarrow> unmoved t t'"
  unfolding t_Stat_def
  by (drule tcall_cases) (auto simp: map_sum_def split: sum.splits)

text \<open>A path that leads to an existing directory, whether or not a last link is followed.\<close>

definition leads_to :: "tree \<Rightarrow> string \<Rightarrow> path \<Rightarrow> bool" where
  "leads_to t p R \<longleftrightarrow> (\<forall>follow. t_walk t follow p = Inr R) \<and> (\<exists>nd. entry_at t R = Some nd \<and> is_dir nd)"

lemma leads_to_stat: "leads_to t p R \<Longrightarrow> \<exists>i nd. t_stat follow p t = Inr (R, i, nd) \<and> is_dir nd"
  by (auto simp: leads_to_def t_stat_def entry_at_def split: option.splits Option.bind_splits)

lemma safeMkdir_unmoved:
  assumes "run_state (safeMkdir p m) t = (r, t')" and "leads_to t p R"
  shows "unmoved t t'"
proof -
  obtain st t1 where 1: "run_state (t_Stat p) t = (st, t1)" by fastforce
  then obtain c where t1: "t1 = t\<lparr>t_clock := c\<rparr>" using t_Stat_unmoved unfolding unmoved_def by blast
  have mk: "unmoved t1 u" if "run_state (t_Mkdir p m) t1 = (x, u)" for x u
    using tcall_cases [OF that [unfolded t_Mkdir_def]] assms(2)
    by (auto simp: t_create_def leads_to_def t1)
  have "unmoved t1 t'"
    using assms(1) 1 mk by (auto simp: safeMkdir_def t1 split: sum.splits prod.splits)
  with t1 show ?thesis by (metis unmoved_tick unmoved_trans)
qed

lemma chroot_confines:
  assumes "run_state (chroot p) t = (r, t')" and "leads_to t p R"
  shows "(\<exists>x. r = Inl x \<and> t_names t' = t_names t \<and> t_inodes t' = t_inodes t) \<or>
    (\<exists>c. r = Inr () \<and> t' = t\<lparr>t_clock := c, t_root := R, t_cwd := R\<rparr>)"
proof -
  obtain i nd where stat: "t_stat True p t = Inr (R, i, nd)" "is_dir nd" using leads_to_stat [OF assms(2)] by blast
  obtain x t1 where 1: "run_state (t_Chroot p) t = (x, t1)" by fastforce
  show ?thesis
  proof (cases x)
    case (Inl e)
    with 1 assms(1) have "r = Inl e" "t' = t1" by (auto simp: chroot_def)
    moreover have "t_names t1 = t_names t \<and> t_inodes t1 = t_inodes t"
      using tcall_cases [OF 1 [unfolded t_Chroot_def]] Inl stat by (auto split: if_splits)
    ultimately show ?thesis by auto
  next
    case (Inr u)
    then obtain c where t1: "t1 = t\<lparr>t_clock := c, t_root := R\<rparr>"
      using tcall_cases [OF 1 [unfolded t_Chroot_def]] stat by (auto split: if_splits)
    obtain y t2 where 2: "run_state (t_Chdir ''/'') t1 = (y, t2)" by fastforce
    have stat1: "t_stat True ''/'' (t1\<lparr>t_clock := d\<rparr>) = Inr (R, i, nd)" for d
      using stat(1)
      by (auto simp: t_stat_def t_walk_def path_comps_def rooted_def t1 split: sum.splits option.splits)
    from tcall_cases [OF 2 [unfolded t_Chdir_def]]
    show ?thesis
    proof
      assume "\<exists>e. y = Inl (PathError ''chdir'' ''/'' e) \<and> t2 = t1\<lparr>t_clock := Suc (t_clock t1)\<rparr>"
      with 1 2 Inr assms(1) t1 show ?thesis by (auto simp: chroot_def)
    next
      assume "\<exists>z. y = Inr z \<and> (case t_stat True ''/'' (t1\<lparr>t_clock := Suc (t_clock t1)\<rparr>) of Inl e \<Rightarrow> Inl e
          | Inr (p, _, nd) \<Rightarrow> if is_dir nd then Inr ((), t1\<lparr>t_clock := Suc (t_clock t1), t_cwd := p\<rparr>) else Inl ENOTDIR) = Inr (z, t2)"
      with stat1 stat(2) have "y = Inr ()" "t2 = t1\<lparr>t_clock := Suc (t_clock t1), t_cwd := R\<rparr>" by auto
      with 1 2 Inr assms(1) t1 show ?thesis by (auto simp: chroot_def)
    qed
  qed
qed

lemma unpack_contained_lemma:
  assumes "run_state (unpack u spec items) t = (r, t')" and "leads_to t (us_TargetPath spec) R" and "separate R t"
    and "\<not> prefix R q"
  shows "ino t' q = ino t q \<and> entry_at t' q = entry_at t q"
proof -
  let ?p = "us_TargetPath spec"
  obtain x t1 where 1: "run_state (safeMkdir ?p 0x1ED) t = (x, t1)" by fastforce
  with assms(2) obtain c where t1: "t1 = t\<lparr>t_clock := c\<rparr>" using safeMkdir_unmoved unfolding unmoved_def by blast
  obtain y t2 where 2: "run_state (chroot ?p) t1 = (y, t2)" by fastforce
  have lead1: "leads_to t1 ?p R" using assms(2) by (simp add: leads_to_def t1)
  obtain z t3 where 3: "run_state (unpack_loop spec items 0) t2 = (z, t3)" by fastforce
  have "t' = t1 \<or> t' = t2 \<and> isl y \<or> t' = t3 \<and> \<not> isl y"
    using assms(1) 1 2 3 by (auto simp: unpack_def split: sum.splits)
  then show ?thesis
  proof (elim disjE conjE)
    assume "t' = t1" then show ?thesis by (simp add: t1)
  next
    assume "t' = t2" "isl y"
    with chroot_confines [OF 2 lead1] show ?thesis
      by (auto simp: t1 ino_def entry_at_def inode_def [abs_def])
  next
    assume "t' = t3" "\<not> isl y"
    with chroot_confines [OF 2 lead1] obtain d where t2: "t2 = t1\<lparr>t_clock := d, t_root := R, t_cwd := R\<rparr>" by auto
    then have "confined R t2"
      using assms(3) confined_tick [where R = R and t = "t\<lparr>t_root := R, t_cwd := R\<rparr>" and c = d] by (simp add: separate_def t1)
    moreover have "contained R t2 t3" using unpack_loop_contained 3 by (rule evolvesD)
    ultimately show ?thesis
      using \<open>t' = t3\<close> assms(4) containedD(2,3) by (simp add: t2 t1)
  qed
qed

text \<open>The volume itself stands: no entry removes or replaces the directory that is unpacked into.\<close>

lemma unpack_loop_stands: "evolves (stands R) (unpack_loop spec items n)"
proof -
  have contents: "evolves (stands R) (tar_clean_contents p cs)" for p cs
    by (induction cs) (auto intro!: evolves_rules)
  have time [evolves_rules]: "evolves (stands R) (changeModTime p m)" for p m
    unfolding changeModTime_def by (intro evolves_rules)
  have entry [evolves_rules]: "evolves (stands R) (unpack_entry sp h c broken)" for sp h c broken
    unfolding unpack_entry_def tar_cleanWhiteoutDir_def removeWhiteout_def handleEntry_def createDirectory_def
      createSymlink_def createLink_def createRegularFile_def write_file_def io_Copy_def chown_if_root_def
    by (cases "th_Typeflag h"; simp only: typeflag.case; intro evolves_rules contents)
  show ?thesis
  proof (induction spec items n rule: unpack_loop.induct)
    case (3 spec h c broken rest n)
    then show ?case by (cases broken) (auto intro!: evolves_rules entry)
  qed (auto intro!: evolves_rules)
qed

lemma unpack_stands:
  assumes "run_state (unpack u spec items) t = (r, t')" and "leads_to t (us_TargetPath spec) R" and "separate R t"
    and "volume_in t R"
  shows "volume_in t' R"
proof -
  let ?p = "us_TargetPath spec"
  obtain x t1 where 1: "run_state (safeMkdir ?p 0x1ED) t = (x, t1)" by fastforce
  with assms(2) obtain c where t1: "t1 = t\<lparr>t_clock := c\<rparr>" using safeMkdir_unmoved unfolding unmoved_def by blast
  obtain y t2 where 2: "run_state (chroot ?p) t1 = (y, t2)" by fastforce
  have lead1: "leads_to t1 ?p R" using assms(2) by (simp add: leads_to_def t1)
  obtain z t3 where 3: "run_state (unpack_loop spec items 0) t2 = (z, t3)" by fastforce
  have "t' = t1 \<or> t' = t2 \<and> isl y \<or> t' = t3 \<and> \<not> isl y"
    using assms(1) 1 2 3 by (auto simp: unpack_def split: sum.splits)
  then show ?thesis
  proof (elim disjE conjE)
    assume "t' = t1" then show ?thesis using assms(4) by (simp add: t1)
  next
    assume "t' = t2" "isl y"
    with chroot_confines [OF 2 lead1] assms(4) show ?thesis
      by (auto simp: t1 volume_in_def entry_at_def ino_def inode_def [abs_def])
  next
    assume "t' = t3" "\<not> isl y"
    with chroot_confines [OF 2 lead1] obtain d where t2: "t2 = t1\<lparr>t_clock := d, t_root := R, t_cwd := R\<rparr>" by auto
    then have "confined R t2"
      using assms(3) confined_tick [where R = R and t = "t\<lparr>t_root := R, t_cwd := R\<rparr>" and c = d] by (simp add: separate_def t1)
    moreover have "volume_in t2 R" using assms(4) by (simp add: t2 t1 volume_in_def)
    moreover have "stands R t2 t3" using unpack_loop_stands 3 by (rule evolvesD)
    ultimately show ?thesis using \<open>t' = t3\<close> by (simp add: stands_def)
  qed
qed

section \<open>Whiteouts\<close>

lemma t_RemoveAll_result:
  assumes "run_state (t_RemoveAll s) t = (Inr (), t')" and "t_walk t False s = Inr q"
  shows "\<exists>c. t' = drop_names (prefix q) (t\<lparr>t_clock := c\<rparr>)"
proof -
  obtain x t1 where 1: "run_state (tcall (PathError ''unlinkat'' s) (t_remove_all s)) t = (x, t1)" by fastforce
  with assms(1) have "x = Inr None" "t' = t1"
    by (auto simp: t_RemoveAll_def split: sum.splits option.splits)
  with tcall_cases [OF 1] assms(2) have "t' = drop_names (prefix q) (t\<lparr>t_clock := Suc (t_clock t)\<rparr>)"
    by (auto simp: t_remove_all_def split: if_splits)
  then show ?thesis by blast
qed

text \<open>
  A directory named without symbolic links and without \<open>..\<close>: every prefix of the path is a
  directory.
\<close>

definition start_of :: "tree \<Rightarrow> string \<Rightarrow> path" where
  "start_of t s = (if rooted s then t_root t else t_cwd t)"

definition plain_dir :: "tree \<Rightarrow> string \<Rightarrow> bool" where
  "plain_dir t s \<longleftrightarrow> s \<noteq> [] \<and> ''..'' \<notin> set (path_comps s) \<and>
     list_all (\<lambda>xs. dir_in t (start_of t s @ xs)) (prefixes (path_comps s))"

lemma plain_dirD: "plain_dir t s \<Longrightarrow> prefix xs (path_comps s) \<Longrightarrow> dir_in t (start_of t s @ xs)"
  by (simp add: plain_dir_def list_all_iff)

lemma dir_in_not_symlink: "dir_in t p \<Longrightarrow> \<not> symlink_in t p"
  by (auto simp: dir_in_def symlink_in_def is_dir_def split: option.splits kind.splits)

lemma walk_plain_dir: "plain_dir t s \<Longrightarrow> t_walk t follow s = Inr (start_of t s @ path_comps s)"
  unfolding t_walk_def start_of_def [symmetric]
  by (simp add: plain_dir_def [of t s])
    (rule walk_direct, auto simp: plain_dir_def intro!: plain_dirD dir_in_not_symlink prefixI)

lemma walk_plain_entry:
  assumes "plain_dir t p" and "p = Go_Path.Clean s" and "plain_name c"
  shows "t_walk t False (Join [p, c]) = Inr (start_of t p @ path_comps p @ [c])"
proof -
  note join = path_comps_Join [OF assms(2,3)]
  have "c \<noteq> ''..''" using assms(3) by (simp add: plain_name_def)
  have "walk max_symlinks t False (start_of t p) (path_comps p @ [c]) = Inr (start_of t p @ (path_comps p @ [c]))"
  proof (rule walk_direct)
    show "''..'' \<notin> set (path_comps p @ [c])" using assms(1) \<open>c \<noteq> ''..''\<close> by (simp add: plain_dir_def)
    fix xs ys assume "path_comps p @ [c] = xs @ ys" "ys \<noteq> []"
    then have "prefix xs (path_comps p)" by (metis butlast_append butlast_snoc prefixI)
    then show "dir_in t (start_of t p @ xs)" by (rule plain_dirD [OF assms(1)])
  qed simp
  then show ?thesis using join by (simp add: t_walk_def start_of_def)
qed

lemma tick_simps [simp]:
  "inode (t\<lparr>t_clock := c\<rparr>) = inode t" "start_of (t\<lparr>t_clock := c\<rparr>) s = start_of t s"
  "dir_in (t\<lparr>t_clock := c\<rparr>) = dir_in t" "plain_dir (t\<lparr>t_clock := c\<rparr>) s = plain_dir t s"
  by (simp_all add: fun_eq_iff start_of_def dir_in_def plain_dir_def)

lemma start_of_drop [simp]: "start_of (drop_names P (t\<lparr>t_clock := c\<rparr>)) s = start_of t s"
  by (simp add: start_of_def)

lemma dir_in_drop: "\<not> P x \<Longrightarrow> dir_in (drop_names P (t\<lparr>t_clock := c\<rparr>)) x = dir_in t x"
  by (simp add: dir_in_def entry_at_def)

lemma plain_dir_drop:
  assumes "plain_dir t p"
  shows "plain_dir (drop_names (prefix ((start_of t p @ path_comps p) @ [d])) (t\<lparr>t_clock := c\<rparr>)) p"
proof -
  have "\<not> prefix ((start_of t p @ path_comps p) @ [d]) (start_of t p @ xs)" if "prefix xs (path_comps p)" for xs
    using prefix_length_le [OF that] by (auto dest!: prefix_length_le)
  with assms show ?thesis by (simp add: plain_dir_def list_all_iff dir_in_drop)
qed

lemma drop_drop: "drop_names P ((drop_names Q (t\<lparr>t_clock := b\<rparr>))\<lparr>t_clock := c\<rparr>) = drop_names (\<lambda>x. P x \<or> Q x) (t\<lparr>t_clock := c\<rparr>)"
  by (simp add: drop_names_def case_prod_beta' conj_commute)

lemma tar_clean_contents_result:
  assumes "run_state (tar_clean_contents p cs) t = (Inr (), t')" and "plain_dir t p" and "p = Go_Path.Clean s"
    and "\<forall>d\<in>set cs. plain_name d"
  shows "\<exists>c. t' = drop_names (\<lambda>x. \<exists>d\<in>set cs. prefix ((start_of t p @ path_comps p) @ [d]) x) (t\<lparr>t_clock := c\<rparr>)"
  using assms
proof (induction cs arbitrary: t)
  case Nil
  then have "t' = drop_names (\<lambda>x. False) (t\<lparr>t_clock := t_clock t\<rparr>)" by (simp add: drop_names_def)
  then show ?case by (intro exI [of _ "t_clock t"]) simp
next
  case (Cons d cs)
  let ?q = "start_of t p @ path_comps p"
  obtain t1 where 1: "run_state (t_RemoveAll (Join [p, d])) t = (Inr (), t1)"
    and 2: "run_state (tar_clean_contents p cs) t1 = (Inr (), t')"
    using Cons.prems(1) by (auto split: prod.splits sum.splits)
  have "t_walk t False (Join [p, d]) = Inr (?q @ [d])"
    using walk_plain_entry [OF Cons.prems(2,3)] Cons.prems(4) by simp
  from t_RemoveAll_result [OF 1 this] obtain b where t1: "t1 = drop_names (prefix (?q @ [d])) (t\<lparr>t_clock := b\<rparr>)" by blast
  have "plain_dir t1 p" unfolding t1 by (rule plain_dir_drop [OF Cons.prems(2)])
  from Cons.IH [OF 2 this Cons.prems(3)] Cons.prems(4)
  obtain c where "t' = drop_names (\<lambda>x. \<exists>d\<in>set cs. prefix (?q @ [d]) x) (t1\<lparr>t_clock := c\<rparr>)"
    by (auto simp: t1)
  also have "\<dots> = drop_names (\<lambda>x. \<exists>d\<in>set (d # cs). prefix (?q @ [d]) x) (t\<lparr>t_clock := c\<rparr>)"
    unfolding t1 drop_drop by (rule arg_cong2 [where f = drop_names]) auto
  finally show ?case by blast
qed

text \<open>Names are plain, and the directory of a name is a name.\<close>

definition well_named :: "tree \<Rightarrow> bool" where
  "well_named t \<longleftrightarrow> list_all (\<lambda>(x, _). list_all plain_name x \<and> (x = [] \<or> ino t (butlast x) \<noteq> None)) (t_names t)"

lemma well_namedD:
  assumes "well_named t" and "ino t x \<noteq> None"
  shows "list_all plain_name x" and "x \<noteq> [] \<Longrightarrow> ino t (butlast x) \<noteq> None"
proof -
  obtain i where "(x, i) \<in> set (t_names t)" using assms(2) by (auto simp: ino_def dest: map_of_SomeD)
  with assms(1) show "list_all plain_name x" "x \<noteq> [] \<Longrightarrow> ino t (butlast x) \<noteq> None"
    by (auto simp: well_named_def list_all_iff)
qed

lemma well_named_prefix: "well_named t \<Longrightarrow> ino t x \<noteq> None \<Longrightarrow> prefix y x \<Longrightarrow> ino t y \<noteq> None"
proof (induction x rule: rev_induct)
  case (snoc c x)
  then show ?case using well_namedD(2) [OF snoc.prems(1,2)] by (cases "y = x @ [c]") auto
qed simp

lemma set_t_children: "d \<in> set (t_children q t) \<longleftrightarrow> ino t (q @ [d]) \<noteq> None"
proof -
  have "d \<in> set (t_children q t) \<longleftrightarrow> (\<exists>x \<in> fst ` set (t_names t). x \<noteq> [] \<and> butlast x = q \<and> last x = d)"
    by (force simp: t_children_def)
  also have "\<dots> \<longleftrightarrow> q @ [d] \<in> fst ` set (t_names t)"
    by (metis append_butlast_last_id butlast_snoc last_snoc snoc_eq_iff_butlast)
  finally show ?thesis by (simp add: ino_def map_of_eq_None_iff)
qed

lemma tar_cleanWhiteoutDir_result:
  assumes "run_state (tar_cleanWhiteoutDir p) t = (Inr (), t')" and "plain_dir t p" and "p = Go_Path.Clean s"
    and "well_named t"
  shows "ino t' x = (if strict_prefix (start_of t p @ path_comps p) x then None else ino t x)"
proof -
  let ?q = "start_of t p @ path_comps p"
  obtain cs t1 where 1: "run_state (t_ReadDir p) t = (Inr cs, t1)"
    and 2: "run_state (tar_clean_contents p cs) t1 = (Inr (), t')"
    using assms(1) by (auto simp: tar_cleanWhiteoutDir_def split: prod.splits sum.splits)
  have "dir_in t ?q" using plain_dirD [OF assms(2), of "path_comps p"] by simp
  then obtain i nd where "ino t ?q = Some i" "inode t i = Some nd" "is_dir nd"
    by (auto simp: dir_in_def entry_at_def split: option.splits Option.bind_splits)
  then have stat: "t_stat True p t = Inr (?q, i, nd)" "is_dir nd"
    by (simp_all add: t_stat_def walk_plain_dir [OF assms(2)])
  define c where "c = Suc (t_clock t)"
  have t1: "t1 = t\<lparr>t_clock := c\<rparr>" and cs: "cs = t_children ?q (t\<lparr>t_clock := c\<rparr>)"
    using tcall_cases [OF 1 [unfolded t_ReadDir_def]] stat by (auto simp: c_def)
  have set_cs: "d \<in> set cs \<longleftrightarrow> ino t (?q @ [d]) \<noteq> None" for d by (simp add: cs set_t_children)
  have "\<forall>d\<in>set cs. plain_name d"
  proof
    fix d assume "d \<in> set cs"
    then have "ino t (?q @ [d]) \<noteq> None" by (simp only: set_cs not_False_eq_True)
    from well_namedD(1) [OF assms(4) this] show "plain_name d" by simp
  qed
  moreover have "plain_dir t1 p" using assms(2) by (simp add: t1)
  ultimately obtain e where "t' = drop_names (\<lambda>x. \<exists>d\<in>set cs. prefix ((start_of t1 p @ path_comps p) @ [d]) x) (t1\<lparr>t_clock := e\<rparr>)"
    using tar_clean_contents_result [OF 2 _ assms(3)] by blast
  moreover have "start_of t1 p = start_of t p" "t1\<lparr>t_clock := e\<rparr> = t\<lparr>t_clock := e\<rparr>" by (simp_all add: t1)
  ultimately have t': "t' = drop_names (\<lambda>x. \<exists>d\<in>set cs. prefix (?q @ [d]) x) (t\<lparr>t_clock := e\<rparr>)"
    by (simp only:)
  show ?thesis
  proof (cases "strict_prefix ?q x")
    case True
    then obtain d ys where x: "x = (?q @ [d]) @ ys" by (auto elim!: strict_prefixE')
    then have pre: "prefix (?q @ [d]) x" by simp
    have "ino t' x = None"
    proof (cases "ino t x = None")
      case True
      then show ?thesis unfolding t' by simp
    next
      case False
      from well_named_prefix [OF assms(4) False pre] have "d \<in> set cs" by (simp only: set_cs not_False_eq_True)
      with pre have "\<exists>d\<in>set cs. prefix (?q @ [d]) x" by (rule bexI)
      then show ?thesis unfolding t' by (simp only: name_simps tree_simps if_True)
    qed
    with True show ?thesis by simp
  next
    case False
    have "\<not> (\<exists>d\<in>set cs. prefix (?q @ [d]) x)"
    proof
      assume "\<exists>d\<in>set cs. prefix (?q @ [d]) x"
      then obtain d where "prefix (?q @ [d]) x" ..
      moreover have "strict_prefix ?q (?q @ [d])" by (rule strict_prefixI' [where z = d and zs = "[]"]) simp
      ultimately show False using False prefix_order.less_le_trans by blast
    qed
    then have "ino t' x = ino t x" unfolding t' by (simp only: name_simps tree_simps if_False)
    with False show ?thesis by simp
  qed
qed

lemma unpack_entry_opaque:
  assumes "contains (th_Name h) opaque_mark" and "run_state (unpack_entry spec h c broken) t = (Inr n, t')"
    and "plain_dir t (Dir (Join [us_BaseDirectory spec, th_Name h]))" and "well_named t"
  shows "n = 0 \<and> ino t' x = (if strict_prefix (start_of t (Dir (Join [us_BaseDirectory spec, th_Name h])) @
      path_comps (Dir (Join [us_BaseDirectory spec, th_Name h]))) x then None else ino t x)"
proof -
  let ?p = "Dir (Join [us_BaseDirectory spec, th_Name h])"
  have "run_state (tar_cleanWhiteoutDir ?p) t = (Inr (), t')" "n = 0"
    using assms(1,2) by (auto simp: unpack_entry_def Let_def split: prod.splits sum.splits)
  with tar_cleanWhiteoutDir_result [OF _ assms(3) Dir_def assms(4)] show ?thesis by simp
qed

lemma unpack_entry_whiteout:
  assumes "\<not> contains (th_Name h) opaque_mark" and "contains (th_Name h) whiteout_mark"
    and "run_state (unpack_entry spec h c broken) t = (Inr n, t')"
    and "t_walk t False (replace_first (Join [us_BaseDirectory spec, th_Name h]) ''.wh.'' []) = Inr q"
  shows "n = 0 \<and> ino t' x = (if prefix q x then None else ino t x)"
proof -
  have "run_state (t_RemoveAll (replace_first (Join [us_BaseDirectory spec, th_Name h]) ''.wh.'' [])) t = (Inr (), t')" "n = 0"
    using assms(1-3) by (auto simp: unpack_entry_def removeWhiteout_def Let_def split: prod.splits sum.splits)
  with t_RemoveAll_result [OF _ assms(4)] show ?thesis by auto
qed

section \<open>Regular files\<close>

text \<open>A path leads to a name with an inode, whether or not a last link is followed.\<close>

definition file_at :: "tree \<Rightarrow> string \<Rightarrow> path \<Rightarrow> nat \<Rightarrow> node \<Rightarrow> bool" where
  "file_at t p q i nd \<longleftrightarrow> (\<forall>follow. t_walk t follow p = Inr q) \<and> ino t q = Some i \<and> inode t i = Some nd \<and>
     (\<exists>s. nd_kind nd = File s)"

text \<open>Trees that differ only in what regular files hold, and in files that one of them lacks.\<close>

definition walks_like :: "tree \<Rightarrow> tree \<Rightarrow> bool" where
  "walks_like s t \<longleftrightarrow> t_root t = t_root s \<and> t_cwd t = t_cwd s \<and>
     (\<forall>x. entry_at t x = entry_at s x \<or>
        (\<exists>nd c. entry_at t x = Some nd \<and> nd_kind nd = File c \<and>
           (case entry_at s x of None \<Rightarrow> True | Some nd0 \<Rightarrow> \<exists>c0. nd_kind nd0 = File c0)))"

lemma walk_like: "walks_like s t \<Longrightarrow> walk n s follow cur cs = Inr q \<Longrightarrow> walk n t follow cur cs = Inr q"
proof (induction n s follow cur cs rule: walk.induct)
  case (2 n s follow cur c cs)
  show ?case
  proof (cases "c = ''..''")
    case True
    with 2 show ?thesis by (simp add: walks_like_def)
  next
    case False
    let ?x = "cur @ [c]"
    have root: "t_root t = t_root s" using 2(5) by (simp add: walks_like_def)
    from 2(5) have "entry_at t ?x = entry_at s ?x \<or>
        (\<exists>nd c. entry_at t ?x = Some nd \<and> nd_kind nd = File c \<and>
           (case entry_at s ?x of None \<Rightarrow> True | Some nd0 \<Rightarrow> \<exists>c0. nd_kind nd0 = File c0))"
      by (simp add: walks_like_def)
    then show ?thesis
    proof
      assume e: "entry_at t ?x = entry_at s ?x"
      show ?thesis using False 2(2-6) e root by (auto split: option.splits kind.splits if_splits) fastforce+
    next
      assume "\<exists>nd c. entry_at t ?x = Some nd \<and> nd_kind nd = File c \<and>
           (case entry_at s ?x of None \<Rightarrow> True | Some nd0 \<Rightarrow> \<exists>c0. nd_kind nd0 = File c0)"
      then show ?thesis using False 2(6) by (auto split: option.splits if_splits)
    qed
  qed
qed simp

lemma t_walk_like: "walks_like s t \<Longrightarrow> t_walk s follow p = Inr q \<Longrightarrow> t_walk t follow p = Inr q"
  using walk_like by (auto simp: t_walk_def walks_like_def split: if_splits)

lemma walks_like_set_inode:
  assumes "inode s i = Some nd" and "nd_kind nd = File c" and "nd_kind nd' = File c'"
  shows "walks_like s (set_inode i nd' s)"
  using assms by (auto simp: walks_like_def entry_at_def split: Option.bind_splits option.splits)

lemma walks_like_new:
  assumes "ino s q = None" and "nd_kind nd = File c" and "\<And>x. ino s x \<noteq> Some (t_next s)"
  shows "walks_like s (new_entry q nd s)"
  using assms by (auto simp: walks_like_def entry_at_def split: Option.bind_splits option.splits if_splits)

text \<open>The calls on a regular file that is already there.\<close>

lemma file_at_clock [simp]: "file_at (t\<lparr>t_clock := c\<rparr>) p q i nd = file_at t p q i nd"
  by (simp add: file_at_def)

lemma file_at_files [simp]: "file_at (t\<lparr>t_files := l\<rparr>) p q i nd = file_at t p q i nd"
proof -
  have "walks_like t (t\<lparr>t_files := l\<rparr>)" "walks_like (t\<lparr>t_files := l\<rparr>) t" by (simp_all add: walks_like_def)
  then have "t_walk (t\<lparr>t_files := l\<rparr>) follow p = Inr q \<longleftrightarrow> t_walk t follow p = Inr q" for follow
    using t_walk_like by blast
  then show ?thesis by (simp add: file_at_def)
qed

lemma file_at_set_inode:
  assumes "file_at t p q i nd" and "nd_kind nd' = File c"
  shows "file_at (set_inode i nd' t) p q i nd'"
proof -
  have "walks_like t (set_inode i nd' t)" using assms by (auto simp: file_at_def intro: walks_like_set_inode)
  with assms t_walk_like show ?thesis by (simp add: file_at_def)
qed

lemma t_update_file:
  assumes "file_at t p q i nd" and "nd_kind (g nd) = nd_kind nd"
    and "run_state (tcall mk (t_update follow p g)) t = (Inr x, t')"
  shows "file_at t' p q i (g nd) \<and> t_uid t' = t_uid t"
proof -
  obtain c where "nd_kind nd = File c" using assms(1) by (auto simp: file_at_def)
  moreover have "t_stat follow p t = Inr (q, i, nd)" using assms(1) by (simp add: t_stat_def file_at_def)
  ultimately have "t' = set_inode i (g nd) (t\<lparr>t_clock := Suc (t_clock t)\<rparr>)"
    using tcall_cases [OF assms(3)] by (auto simp: t_update_def)
  with file_at_set_inode [of "t\<lparr>t_clock := Suc (t_clock t)\<rparr>" p q i nd "g nd" c] assms(1,2) \<open>nd_kind nd = File c\<close>
  show ?thesis by (simp add: set_inode_def)
qed

lemma changeModTime_file:
  assumes "file_at t p q i nd" and "run_state (changeModTime p m) t = (Inr x, t')"
  shows "file_at t' p q i (nd\<lparr>nd_mtime := m\<rparr>) \<and> t_uid t' = t_uid t"
proof -
  obtain r t1 where 1: "run_state (t_utimensat p m) t = (r, t1)" by fastforce
  show ?thesis
  proof (cases r)
    case (Inr y)
    with 1 assms(2) have "t1 = t'" by (auto simp: changeModTime_def split: if_splits)
    with t_update_file [OF assms(1) _ 1 [unfolded t_utimensat_def Inr]] show ?thesis by simp
  next
    case (Inl e)
    with 1 assms(2) have 2: "run_state (t_Chtimes p m) t1 = (Inr x, t')"
      by (auto simp: changeModTime_def split: if_splits)
    have "file_at t1 p q i nd" "t_uid t1 = t_uid t"
      using tcall_cases [OF 1 [unfolded t_utimensat_def Inl]] assms(1) by auto
    with t_update_file [OF _ _ 2 [unfolded t_Chtimes_def]] show ?thesis by simp
  qed
qed

lemma chown_if_root_file:
  assumes "file_at t p q i nd" and "run_state (chown_if_root t_Chown what p h spec) t = (Inr x, t')"
  shows "\<exists>nd'. file_at t' p q i nd' \<and> t_uid t' = t_uid t \<and> nd_kind nd' = nd_kind nd \<and>
    (t_uid t = 0 \<longrightarrow> nd_uid nd' = translateID (th_Uid h) (us_UIDMappings spec) \<and>
       nd_gid nd' = translateID (th_Gid h) (us_GIDMappings spec))"
proof (cases "t_uid t = 0")
  case True
  let ?g = "chowned (translateID (th_Uid h) (us_UIDMappings spec)) (translateID (th_Gid h) (us_GIDMappings spec))"
  have 1: "run_state (t_Chown p (translateID (th_Uid h) (us_UIDMappings spec)) (translateID (th_Gid h) (us_GIDMappings spec))) t = (Inr (), t')"
    using assms(2) True by (auto simp: chown_if_root_def t_Getuid_def Let_def split: prod.splits sum.splits)
  have "nd_kind (?g nd) = nd_kind nd" by (simp add: chowned_def)
  with t_update_file [OF assms(1) _ 1 [unfolded t_Chown_def]]
  have "file_at t' p q i (?g nd)" "t_uid t' = t_uid t" by blast+
  then show ?thesis by (intro exI [of _ "?g nd"]) (simp add: chowned_def)
next
  case False
  with assms(2) have "t' = t" by (auto simp: chown_if_root_def t_Getuid_def)
  with False assms(1) show ?thesis by blast
qed

lemma t_OpenTrunc_file:
  assumes "run_state (t_OpenTrunc p m) t = (Inr i, t')" and "\<forall>follow. t_walk t follow p = Inr q"
    and "\<And>x. ino t x \<noteq> Some (t_next t)"
  shows "\<exists>nd. file_at t' p q i nd \<and> nd_kind nd = File [] \<and> t_uid t' = t_uid t"
proof -
  let ?t = "t\<lparr>t_clock := Suc (t_clock t)\<rparr>"
  show ?thesis
  proof (cases "ino t q")
    case None
    let ?nd = "t_new_node ?t (File []) m"
    have t': "i = t_next t" "t' = (new_entry q ?nd ?t)\<lparr>t_files := t_next t # t_files t\<rparr>"
      using tcall_cases [OF assms(1) [unfolded t_OpenTrunc_def]] assms(2) None by auto
    have "walks_like ?t (new_entry q ?nd ?t)"
      using assms(3) None by (intro walks_like_new [where c = "[]"]) (simp_all add: t_new_node_def)
    with t_walk_like assms(2) have "\<forall>follow. t_walk (new_entry q ?nd ?t) follow p = Inr q" by (metis walk_simps(1))
    then have "file_at (new_entry q ?nd ?t) p q i ?nd" by (simp add: file_at_def t'(1)) (simp add: t_new_node_def)
    then show ?thesis by (intro exI [of _ ?nd]) (simp add: t' new_entry_def set_name_def set_inode_def t_new_node_def)
  next
    case (Some j)
    then obtain nd c where nd: "inode t j = Some nd" "nd_kind nd = File c"
      and t': "i = j" "t' = (set_inode j (nd\<lparr>nd_kind := File []\<rparr>) ?t)\<lparr>t_files := j # t_files t\<rparr>"
      using tcall_cases [OF assms(1) [unfolded t_OpenTrunc_def]] assms(2) by (auto split: option.splits kind.splits)
    have "file_at ?t p q j nd" using assms(2) Some nd by (simp add: file_at_def)
    from file_at_set_inode [OF this, of "nd\<lparr>nd_kind := File []\<rparr>" "[]"]
    show ?thesis by (intro exI [of _ "nd\<lparr>nd_kind := File []\<rparr>"]) (simp add: t' set_inode_def)
  qed
qed

lemma write_file_result:
  assumes "run_state (write_file i p content broken) t = (Inr n, t')" and "file_at t p q i nd" and "nd_kind nd = File []"
  shows "broken = None \<and> n = int (length content) \<and>
    file_at t' p q i (nd\<lparr>nd_kind := File content\<rparr>) \<and> t_uid t' = t_uid t"
proof -
  obtain t1 where 1: "run_state (t_Write i content) t = (Inr (), t1)" and b: "broken = None"
    and 2: "run_state (t_Close i) t1 = (Inr (), t')" and n: "n = int (length content)"
    using assms(1) by (auto simp: write_file_def io_Copy_def split: prod.splits sum.splits option.splits)
  have "t1 = set_inode i (nd\<lparr>nd_kind := File content\<rparr>) (t\<lparr>t_clock := Suc (t_clock t)\<rparr>)"
    using tcall_cases [OF 1 [unfolded t_Write_def]] assms(2,3) by (auto simp: file_at_def split: if_splits)
  then have f1: "file_at t1 p q i (nd\<lparr>nd_kind := File content\<rparr>)" "t_uid t1 = t_uid t"
    using file_at_set_inode [of "t\<lparr>t_clock := Suc (t_clock t)\<rparr>" p q i nd "nd\<lparr>nd_kind := File content\<rparr>" content] assms(2)
    by (simp_all add: set_inode_def)
  have "t' = t1\<lparr>t_clock := Suc (t_clock t1), t_files := remove1 i (t_files t1)\<rparr>"
    using tcall_cases [OF 2 [unfolded t_Close_def]] by auto
  with f1 b n show ?thesis by simp
qed

lemma createRegularFile_result:
  assumes "run_state (createRegularFile p h content broken spec) t = (Inr n, t')"
    and "\<forall>follow. t_walk t follow p = Inr q" and "\<And>x. ino t x \<noteq> Some (t_next t)"
  shows "broken = None \<and> n = int (length content) \<and>
    (\<exists>nd. entry_at t' q = Some nd \<and> nd_kind nd = File content \<and> nd_mode nd = th_Mode h \<and> nd_mtime nd = th_ModTime h \<and>
      (t_uid t = 0 \<longrightarrow> nd_uid nd = translateID (th_Uid h) (us_UIDMappings spec) \<and>
         nd_gid nd = translateID (th_Gid h) (us_GIDMappings spec)))"
proof -
  obtain i t1 t2 t3 t4 where 1: "run_state (t_OpenTrunc p (th_Mode h)) t = (Inr i, t1)"
    and 2: "run_state (write_file i p content broken) t1 = (Inr n, t2)"
    and 3: "run_state (chown_if_root t_Chown ''file'' p h spec) t2 = (Inr (), t3)"
    and 4: "run_state (t_Chmod p (th_Mode h)) t3 = (Inr (), t4)"
    and 5: "run_state (changeModTime p (th_ModTime h)) t4 = (Inr (), t')"
    using assms(1) by (auto simp: createRegularFile_def split: prod.splits sum.splits if_splits)
  obtain nd1 where f1: "file_at t1 p q i nd1" "nd_kind nd1 = File []" "t_uid t1 = t_uid t"
    using t_OpenTrunc_file [OF 1 assms(2,3)] by blast
  note w = write_file_result [OF 2 f1(1,2)]
  then have f2: "file_at t2 p q i (nd1\<lparr>nd_kind := File content\<rparr>)" "t_uid t2 = t_uid t" using f1 by auto
  obtain nd3 where f3: "file_at t3 p q i nd3" "nd_kind nd3 = File content"
    "t_uid t = 0 \<longrightarrow> nd_uid nd3 = translateID (th_Uid h) (us_UIDMappings spec) \<and> nd_gid nd3 = translateID (th_Gid h) (us_GIDMappings spec)"
    using chown_if_root_file [OF f2(1) 3] f2(2) by auto
  have "file_at t4 p q i (nd3\<lparr>nd_mode := th_Mode h\<rparr>)"
    using t_update_file [OF f3(1) _ 4 [unfolded t_Chmod_def]] by simp
  from changeModTime_file [OF this 5]
  have "file_at t' p q i (nd3\<lparr>nd_mode := th_Mode h, nd_mtime := th_ModTime h\<rparr>)" by simp
  then have "entry_at t' q = Some (nd3\<lparr>nd_mode := th_Mode h, nd_mtime := th_ModTime h\<rparr>)"
    by (simp add: file_at_def entry_at_def)
  with w f3 show ?thesis by simp
qed

section \<open>Sizes and owners\<close>

definition item_size :: "tar_item \<Rightarrow> int" where
  "item_size item =
     (case item of
        Broken _ \<Rightarrow> 0
      | Entry h content _ \<Rightarrow>
          if contains (th_Name h) whiteout_mark \<or> contains (th_Name h) opaque_mark then 0
          else if th_Typeflag h = TypeReg \<or> th_Typeflag h = TypeRegA then int (length content) else 0)"

lemma createRegularFile_size:
  "run_state (createRegularFile p h content broken spec) t = (Inr n, t') \<Longrightarrow> n = int (length content)"
  by (auto simp: createRegularFile_def write_file_def io_Copy_def split: prod.splits sum.splits option.splits if_splits)

lemma unpack_entry_size:
  assumes "run_state (unpack_entry spec h content broken) t = (Inr n, t')"
  shows "n = item_size (Entry h content broken)"
proof -
  have "run_state (or_return m id (\<lambda>_. ok 0)) t = (Inr n, t') \<Longrightarrow> n = 0" for m :: "(error + unit) tio"
    by (auto split: prod.splits sum.splits)
  with assms createRegularFile_size show ?thesis
    by (cases "th_Typeflag h") (auto simp: unpack_entry_def handleEntry_def item_size_def Let_def split: if_splits)
qed

lemma unpack_loop_size:
  "run_state (unpack_loop spec items m) t = (Inr n, t') \<Longrightarrow> is_int64 m \<Longrightarrow> n = wrap64 (m + sum_list (map item_size items))"
proof (induction spec items m arbitrary: t rule: unpack_loop.induct)
  case (3 spec h content broken rest m)
  then obtain k t1 where 1: "run_state (unpack_entry spec h content broken) t = (Inr k, t1)"
    and 2: "broken = None" "run_state (unpack_loop spec rest (wrap64 (m + k))) t1 = (Inr n, t')"
    by (auto split: prod.splits sum.splits option.splits)
  from 3(1) [OF 2] have "n = wrap64 (wrap64 (m + k) + sum_list (map item_size rest))" by simp
  with unpack_entry_size [OF 1] show ?case by (simp add: wrap64_add add.assoc)
qed simp_all

text \<open>
  The host's ID for an ID of the archive: root has the first mapping of size one; others are
  shifted by the first range that holds them.
\<close>

definition in_range :: "int \<Rightarrow> IDMappingSpec \<Rightarrow> bool" where
  "in_range i m \<longleftrightarrow> NamespaceID m \<le> i \<and> i < NamespaceID m + Size m"

definition host_id :: "int \<Rightarrow> IDMappingSpec list \<Rightarrow> int" where
  "host_id i ms =
     (if i = 0 then (case find (\<lambda>m. Size m = 1) ms of Some m \<Rightarrow> HostID m | None \<Rightarrow> 0)
      else (case find (\<lambda>m. Size m \<noteq> 1 \<and> in_range i m) ms of Some m \<Rightarrow> HostID m + (i - NamespaceID m) | None \<Rightarrow> i))"

definition small_mapping :: "IDMappingSpec \<Rightarrow> bool" where
  "small_mapping m \<longleftrightarrow> 0 \<le> HostID m \<and> HostID m < 2 ^ 62 \<and> 0 \<le> NamespaceID m \<and> NamespaceID m < 2 ^ 61 \<and> 0 \<le> Size m \<and> Size m < 2 ^ 61"

lemma translateRootID_find: "translateRootID ms = (case find (\<lambda>m. Size m = 1) ms of Some m \<Rightarrow> HostID m | None \<Rightarrow> 0)"
  by (induction ms) auto

lemma translate_other_find:
  "\<forall>m\<in>set ms. small_mapping m \<Longrightarrow>
     translate_other i ms =
       (case find (\<lambda>m. Size m \<noteq> 1 \<and> in_range i m) ms of Some m \<Rightarrow> HostID m + i - 1 | None \<Rightarrow> i)"
proof (induction ms)
  case (Cons m ms)
  then have m: "small_mapping m" by simp
  then have "wrap64 (NamespaceID m + Size m) = NamespaceID m + Size m"
    by (intro wrap64_id) (auto simp: small_mapping_def is_int64_def)
  moreover have "wrap64 (wrap64 (HostID m + i) - 1) = HostID m + i - 1" if "in_range i m"
  proof -
    have "is_int64 (HostID m + i)" "is_int64 (HostID m + i - 1)"
      using m that by (auto simp: small_mapping_def in_range_def is_int64_def)
    then show ?thesis by simp
  qed
  ultimately show ?case using Cons by (auto simp: in_range_def)
qed simp

lemma unpack_spec_roundtrip:
  assumes "\<forall>m\<in>set (us_UIDMappings spec @ us_GIDMappings spec). is_int64 (HostID m) \<and> is_int64 (NamespaceID m) \<and> is_int64 (Size m)"
  shows "Option.bind (json_unmarshal (json_print (unpack_spec_json spec))) (unpack_spec_of_json b) = Some (spec\<lparr>us_Stream := b\<rparr>)"
proof -
  have one: "mapping_of_json (mapping_json m) = Some m" for m
    by (simp add: mapping_of_json_def mapping_json_def int_member_def to_lower_def)
  then have "all_some (map mapping_of_json (map mapping_json ms)) = Some ms" for ms
    by (induction ms) simp_all
  then have list: "mapping_specs_of_json (mapping_specs_json ms) = Some ms" for ms
    by (simp add: mapping_specs_json_def)
  have "json_ok (mapping_specs_json ms)" if "\<forall>m\<in>set ms. is_int64 (HostID m) \<and> is_int64 (NamespaceID m) \<and> is_int64 (Size m)" for ms
    using that by (simp add: mapping_specs_json_def mapping_json_def list_all_iff)
  then have "json_ok (unpack_spec_json spec)" using assms by (simp add: unpack_spec_json_def)
  then have "json_unmarshal (json_print (unpack_spec_json spec)) = Some (unpack_spec_json spec)"
    by (rule json_unmarshal_print)
  then show ?thesis
    by (simp only: Option.bind.simps) (simp add: unpack_spec_of_json_def unpack_spec_json_def string_member_def to_lower_def list)
qed

section \<open>Properties\<close>

text \<open>C5. Whatever an archive contains (absolute paths, dot-dot components, symbolic and hard links, whiteouts) and
  whatever calls fail, unpacking changes no name and no file outside the volume.\<close>

theorem unpack_contained:
  assumes "run_state (unpack u spec items) t = (r, t')" and "leads_to t (us_TargetPath spec) R" and "separate R t"
    and "\<not> prefix R q"
  shows "ino t' q = ino t q \<and> entry_at t' q = entry_at t q"
  using assms by (rule unpack_contained_lemma)


text \<open>C25. An opaque whiteout removes everything below its directory, and nothing else.\<close>

theorem unpack_opaque_whiteout:
  assumes "contains (th_Name h) opaque_mark" and "run_state (unpack_entry spec h c broken) t = (Inr n, t')"
    and "p = Dir (Join [us_BaseDirectory spec, th_Name h])" and "plain_dir t p" and "well_named t"
  shows "n = 0 \<and> ino t' x = (if strict_prefix (start_of t p @ path_comps p) x then None else ino t x)"
  using unpack_entry_opaque [OF assms(1,2) assms(4) [unfolded assms(3)] assms(5)] by (simp add: assms(3))

text \<open>C26. A whiteout removes the file or directory that it names, with everything below it, and
  nothing else.\<close>

theorem unpack_whiteout:
  assumes "\<not> contains (th_Name h) opaque_mark" and "contains (th_Name h) whiteout_mark"
    and "run_state (unpack_entry spec h c broken) t = (Inr n, t')"
    and "t_walk t False (replace_first (Join [us_BaseDirectory spec, th_Name h]) ''.wh.'' []) = Inr q"
  shows "n = 0 \<and> ino t' x = (if prefix q x then None else ino t x)"
  using assms by (rule unpack_entry_whiteout)

text \<open>C27. The size reported for an archive is the sum of its regular files that are no whiteouts, in
  64 bits.\<close>

theorem unpack_size:
  assumes "run_state (unpack u spec items) t = (Inr out, t')"
  shows "uo_BytesWritten out = wrap64 (sum_list (map item_size items))"
proof -
  obtain t1 n t2 where "run_state (unpack_loop spec items 0) t1 = (Inr n, t2)" "uo_BytesWritten out = n"
    using assms by (auto simp: unpack_def split: prod.splits sum.splits)
  with unpack_loop_size [of spec items 0 t1 n t2] show ?thesis by (simp add: is_int64_def)
qed

lemma translateID_host_id:
  assumes "\<forall>m\<in>set ms. small_mapping m"
  shows "translateID i ms = host_id i ms \<longleftrightarrow>
    i = 0 \<or> (case find (\<lambda>m. Size m \<noteq> 1 \<and> in_range i m) ms of None \<Rightarrow> True | Some m \<Rightarrow> NamespaceID m = 1)"
  using translate_other_find [OF assms, of i] translateRootID_find [of ms]
  by (auto simp: translateID_def host_id_def split: option.splits)

text \<open>The mappings that groot is run with (root alone, then one range from 1 on) are translated exactly.\<close>

lemma translateID_usual:
  assumes "\<forall>m\<in>set ms. small_mapping m" and "\<forall>m\<in>set ms. Size m \<noteq> 1 \<longrightarrow> NamespaceID m = 1"
  shows "translateID i ms = host_id i ms"
  using translateID_host_id [OF assms(1), of i] assms(2) by (auto split: option.splits simp: find_Some_iff)


section \<open>An example\<close>

text \<open>
  A volume at \<^verbatim>\<open>/v\<close> beside \<^verbatim>\<open>/etc/passwd\<close>, and an archive that tries to leave the volume through a
  symbolic link.
\<close>

definition tree_dir :: node where
  "tree_dir = \<lparr>nd_kind = Directory, nd_mode = 0x1ED, nd_uid = 0, nd_gid = 0, nd_mtime = 0\<rparr>"

definition sample_tree :: tree where
  "sample_tree =
     \<lparr>t_names = [([], 0), ([''etc''], 1), ([''etc'', ''passwd''], 2), ([''v''], 3), ([''v'', ''etc''], 4), ([''v'', ''etc'', ''passwd''], 5)],
      t_inodes = [(0, tree_dir), (1, tree_dir), (2, tree_dir\<lparr>nd_kind := File ''root''\<rparr>), (3, tree_dir\<lparr>nd_kind := Subvolume\<rparr>),
        (4, tree_dir), (5, tree_dir\<lparr>nd_kind := File ''layer''\<rparr>)],
      t_next = 6, t_root = [], t_cwd = [], t_files = [], t_clock = 0, t_faults = (\<lambda>_. None), t_uid = 0, t_umask = 0x12, t_printed = []\<rparr>"

definition sample_header :: "typeflag \<Rightarrow> string \<Rightarrow> string \<Rightarrow> tar_header" where
  "sample_header flag name link =
     \<lparr>th_Typeflag = flag, th_Name = name, th_Linkname = link, th_Uid = 5, th_Gid = 0, th_Mode = 0x1A4, th_ModTime = 77\<rparr>"

definition escaping :: "tar_item list" where
  "escaping = [Entry (sample_header TypeSymlink ''l'' ''/../../etc/passwd'') [] None,
     Entry (sample_header TypeReg ''l'' []) ''evil'' None]"

definition sample_spec :: UnpackSpec where
  "sample_spec = \<lparr>us_Stream = \<lparr>bl_data = [], bl_temp = None\<rparr>, us_TargetPath = ''/v'',
     us_UIDMappings = [\<lparr>HostID = 1000, NamespaceID = 0, Size = 1\<rparr>, \<lparr>HostID = 100000, NamespaceID = 1, Size = 65536\<rparr>],
     us_GIDMappings = [], us_BaseDirectory = []\<rparr>"

definition sample_unpacker :: TarUnpacker where
  "sample_unpacker = \<lparr>tu_strategy = \<lparr>st_Name = ''btrfs'', st_WhiteoutDevicePath = []\<rparr>\<rparr>"

lemma sample_leads_to: "leads_to sample_tree ''/v'' [''v'']"
proof -
  have "\<forall>follow. t_walk sample_tree follow ''/v'' = Inr [''v'']" by code_simp
  moreover have "entry_at sample_tree [''v''] = Some (tree_dir\<lparr>nd_kind := Subvolume\<rparr>)"
    by (simp add: entry_at_def ino_def inode_def sample_tree_def)
  ultimately show ?thesis by (simp add: leads_to_def is_dir_def)
qed

lemma sample_ino: "ino sample_tree p = Some i \<Longrightarrow> i < 6 \<and> (i \<ge> 3 \<longleftrightarrow> prefix [''v''] p)"
  by (auto simp: ino_def sample_tree_def split: if_splits)

lemma sample_separate: "separate [''v''] sample_tree"
  unfolding separate_def
proof (rule confinedI)
  show "prefix [''v''] q" if "ino (sample_tree\<lparr>t_root := [''v''], t_cwd := [''v'']\<rparr>) p = Some i"
      "ino (sample_tree\<lparr>t_root := [''v''], t_cwd := [''v'']\<rparr>) q = Some i" "prefix [''v''] p" for p q i
    using that sample_ino [of p i] sample_ino [of q i] by simp
  show "i < t_next (sample_tree\<lparr>t_root := [''v''], t_cwd := [''v'']\<rparr>)"
    if "ino (sample_tree\<lparr>t_root := [''v''], t_cwd := [''v'']\<rparr>) p = Some i" for p i
  proof -
    have "t_next (sample_tree\<lparr>t_root := [''v''], t_cwd := [''v'']\<rparr>) = 6" by (simp add: sample_tree_def)
    with that sample_ino [of p i] show ?thesis by simp
  qed
qed (simp_all add: sample_tree_def)

theorem unpack_contained_witness:
  "entry_at (snd (run_state (unpack sample_unpacker sample_spec escaping) sample_tree)) [''etc'', ''passwd''] =
     Some (tree_dir\<lparr>nd_kind := File ''root''\<rparr>)"
proof -
  have "\<not> prefix [''v''] [''etc'', ''passwd'']" by simp
  moreover have "us_TargetPath sample_spec = ''/v''" by (simp add: sample_spec_def)
  moreover have "entry_at sample_tree [''etc'', ''passwd''] = Some (tree_dir\<lparr>nd_kind := File ''root''\<rparr>)"
    by (simp add: entry_at_def ino_def inode_def sample_tree_def)
  ultimately show ?thesis
    using unpack_contained [OF prod.collapse [symmetric] _ sample_separate, of sample_spec "[''etc'', ''passwd'']" sample_unpacker escaping]
      sample_leads_to by simp
qed

text \<open>The link was followed inside the volume.\<close>

lemma escaping_inside:
  "map_option nd_kind (entry_at (snd (run_state (unpack sample_unpacker sample_spec escaping) sample_tree)) [''v'', ''etc'', ''passwd'']) =
     Some (File ''evil'')"
  by code_simp


lemma sample_well_named: "well_named sample_tree"
  by (simp add: well_named_def sample_tree_def ino_def plain_name_def)

theorem unpack_opaque_whiteout_witness:
  "\<exists>t'. run_state (unpack_entry sample_spec (sample_header TypeReg ''/v/etc/.wh..wh..opq'' []) [] None) sample_tree = (Inr 0, t') \<and>
     ino t' [''v'', ''etc'', ''passwd''] = None \<and> ino t' [''etc'', ''passwd''] = Some 2"
proof -
  let ?h = "sample_header TypeReg ''/v/etc/.wh..wh..opq'' []"
  let ?run = "run_state (unpack_entry sample_spec ?h [] None) sample_tree"
  have "fst ?run = Inr 0" by code_simp
  then obtain t' where run: "?run = (Inr 0, t')" by (metis prod.collapse)
  have h: "contains (th_Name ?h) opaque_mark" by code_simp
  have p: "''/v/etc'' = Dir (Join [us_BaseDirectory sample_spec, th_Name ?h])" by code_simp
  have d: "plain_dir sample_tree ''/v/etc''" by code_simp
  have q: "start_of sample_tree ''/v/etc'' @ path_comps ''/v/etc'' = [''v'', ''etc'']" by code_simp
  have "ino t' [''v'', ''etc'', ''passwd''] = None" "ino t' [''etc'', ''passwd''] = ino sample_tree [''etc'', ''passwd'']"
    using unpack_opaque_whiteout [OF h run p d sample_well_named] q by simp_all
  with run show ?thesis by (auto simp: ino_def sample_tree_def)
qed

theorem unpack_whiteout_witness:
  "\<exists>t'. run_state (unpack_entry sample_spec (sample_header TypeReg ''/v/.wh.etc'' []) [] None) sample_tree = (Inr 0, t') \<and>
     ino t' [''v'', ''etc'', ''passwd''] = None \<and> ino t' [''etc'', ''passwd''] = Some 2"
proof -
  let ?h = "sample_header TypeReg ''/v/.wh.etc'' []"
  let ?run = "run_state (unpack_entry sample_spec ?h [] None) sample_tree"
  have "fst ?run = Inr 0" by code_simp
  then obtain t' where run: "?run = (Inr 0, t')" by (metis prod.collapse)
  have h: "\<not> contains (th_Name ?h) opaque_mark" "contains (th_Name ?h) whiteout_mark" by code_simp+
  have w: "t_walk sample_tree False (replace_first (Join [us_BaseDirectory sample_spec, th_Name ?h]) ''.wh.'' []) = Inr [''v'', ''etc'']"
    by code_simp
  have "ino t' [''v'', ''etc'', ''passwd''] = None" "ino t' [''etc'', ''passwd''] = ino sample_tree [''etc'', ''passwd'']"
    using unpack_whiteout [OF h run w] by simp_all
  with run show ?thesis by (auto simp: ino_def sample_tree_def)
qed

theorem unpack_size_witness:
  "\<exists>out t'. run_state (unpack sample_unpacker sample_spec escaping) sample_tree = (Inr out, t') \<and> uo_BytesWritten out = 4"
proof -
  let ?run = "run_state (unpack sample_unpacker sample_spec escaping) sample_tree"
  have "\<not> isl (fst ?run)" by code_simp
  then obtain out t' where run: "?run = (Inr out, t')" by (metis isl_def sum.collapse(2) prod.collapse)
  have "wrap64 (sum_list (map item_size escaping)) = 4" by code_simp
  with unpack_size [OF run] run show ?thesis by auto
qed


end
