(* ===== verification/Unpackers.thy ===== *)
theory Unpackers
  imports Untar StoreNamespacer
begin

text \<open>
  The processes around the unpacking of a layer: \<open>TarUnpacker.Unpack\<close> of \<open>tar.go\<close>, which starts the
  process of theory \<open>Untar\<close>, and \<open>ns_id_mapper_unpacker.go\<close> with \<open>id_mapper.go\<close>, which puts one more
  process in between, in a user namespace of its own.

  A process that groot starts from its own executable is the program \<open>self_exe\<close> of the environment;
  its standard input is the last argument. \<open>self_tool\<close> says that it does what the code registers
  for it. From that follows the contract that the puller relies on, the locale \<open>layer_unpacker\<close>:
  only the volume that is unpacked into changes.
\<close>

section \<open>id_mapper.go\<close>

record CommandIDMapper =
  newuidmapBin :: string
  newgidmapBin :: string

definition NewIDMapper :: "string \<Rightarrow> string \<Rightarrow> CommandIDMapper" where
  "NewIDMapper u g = \<lparr>newuidmapBin = u, newgidmapBin = g\<rparr>"

definition idMappingToArgs :: "IDMappingSpec \<Rightarrow> string list" where
  "idMappingToArgs m = [show_int (NamespaceID m), show_int (HostID m), show_int (Size m)]"

definition idMappingsToArgs :: "IDMappingSpec list \<Rightarrow> string list" where
  "idMappingsToArgs ms = concat (map idMappingToArgs ms)"

definition execute :: "string \<Rightarrow> int \<Rightarrow> IDMappingSpec list \<Rightarrow> (error + unit) io" where
  "execute command pid ms = do {
     r \<leftarrow> run_cmd command (show_int pid # idMappingsToArgs ms);
     (case c_status r of
        Some err \<Rightarrow> fail (Wrap (command @ '', '' @ c_both r) err)
      | None \<Rightarrow> ok ())
   }"

definition MapUIDs :: "CommandIDMapper \<Rightarrow> int \<Rightarrow> IDMappingSpec list \<Rightarrow> (error + unit) io" where
  "MapUIDs im pid ms = execute (newuidmapBin im) pid ms"

definition MapGIDs :: "CommandIDMapper \<Rightarrow> int \<Rightarrow> IDMappingSpec list \<Rightarrow> (error + unit) io" where
  "MapGIDs im pid ms = execute (newgidmapBin im) pid ms"

section \<open>tar.go: starting the process\<close>

definition self_exe :: string where "self_exe = ''/proc/self/exe''"

definition read_output :: "string \<Rightarrow> UnpackOutput option" where
  "read_output out = Option.bind (json_decode out) (\<lambda>(j, _). output_of_json j)"

definition tar_Unpack :: "TarUnpacker \<Rightarrow> UnpackSpec \<Rightarrow> (error + UnpackOutput) io" where
  "tar_Unpack u spec = do {
     r \<leftarrow> run_cmd self_exe [''chroot-unpack'', json_print (unpack_spec_json spec),
            json_print (strategy_json (tu_strategy u)), bl_data (us_Stream spec)];
     (case c_status r of
        Some err \<Rightarrow> fail (Plain (trim_space (c_out r)))
      | None \<Rightarrow>
          (case read_output (c_out r) of
             None \<Rightarrow> fail (Wrap ''parsing unpack output'' (Plain ''json: cannot decode''))
           | Some unpackOutput \<Rightarrow> ok unpackOutput))
   }"

section \<open>ns_id_mapper_unpacker.go\<close>

record NSIdMapperUnpacker =
  nu_idMapper :: CommandIDMapper
  nu_unpackStrategy :: UnpackStrategy

definition NewNSIdMapperUnpacker :: "CommandIDMapper \<Rightarrow> UnpackStrategy \<Rightarrow> NSIdMapperUnpacker" where
  "NewNSIdMapperUnpacker idMapper strategy = \<lparr>nu_idMapper = idMapper, nu_unpackStrategy = strategy\<rparr>"

definition setIDMappings :: "NSIdMapperUnpacker \<Rightarrow> UnpackSpec \<Rightarrow> int \<Rightarrow> (error + unit) io" where
  "setIDMappings u spec untarPid =
     or_return (if us_UIDMappings spec \<noteq> [] then MapUIDs (nu_idMapper u) untarPid (us_UIDMappings spec) else ok ())
       (Wrap ''setting uid mapping'') (\<lambda>_.
     or_return (if us_GIDMappings spec \<noteq> [] then MapGIDs (nu_idMapper u) untarPid (us_GIDMappings spec) else ok ())
       (Wrap ''setting gid mapping'') (\<lambda>_.
     ok ()))"

text \<open>Pipes and processes: calls that leave the files alone; the process number is the environment's choice.\<close>

definition plain_call :: "(errno \<Rightarrow> error) \<Rightarrow> (error + unit) io" where
  "plain_call mk = syscall mk (\<lambda>_ fs. Inr ((), fs))"

definition process_number :: "int io" where
  "process_number = gets (\<lambda>w. e_rand (w_env w) (w_clock w))"

text \<open>
  The started process waits for a byte on the control pipe before it does anything, so its work is
  placed where the byte is written. When the mappings fail, the pipe is closed instead, and the
  process ends without work.
\<close>

definition ns_Unpack :: "NSIdMapperUnpacker \<Rightarrow> UnpackSpec \<Rightarrow> (error + UnpackOutput) io" where
  "ns_Unpack u spec =
     or_return (plain_call (\<lambda>e. SysError e)) (Wrap ''creating tar control pipe'') (\<lambda>_.
     or_return (plain_call (PathError ''fork/exec'' self_exe)) (Wrap ''starting unpack command'') (\<lambda>_. do {
       pid \<leftarrow> process_number;
       or_return (setIDMappings u spec pid) id (\<lambda>_.
       or_return (plain_call (PathError ''write'' ''|1'')) (Wrap ''writing to tar control pipe'') (\<lambda>_. do {
         r \<leftarrow> run_cmd self_exe [''unpack'', us_TargetPath spec, us_BaseDirectory spec,
                json_print (strategy_json (nu_unpackStrategy u)), bl_data (us_Stream spec)];
         (case c_status r of
            Some err \<Rightarrow> fail (Plain (c_out r))
          | None \<Rightarrow>
              (case read_output (c_out r) of
                 None \<Rightarrow> fail (Wrap ''invalid unpack output (json: cannot decode)'' (Plain ''json: cannot decode''))
               | Some unpackOutput \<Rightarrow> ok unpackOutput))
       }))
     }))"

text \<open>The registered command \<open>unpack\<close>; \<open>control\<close> says whether the byte on the control pipe came.\<close>

definition unpack_command :: "bool \<Rightarrow> string list \<Rightarrow> string \<Rightarrow> int io" where
  "unpack_command control args stdin =
     (case args of
        [targetDir, baseDirectory, unpackStrategyJSON] \<Rightarrow>
          if \<not> control then exit_error (Plain ''EOF'')
          else (case Option.bind (json_unmarshal unpackStrategyJSON) strategy_of_json of
             None \<Rightarrow> exit_error (Plain ''json: cannot unmarshal'')
           | Some unpackStrategy \<Rightarrow>
               (case NewTarUnpacker unpackStrategy of
                  Inl err \<Rightarrow> exit_error err
                | Inr unpacker \<Rightarrow> do {
                    r \<leftarrow> tar_Unpack unpacker
                       \<lparr>us_Stream = \<lparr>bl_data = stdin, bl_temp = None\<rparr>, us_TargetPath = targetDir,
                        us_UIDMappings = [], us_GIDMappings = [], us_BaseDirectory = baseDirectory\<rparr>;
                    (case r of
                       Inl err \<Rightarrow> exit_error err
                     | Inr unpackOutput \<Rightarrow> do {
                         _ \<leftarrow> write_stdout (json_encode (output_json unpackOutput));
                         State_Monad.return 0
                       })
                  }))
      | _ \<Rightarrow> exit_error (Plain ''destination directory or filesystem were not specified''))"

section \<open>What the processes do\<close>

text \<open>
  A process starts at the root of the files, without open files. Hard links do not leave a
  subvolume (\<open>link(2)\<close> fails between file systems).
\<close>

definition reflects :: "tree \<Rightarrow> fsys \<Rightarrow> bool" where
  "reflects t fs \<longleftrightarrow> (\<forall>p. entry_at t p = fs_get fs p)"

definition links_stay :: "tree \<Rightarrow> bool" where
  "links_stay t \<longleftrightarrow>
     (\<forall>R nd p q i. entry_at t R = Some nd \<longrightarrow> nd_kind nd = Subvolume \<longrightarrow>
        ino t p = Some i \<longrightarrow> ino t q = Some i \<longrightarrow> prefix R p \<longrightarrow> prefix R q)"

definition fresh_process :: "tree \<Rightarrow> bool" where
  "fresh_process t \<longleftrightarrow> t_root t = [] \<and> t_files t = [] \<and> t_printed t = [] \<and>
     (\<forall>p i. ino t p = Some i \<longrightarrow> i < t_next t) \<and> links_stay t"

definition self_tool :: "(string \<Rightarrow> tar_item list) \<Rightarrow> env \<Rightarrow> bool" where
  "self_tool read_tar v \<longleftrightarrow>
     (\<forall>spec strategy input fs r fs'.
        e_progs v self_exe [''chroot-unpack'', spec, strategy, input] fs = (r, fs') \<longrightarrow>
        (\<exists>t code t'. reflects t fs \<and> fresh_process t \<and>
           run_state (chroot_unpack read_tar spec strategy input) t = (code, t') \<and>
           reflects t' fs' \<and> c_out r = concat (t_printed t') \<and> (c_status r = None \<longleftrightarrow> code = 0))) \<and>
     (\<forall>dir base strategy input fs r fs'.
        e_progs v self_exe [''unpack'', dir, base, strategy, input] fs = (r, fs') \<longrightarrow>
        (\<exists>faults control code w'.
           run_state (unpack_command control [dir, base, strategy] input) (process v faults fs) = (code, w') \<and>
           fs' = w_fs w' \<and> c_out r = concat (w_stdout w') \<and> (c_status r = None \<longleftrightarrow> code = 0)))"

text \<open>A volume that can be unpacked into: a subvolume below directories.\<close>

definition volume_ready :: "fsys \<Rightarrow> string \<Rightarrow> bool" where
  "volume_ready fs p \<longleftrightarrow> clean_abs p \<and> subvolume_at fs (resolve p) \<and>
     list_all (\<lambda>q. q = resolve p \<or> q = [] \<or> dir_at fs q) (prefixes (resolve p))"

definition spec64 :: "UnpackSpec \<Rightarrow> bool" where
  "spec64 spec \<longleftrightarrow> (\<forall>m\<in>set (us_UIDMappings spec @ us_GIDMappings spec). mapping64 m)"

lemma volume_ready_leads_to:
  assumes "volume_ready fs p" and "reflects t fs" and "t_root t = []"
  shows "leads_to t p (resolve p)"
proof -
  have abs: "clean_abs p" "rooted p" "p \<noteq> []" "Go_Path.Clean p = p"
    using assms(1) by (auto simp: volume_ready_def clean_abs_rooted clean_abs_def)
  then have comps: "path_comps p = resolve p"
    using path_comps_Clean [of p] norm_of_rooted [of p] by simp
  obtain nd where nd: "entry_at t (resolve p) = Some nd" "nd_kind nd = Subvolume"
    using assms(1,2) by (auto simp: volume_ready_def subvolume_at_def reflects_def split: option.splits)
  have "walk max_symlinks t follow [] (resolve p) = Inr ([] @ resolve p)" for follow
  proof (rule walk_direct)
    show "''..'' \<notin> set (resolve p)" using resolve_plain [of p] by (auto simp: plain_name_def)
    fix xs ys assume "resolve p = xs @ ys" "xs \<noteq> []" "ys \<noteq> []"
    then have "dir_at fs xs" using assms(1) by (auto simp: volume_ready_def list_all_iff)
    with assms(2) show "dir_in t ([] @ xs)" by (simp add: dir_in_def dir_at_def reflects_def)
  next
    show "\<not> symlink_in t ([] @ resolve p)" using nd by (simp add: symlink_in_def)
  qed
  then have "t_walk t follow p = Inr (resolve p)" for follow
    using abs comps assms(3) by (simp add: t_walk_def)
  with nd show ?thesis by (auto simp: leads_to_def is_dir_def)
qed

lemma fresh_processD:
  assumes "fresh_process t"
  shows "t_root t = []" "t_files t = []" "t_printed t = []" "ino t p = Some i \<Longrightarrow> i < t_next t"
    "entry_at t R = Some nd \<Longrightarrow> nd_kind nd = Subvolume \<Longrightarrow> ino t p = Some i \<Longrightarrow> ino t q = Some i \<Longrightarrow>
       prefix R p \<Longrightarrow> prefix R q"
proof -
  have l: "links_stay t" using assms by (simp only: fresh_process_def)
  show "entry_at t R = Some nd \<Longrightarrow> nd_kind nd = Subvolume \<Longrightarrow> ino t p = Some i \<Longrightarrow> ino t q = Some i \<Longrightarrow>
       prefix R p \<Longrightarrow> prefix R q"
    by (rule l [unfolded links_stay_def, rule_format])
qed (use assms in \<open>simp_all add: fresh_process_def\<close>)

lemma fresh_separate:
  assumes "fresh_process t" and "entry_at t R = Some nd" and "nd_kind nd = Subvolume"
  shows "separate R t"
  unfolding separate_def
proof (rule confinedI, unfold tree_simps)
  show "ino t p = Some i \<Longrightarrow> ino t q = Some i \<Longrightarrow> prefix R p \<Longrightarrow> prefix R q" for p q i
    by (rule fresh_processD(5) [OF assms])
  show "ino t p = Some i \<Longrightarrow> i < t_next (t\<lparr>t_root := R, t_cwd := R\<rparr>)" for p i
    using fresh_processD(4) [OF assms(1), of p i] by simp
qed (simp_all add: fresh_processD(2) [OF assms(1)])

lemma t_exit_files: "run_state (t_exit e) t = (code, t') \<Longrightarrow> code = 1 \<and> ino t' = ino t \<and> entry_at t' = entry_at t"
  by (auto simp: t_exit_def t_print_def fun_eq_iff)

text \<open>Nothing outside the volume changes, and the volume stays one.\<close>

definition volume_kept :: "path \<Rightarrow> fsys \<Rightarrow> fsys \<Rightarrow> bool" where
  "volume_kept R fs fs' \<longleftrightarrow> subvolume_at fs' R \<and> (\<forall>q. \<not> prefix R q \<longrightarrow> fs_get fs' q = fs_get fs q)"

lemma volume_kept_same: "volume_ready fs p \<Longrightarrow> fs_get fs' = fs_get fs \<Longrightarrow> volume_kept (resolve p) fs fs'"
  by (simp add: volume_kept_def volume_ready_def subvolume_at_def)

lemma chroot_unpack_frame:
  assumes "run_state (chroot_unpack read_tar (json_print (unpack_spec_json spec)) strategy input) t = (code, t')"
    and "fresh_process t" and "reflects t fs" and "volume_ready fs (us_TargetPath spec)" and "spec64 spec"
  shows "(\<forall>q. \<not> prefix (resolve (us_TargetPath spec)) q \<longrightarrow> entry_at t' q = entry_at t q) \<and>
    volume_in t' (resolve (us_TargetPath spec))"
proof -
  let ?spec = "spec\<lparr>us_Stream := \<lparr>bl_data = input, bl_temp = None\<rparr>\<rparr>"
  have parse: "Option.bind (json_unmarshal (json_print (unpack_spec_json spec)))
      (unpack_spec_of_json \<lparr>bl_data = input, bl_temp = None\<rparr>) = Some ?spec"
    using assms(5) by (intro unpack_spec_roundtrip) (auto simp: spec64_def mapping64_def)
  obtain nd where nd: "entry_at t (resolve (us_TargetPath spec)) = Some nd" "nd_kind nd = Subvolume"
    using assms(3,4) by (auto simp: volume_ready_def subvolume_at_def reflects_def split: option.splits)
  then have v: "volume_in t (resolve (us_TargetPath spec))" by (simp add: volume_in_def)
  show ?thesis
  proof (cases "Option.bind (json_unmarshal strategy) strategy_of_json")
    case None
    with assms(1) parse v show ?thesis by (auto simp: chroot_unpack_def volume_in_def dest!: t_exit_files)
  next
    case (Some st)
    obtain r t1 where run: "run_state (unpack \<lparr>tu_strategy = st\<rparr> ?spec (read_tar input)) t = (r, t1)" by fastforce
    have same: "entry_at t' = entry_at t1"
      using assms(1) parse Some run
      by (auto simp: chroot_unpack_def NewTarUnpacker_def t_print_def fun_eq_iff split: sum.splits dest!: t_exit_files)
    have lead: "leads_to t (us_TargetPath ?spec) (resolve (us_TargetPath spec))"
      using volume_ready_leads_to [OF assms(4,3)] assms(2) by (simp add: fresh_process_def)
    have sep: "separate (resolve (us_TargetPath spec)) t" using assms(2) nd by (rule fresh_separate)
    from unpack_contained_lemma [OF run lead sep] unpack_stands [OF run lead sep v] show ?thesis
      by (simp add: same volume_in_def)
  qed
qed

section \<open>What is printed\<close>

definition silent :: "tree \<Rightarrow> tree \<Rightarrow> bool" where
  "silent s t \<longleftrightarrow> t_printed t = t_printed s"

lemma preorder_silent [simp, evolves_rules]: "preorder_on_state silent"
  by (simp add: preorder_on_state_def silent_def)

lemma evolves_tcall_silent:
  "(\<And>t x t'. f t = Inr (x, t') \<Longrightarrow> t_printed t' = t_printed t) \<Longrightarrow> evolves silent (tcall mk f)"
  by (rule evolvesI) (auto simp: silent_def dest!: tcall_cases)

lemma printed_simps [simp]:
  "t_printed (set_name p i t) = t_printed t" "t_printed (drop_names P t) = t_printed t"
  "t_printed (set_inode i n t) = t_printed t" "t_printed (new_entry p n t) = t_printed t"
  by (simp_all add: set_name_def drop_names_def set_inode_def new_entry_def)

lemma calls_silent [evolves_rules]:
  "evolves silent (t_Stat s)" "evolves silent (t_Lstat s)" "evolves silent (t_Mkdir s m)" "evolves silent (t_Symlink x s)"
  "evolves silent (t_Chroot s)" "evolves silent (t_Chdir s)" "evolves silent (t_ReadDir s)" "evolves silent (t_Remove s)"
  "evolves silent (t_Link s x)" "evolves silent (t_OpenTrunc s m)" "evolves silent (t_Write i x)" "evolves silent (t_Close i)"
  "evolves silent (t_Chown s u g)" "evolves silent (t_Lchown s u g)" "evolves silent (t_Chmod s m)"
  "evolves silent (t_utimensat s n)" "evolves silent (t_Chtimes s n)" "evolves silent (tcall mk (t_remove_all s))"
  unfolding t_Stat_def t_Lstat_def t_Mkdir_def t_Symlink_def t_Chroot_def t_Chdir_def t_ReadDir_def t_Remove_def
    t_Link_def t_OpenTrunc_def t_Write_def t_Close_def t_Chown_def t_Lchown_def t_Chmod_def t_utimensat_def t_Chtimes_def
  by (rule evolves_tcall_silent;
      auto simp: map_sum_def t_create_def t_update_def t_remove_all_def
        split: sum.splits option.splits kind.splits if_splits)+

lemma unpack_silent: "evolves silent (unpack u spec items)"
proof -
  have [evolves_rules]: "evolves silent (t_RemoveAll s)" for s unfolding t_RemoveAll_def by (intro evolves_rules)
  have contents: "evolves silent (tar_clean_contents p cs)" for p cs
    by (induction cs) (auto intro!: evolves_rules)
  have time [evolves_rules]: "evolves silent (changeModTime p m)" for p m
    unfolding changeModTime_def by (intro evolves_rules)
  have entry [evolves_rules]: "evolves silent (unpack_entry sp h c broken)" for sp h c broken
    unfolding unpack_entry_def tar_cleanWhiteoutDir_def removeWhiteout_def handleEntry_def createDirectory_def
      createSymlink_def createLink_def createRegularFile_def write_file_def io_Copy_def chown_if_root_def
    by (cases "th_Typeflag h"; simp only: typeflag.case; intro evolves_rules contents)
  have "evolves silent (unpack_loop spec items n)" for n
  proof (induction spec items n rule: unpack_loop.induct)
    case (3 spec h c broken rest n)
    then show ?case
      by (cases broken) (auto intro!: evolves_rules entry)
  qed (auto intro!: evolves_rules)
  then show ?thesis
    unfolding unpack_def safeMkdir_def chroot_def by (intro evolves_rules)
qed

lemma read_output_print:
  assumes "is_int64 (uo_BytesWritten out)" and "uo_OpaqueWhiteouts out = []"
  shows "read_output (json_encode (output_json out)) = Some out"
proof -
  have "json_ok (output_json out)" using assms by (simp add: output_json_def)
  then show ?thesis using assms(2)
    by (simp add: read_output_def json_decode_encode)
      (simp add: output_json_def output_of_json_def int_member_def to_lower_def)
qed

text \<open>The result of a process that ended well.\<close>

definition unpacked :: "(string \<Rightarrow> tar_item list) \<Rightarrow> string \<Rightarrow> UnpackOutput \<Rightarrow> bool" where
  "unpacked read_tar input out \<longleftrightarrow>
     uo_BytesWritten out = wrap64 (sum_list (map item_size (read_tar input))) \<and> uo_OpaqueWhiteouts out = []"

lemma unpacked_read: "unpacked read_tar input out \<Longrightarrow> read_output (json_encode (output_json out)) = Some out"
  by (rule read_output_print) (simp_all add: unpacked_def)

lemma unpack_unpacked:
  assumes "run_state (unpack u spec items) t = (Inr out, t')" and "items = read_tar input"
  shows "unpacked read_tar input out"
proof -
  obtain t1 n t2 where "run_state (unpack_loop spec items 0) t1 = (Inr n, t2)"
    "out = \<lparr>uo_BytesWritten = n, uo_OpaqueWhiteouts = []\<rparr>"
    using assms(1) by (auto simp: unpack_def split: prod.splits sum.splits)
  with unpack_loop_size [of spec items 0 t1 n t2] assms(2) show ?thesis by (simp add: is_int64_def unpacked_def)
qed

lemma chroot_unpack_output:
  assumes "run_state (chroot_unpack read_tar (json_print (unpack_spec_json spec)) strategy input) t = (0, t')"
    and "t_printed t = []" and "spec64 spec"
  shows "\<exists>out. concat (t_printed t') = json_encode (output_json out) \<and> unpacked read_tar input out"
proof -
  let ?spec = "spec\<lparr>us_Stream := \<lparr>bl_data = input, bl_temp = None\<rparr>\<rparr>"
  have parse: "Option.bind (json_unmarshal (json_print (unpack_spec_json spec)))
      (unpack_spec_of_json \<lparr>bl_data = input, bl_temp = None\<rparr>) = Some ?spec"
    using assms(3) by (intro unpack_spec_roundtrip) (auto simp: spec64_def mapping64_def)
  with assms(1) obtain st out t1 where run: "run_state (unpack \<lparr>tu_strategy = st\<rparr> ?spec (read_tar input)) t = (Inr out, t1)"
    and t': "t' = t1\<lparr>t_printed := t_printed t1 @ [json_encode (output_json out)]\<rparr>"
    by (auto simp: chroot_unpack_def NewTarUnpacker_def t_print_def split: option.splits sum.splits prod.splits dest!: t_exit_files)
  have "t_printed t1 = []" using evolvesD [OF unpack_silent run] assms(2) by (simp add: silent_def)
  with t' unpack_unpacked [OF run, of read_tar input] show ?thesis by auto
qed

section \<open>The contract of an unpacker\<close>

text \<open>
  What the puller relies on: only the volume changes, and when the layer was unpacked, its size and
  whiteouts are those of the archive that \<open>read_tar\<close> reads.
\<close>

locale layer_unpacker =
  fixes unpacker :: unpacker and read_tar :: "string \<Rightarrow> tar_item list" and E :: "env \<Rightarrow> bool"
  assumes unpack_frame: "\<And>spec w r w'. run_state (unpacker spec) w = (r, w') \<Longrightarrow> E (w_env w) \<Longrightarrow>
        volume_ready (w_fs w) (us_TargetPath spec) \<Longrightarrow> spec64 spec \<Longrightarrow>
        volume_kept (resolve (us_TargetPath spec)) (w_fs w) (w_fs w')"
    and unpack_result: "\<And>spec w out w'. run_state (unpacker spec) w = (Inr out, w') \<Longrightarrow> E (w_env w) \<Longrightarrow>
        spec64 spec \<Longrightarrow> unpacked read_tar (bl_data (us_Stream spec)) out"
    and unpack_env: "\<And>spec. evolves same_env (unpacker spec)"
    and unpack_locks: "\<And>spec. evolves same_locks (unpacker spec)"

lemma tar_Unpack_run:
  assumes "run_state (tar_Unpack u spec) w = (r, w')"
  shows "w_fs w' = w_fs w \<or>
    (\<exists>cr. e_progs (w_env w) self_exe [''chroot-unpack'', json_print (unpack_spec_json spec),
            json_print (strategy_json (tu_strategy u)), bl_data (us_Stream spec)] (w_fs w) = (cr, w_fs w') \<and>
       (\<forall>out. r = Inr out \<longrightarrow> c_status cr = None \<and> read_output (c_out cr) = Some out))"
  using assms
  by (auto simp: tar_Unpack_def run_cmd_def split: option.splits prod.splits)

lemma tar_Unpack_frame:
  assumes "run_state (tar_Unpack u spec) w = (r, w')" and "self_tool read_tar (w_env w)"
    and "volume_ready (w_fs w) (us_TargetPath spec)" and "spec64 spec"
  shows "volume_kept (resolve (us_TargetPath spec)) (w_fs w) (w_fs w')"
proof (cases "w_fs w' = w_fs w")
  case False
  with tar_Unpack_run [OF assms(1)] obtain cr where
    "e_progs (w_env w) self_exe [''chroot-unpack'', json_print (unpack_spec_json spec),
       json_print (strategy_json (tu_strategy u)), bl_data (us_Stream spec)] (w_fs w) = (cr, w_fs w')" by blast
  with assms(2) obtain t code t' where t: "reflects t (w_fs w)" "fresh_process t"
    "run_state (chroot_unpack read_tar (json_print (unpack_spec_json spec)) (json_print (strategy_json (tu_strategy u)))
       (bl_data (us_Stream spec))) t = (code, t')" "reflects t' (w_fs w')"
    unfolding self_tool_def by blast
  from chroot_unpack_frame [OF t(3,2,1) assms(3,4)] t(1,4) show ?thesis
    by (auto simp: reflects_def volume_kept_def volume_in_def subvolume_at_def)
qed (simp add: volume_kept_same [OF assms(3)])

lemma tar_Unpack_result:
  assumes "run_state (tar_Unpack u spec) w = (Inr out, w')" and "self_tool read_tar (w_env w)" and "spec64 spec"
  shows "unpacked read_tar (bl_data (us_Stream spec)) out"
proof -
  obtain cr where cr:
    "e_progs (w_env w) self_exe [''chroot-unpack'', json_print (unpack_spec_json spec),
       json_print (strategy_json (tu_strategy u)), bl_data (us_Stream spec)] (w_fs w) = (cr, w_fs w')"
    "c_status cr = None" "read_output (c_out cr) = Some out"
    using assms(1) by (auto simp: tar_Unpack_def run_cmd_def split: option.splits prod.splits)
  with assms(2) obtain t code t' where t: "fresh_process t"
    "run_state (chroot_unpack read_tar (json_print (unpack_spec_json spec)) (json_print (strategy_json (tu_strategy u)))
       (bl_data (us_Stream spec))) t = (code, t')" "c_out cr = concat (t_printed t')" "code = 0"
    unfolding self_tool_def by blast
  from chroot_unpack_output [OF t(2) [unfolded t(4)] fresh_processD(3) [OF t(1)] assms(3)]
  obtain out' where "c_out cr = json_encode (output_json out')" "unpacked read_tar (bl_data (us_Stream spec)) out'"
    using t(3) by auto
  with unpacked_read cr(3) show ?thesis by force
qed

lemma tar_Unpack_same [evolves_rules]: "evolves same_env (tar_Unpack u spec)" "evolves same_locks (tar_Unpack u spec)"
  unfolding tar_Unpack_def by (intro evolves_rules)+

interpretation tar_unpacker: layer_unpacker "tar_Unpack u" read_tar "self_tool read_tar" for u read_tar
  by unfold_locales (fact tar_Unpack_frame tar_Unpack_result tar_Unpack_same)+

section \<open>With a user namespace in between\<close>

text \<open>\<open>newuidmap\<close> and \<open>newgidmap\<close> leave the files alone.\<close>

definition idmap_tools :: "CommandIDMapper \<Rightarrow> env \<Rightarrow> bool" where
  "idmap_tools im v \<longleftrightarrow>
     (\<forall>bin\<in>{newuidmapBin im, newgidmapBin im}. \<forall>args fs. fs_get (snd (e_progs v bin args fs)) = fs_get fs)"

definition ns_tools :: "NSIdMapperUnpacker \<Rightarrow> (string \<Rightarrow> tar_item list) \<Rightarrow> env \<Rightarrow> bool" where
  "ns_tools u read_tar v \<longleftrightarrow> self_tool read_tar v \<and> idmap_tools (nu_idMapper u) v"

lemma self_tool_faults [simp]: "self_tool read_tar (v\<lparr>e_faults := faults\<rparr>) = self_tool read_tar v"
  by (simp add: self_tool_def process_def)

lemma setIDMappings_within [evolves_rules]: "evolves (within (idmap_tools (nu_idMapper u)) X) (setIDMappings u spec pid)"
proof -
  have "evolves (within (idmap_tools (nu_idMapper u)) X) (execute bin pid ms)"
    if "bin \<in> {newuidmapBin (nu_idMapper u), newgidmapBin (nu_idMapper u)}" for bin ms
    unfolding execute_def
    using that by (intro evolves_rules run_cmd_within) (metis idmap_tools_def snd_conv)
  then show ?thesis unfolding setIDMappings_def MapUIDs_def MapGIDs_def by (intro evolves_rules) auto
qed

lemma setIDMappings_same [evolves_rules]:
  "evolves same_env (setIDMappings u spec pid)" "evolves same_locks (setIDMappings u spec pid)"
  unfolding setIDMappings_def MapUIDs_def MapGIDs_def execute_def by (intro evolves_rules)+

lemma plain_call_rules [evolves_rules]:
  "evolves (within E X) (plain_call mk)" "evolves same_env (plain_call mk)" "evolves same_locks (plain_call mk)"
  unfolding plain_call_def
  by (rule syscall_within, simp) (intro evolves_rules)+

lemma process_number_rules [evolves_rules]: "preorder_on_state R \<Longrightarrow> evolves R process_number"
  unfolding process_number_def by (rule evolves_gets)

lemma exit_error_code: "run_state (exit_error e) w = (code, w') \<Longrightarrow> code = 1 \<and> w_fs w' = w_fs w"
  by (auto simp: exit_error_def write_stdout_def split: if_splits)

lemma ns_Unpack_same [evolves_rules]: "evolves same_env (ns_Unpack u spec)" "evolves same_locks (ns_Unpack u spec)"
  unfolding ns_Unpack_def by (intro evolves_rules)+

text \<open>The part before the process works, and the work.\<close>

lemma ns_Unpack_run:
  assumes "run_state (ns_Unpack u spec) w = (r, w')" and "idmap_tools (nu_idMapper u) (w_env w)"
  shows "fs_get (w_fs w') = fs_get (w_fs w) \<and> isl r \<or>
    (\<exists>fs cr. fs_get fs = fs_get (w_fs w) \<and>
       e_progs (w_env w) self_exe [''unpack'', us_TargetPath spec, us_BaseDirectory spec,
         json_print (strategy_json (nu_unpackStrategy u)), bl_data (us_Stream spec)] fs = (cr, w_fs w') \<and>
       (\<forall>out. r = Inr out \<longrightarrow> c_status cr = None \<and> read_output (c_out cr) = Some out))"
proof -
  let ?E = "idmap_tools (nu_idMapper u)"
  let ?last = "\<lambda>w. do {
         r \<leftarrow> run_cmd self_exe [''unpack'', us_TargetPath spec, us_BaseDirectory spec,
                json_print (strategy_json (nu_unpackStrategy u)), bl_data (us_Stream spec)];
         (case c_status r of
            Some err \<Rightarrow> fail (Plain (c_out r))
          | None \<Rightarrow>
              (case read_output (c_out r) of
                 None \<Rightarrow> fail (Wrap ''invalid unpack output (json: cannot decode)'' (Plain ''json: cannot decode''))
               | Some unpackOutput \<Rightarrow> ok unpackOutput))}"
  define front :: "(error + unit) io" where "front = or_return (plain_call (\<lambda>e. SysError e)) (Wrap ''creating tar control pipe'') (\<lambda>_.
     or_return (plain_call (PathError ''fork/exec'' self_exe)) (Wrap ''starting unpack command'') (\<lambda>_. do {
       pid \<leftarrow> process_number;
       or_return (setIDMappings u spec pid) id (\<lambda>_.
       or_return (plain_call (PathError ''write'' ''|1'')) (Wrap ''writing to tar control pipe'') (\<lambda>_. ok ()))}))"
  obtain a w1 where a: "run_state front w = (a, w1)" by fastforce
  have "within ?E {} w w1" by (rule evolvesD [OF _ a]) (unfold front_def, intro evolves_rules)
  then have same: "w_env w1 = w_env w" "fs_get (w_fs w1) = fs_get (w_fs w)"
    using assms(2) by (auto simp: within_def)
  have "(case a of Inl e \<Rightarrow> r = Inl e \<and> w' = w1 | Inr _ \<Rightarrow> run_state (?last w1) w1 = (r, w'))"
    using assms(1) a unfolding ns_Unpack_def front_def
    by (auto split: prod.splits sum.splits)
  with same show ?thesis
    by (auto simp: run_cmd_def split: sum.splits option.splits prod.splits)
qed

lemma volume_ready_cong: "fs_get fs = fs_get fs' \<Longrightarrow> volume_ready fs p = volume_ready fs' p"
  by (simp add: volume_ready_def subvolume_at_def dir_at_def)

definition child_spec :: "string \<Rightarrow> string \<Rightarrow> string \<Rightarrow> UnpackSpec" where
  "child_spec dir base input = \<lparr>us_Stream = \<lparr>bl_data = input, bl_temp = None\<rparr>, us_TargetPath = dir,
     us_UIDMappings = [], us_GIDMappings = [], us_BaseDirectory = base\<rparr>"

lemma unpack_command_run:
  assumes "run_state (unpack_command control [dir, base, strategy] input) w = (code, w')"
  shows "code = 1 \<and> w_fs w' = w_fs w \<or>
    (\<exists>u r w1. run_state (tar_Unpack u (child_spec dir base input)) w = (r, w1) \<and> w_fs w' = w_fs w1 \<and>
       (code = 0 \<longrightarrow> (\<exists>out. r = Inr out \<and> w_stdout w' = w_stdout w1 @ [json_encode (output_json out)])))"
proof -
  have err: "w_fs v' = w_fs v \<and> c = 1" if "run_state (exit_error e) v = (c, v')" for e v c v'
    using exit_error_code [OF that] by blast
  show ?thesis
  proof (cases "control \<and> Option.bind (json_unmarshal strategy) strategy_of_json \<noteq> None")
    case True
    then obtain st where st: "Option.bind (json_unmarshal strategy) strategy_of_json = Some st" by blast
    obtain r w1 where run: "run_state (tar_Unpack \<lparr>tu_strategy = st\<rparr> (child_spec dir base input)) w = (r, w1)" by fastforce
    have rest: "run_state (case r of Inl err \<Rightarrow> exit_error err
        | Inr unpackOutput \<Rightarrow> do { _ \<leftarrow> write_stdout (json_encode (output_json unpackOutput)); State_Monad.return 0 }) w1 = (code, w')"
      using assms True st run by (simp add: unpack_command_def NewTarUnpacker_def child_spec_def)
    have "w_fs w' = w_fs w1 \<and> (code = 0 \<longrightarrow> (\<exists>out. r = Inr out \<and> w_stdout w' = w_stdout w1 @ [json_encode (output_json out)]))"
    proof (cases r)
      case (Inl e)
      with rest have "run_state (exit_error e) w1 = (code, w')" by simp
      from err [OF this] show ?thesis by simp
    next
      case (Inr out)
      with rest show ?thesis by (auto simp: write_stdout_def)
    qed
    with run show ?thesis by blast
  next
    case False
    have "\<exists>e. run_state (exit_error e) w = (code, w')"
    proof (cases control)
      case True
      with False have "Option.bind (json_unmarshal strategy) strategy_of_json = None" by blast
      with assms True show ?thesis by (simp only: unpack_command_def list.case option.case if_False simp_thms) blast
    next
      case control: False
      from assms have "run_state (exit_error (Plain ''EOF'')) w = (code, w')"
        by (simp only: unpack_command_def list.case if_True simp_thms control)
      then show ?thesis ..
    qed
    then obtain e where "run_state (exit_error e) w = (code, w')" ..
    from err [OF this] show ?thesis by simp
  qed
qed

lemma tar_Unpack_stdout: "run_state (tar_Unpack u spec) w = (r, w') \<Longrightarrow> w_stdout w' = w_stdout w"
  by (auto simp: tar_Unpack_def run_cmd_def split: option.splits prod.splits)

lemma process_sel' [simp]:
  "w_env (process v faults fs) = v\<lparr>e_faults := faults\<rparr>" "w_fs (process v faults fs) = fs" "w_stdout (process v faults fs) = []"
  by (simp_all add: process_def)

lemma ns_child:
  assumes "self_tool read_tar v" and "e_progs v self_exe [''unpack'', dir, base, strategy, input] fs = (cr, fs')"
  shows "volume_ready fs dir \<Longrightarrow> volume_kept (resolve dir) fs fs'"
    and "c_status cr = None \<Longrightarrow> \<exists>out. c_out cr = json_encode (output_json out) \<and> unpacked read_tar input out"
proof -
  from assms(1) [unfolded self_tool_def, THEN conjunct2, rule_format, OF assms(2)]
  obtain faults control code w' where all: "run_state (unpack_command control [dir, base, strategy] input) (process v faults fs) = (code, w') \<and>
     fs' = w_fs w' \<and> c_out cr = concat (w_stdout w') \<and> (c_status cr = None \<longleftrightarrow> code = 0)" by (elim exE)
  then have run: "run_state (unpack_command control [dir, base, strategy] input) (process v faults fs) = (code, w')"
    and w': "fs' = w_fs w'" "c_out cr = concat (w_stdout w')" "c_status cr = None \<longleftrightarrow> code = 0" by simp_all
  have spec: "spec64 (child_spec dir base input)" "us_TargetPath (child_spec dir base input) = dir"
    "bl_data (us_Stream (child_spec dir base input)) = input"
    by (simp_all add: child_spec_def spec64_def)
  have tool: "self_tool read_tar (w_env (process v faults fs))" using assms(1) by simp
  note cases = unpack_command_run [OF run]
  show "volume_kept (resolve dir) fs fs'" if "volume_ready fs dir"
    using cases
  proof (elim disjE exE conjE)
    fix u r w1
    assume t: "run_state (tar_Unpack u (child_spec dir base input)) (process v faults fs) = (r, w1)" and "w_fs w' = w_fs w1"
    with tar_Unpack_frame [OF t tool _ spec(1)] that w'(1) show ?thesis by (simp add: spec)
  qed (simp add: w'(1) volume_kept_same [OF that])
  assume "c_status cr = None"
  with w'(3) cases obtain u w1 out
    where t: "run_state (tar_Unpack u (child_spec dir base input)) (process v faults fs) = (Inr out, w1)"
      and o: "w_stdout w' = w_stdout w1 @ [json_encode (output_json out)]" by auto
  with tar_Unpack_stdout [OF t] have "c_out cr = json_encode (output_json out)" by (simp add: w'(2))
  with tar_Unpack_result [OF t tool spec(1)] spec(3) show "\<exists>out. c_out cr = json_encode (output_json out) \<and> unpacked read_tar input out" by auto
qed

lemma ns_Unpack_frame:
  assumes "run_state (ns_Unpack u spec) w = (r, w')" and "ns_tools u read_tar (w_env w)"
    and "volume_ready (w_fs w) (us_TargetPath spec)"
  shows "volume_kept (resolve (us_TargetPath spec)) (w_fs w) (w_fs w')"
proof -
  have tools: "self_tool read_tar (w_env w)" "idmap_tools (nu_idMapper u) (w_env w)"
    using assms(2) by (simp_all add: ns_tools_def)
  from ns_Unpack_run [OF assms(1) tools(2)] show ?thesis
  proof (elim disjE exE conjE)
    fix fs cr
    assume fs: "fs_get fs = fs_get (w_fs w)"
      and "e_progs (w_env w) self_exe [''unpack'', us_TargetPath spec, us_BaseDirectory spec,
         json_print (strategy_json (nu_unpackStrategy u)), bl_data (us_Stream spec)] fs = (cr, w_fs w')"
    from ns_child(1) [OF tools(1) this(2)] volume_ready_cong [OF fs] assms(3) fs show ?thesis by (simp add: volume_kept_def)
  qed (simp add: volume_kept_same [OF assms(3)])
qed

lemma ns_Unpack_result:
  assumes "run_state (ns_Unpack u spec) w = (Inr out, w')" and "ns_tools u read_tar (w_env w)"
  shows "unpacked read_tar (bl_data (us_Stream spec)) out"
proof -
  have tools: "self_tool read_tar (w_env w)" "idmap_tools (nu_idMapper u) (w_env w)"
    using assms(2) by (simp_all add: ns_tools_def)
  from ns_Unpack_run [OF assms(1) tools(2)] obtain fs cr where
    run: "e_progs (w_env w) self_exe [''unpack'', us_TargetPath spec, us_BaseDirectory spec,
         json_print (strategy_json (nu_unpackStrategy u)), bl_data (us_Stream spec)] fs = (cr, w_fs w')"
    and "c_status cr = None" "read_output (c_out cr) = Some out" by auto
  with ns_child(2) [OF tools(1) run] unpacked_read show ?thesis by fastforce
qed

interpretation ns_unpacker: layer_unpacker "ns_Unpack u" read_tar "ns_tools u read_tar" for u read_tar
  by (unfold_locales; (rule ns_Unpack_frame ns_Unpack_result; assumption)?) (rule ns_Unpack_same)+

end
