(* ===== verification/PullerLaws.thy ===== *)
theory PullerLaws
  imports Unpackers Fetchers StoreManager
begin

text \<open>
  What pulling does to the store, given the contracts of the parts it is made of: the volume driver
  (\<open>layer_store\<close>, which extends \<open>volume_store\<close>), the unpacker (\<open>layer_unpacker\<close>), the fetcher
  (\<open>layer_source\<close>) and the locksmith (\<open>lock_service\<close>). The lemmas are proved in the locale
  \<open>pulling\<close>, which brings the four together.
\<close>

section \<open>The volume driver\<close>

text \<open>
  Faults that the rename of a volume does not meet unless its target is there: \<open>EEXIST\<close> and
  \<open>ENOTEMPTY\<close> mean that it is.
\<close>

definition honest :: "env \<Rightarrow> bool" where
  "honest v \<longleftrightarrow> (\<forall>n. e_faults v n \<noteq> Some EEXIST \<and> e_faults v n \<noteq> Some ENOTEMPTY)"

definition incomplete_entry :: "string \<Rightarrow> string \<Rightarrow> bool" where
  "incomplete_entry c v \<longleftrightarrow> (\<exists>now r. v = incomplete_name c now r)"

locale layer_store = volume_store ops store E
  for ops :: driver_ops and store :: string and E :: "env \<Rightarrow> bool" +
  assumes CreateVolume_frame: "\<And>X parent v. plain_name v \<Longrightarrow> below (volume_entry store v) \<subseteq> X \<Longrightarrow>
        evolves (within E X) (dr_CreateVolume ops parent v)"
    and CreateVolume_path: "\<And>parent v w p w'. run_state (dr_CreateVolume ops parent v) w = (Inr p, w') \<Longrightarrow>
        p = volume_file store v"
    and CreateVolume_made: "\<And>parent v w p w'. run_state (dr_CreateVolume ops parent v) w = (Inr p, w') \<Longrightarrow>
        E (w_env w) \<Longrightarrow> plain_name v \<Longrightarrow>
        (fs_get (w_fs w) (volume_entry store v) \<noteq> None \<Longrightarrow> subvolume_at (w_fs w) (volume_entry store v)) \<Longrightarrow>
        subvolume_at (w_fs w') (volume_entry store v)"
    and MoveVolume_done: "\<And>p q w w'. run_state (dr_MoveVolume ops p q) w = (Inr (), w') \<Longrightarrow> honest (w_env w) \<Longrightarrow>
        subvolume_at (w_fs w) (resolve p) \<Longrightarrow> \<not> prefix (resolve q) (resolve p) \<Longrightarrow>
        fs_get (w_fs w') (resolve q) =
          (if fs_get (w_fs w) (resolve q) = None then fs_get (w_fs w) (resolve p) else fs_get (w_fs w) (resolve q))"
    and MoveVolume_failed: "\<And>p q w e w'. run_state (dr_MoveVolume ops p q) w = (Inl e, w') \<Longrightarrow> w_fs w' = w_fs w"
    and DestroyVolume_shrinks: "\<And>v w r w' q. run_state (dr_DestroyVolume ops v) w = (r, w') \<Longrightarrow> E (w_env w) \<Longrightarrow>
        fs_get (w_fs w') q \<noteq> None \<Longrightarrow> fs_get (w_fs w) q \<noteq> None"
    and WriteVolumeMeta_frame: "\<And>X v m. plain_name v \<Longrightarrow> meta_dir store @ [meta_entry v] \<in> X \<Longrightarrow>
        evolves (within E X) (dr_WriteVolumeMeta ops v m)"
    and WriteVolumeMeta_written: "\<And>v n w w'. run_state (dr_WriteVolumeMeta ops v \<lparr>vm_Size = n\<rparr>) w = (Inr (), w') \<Longrightarrow>
        is_int64 n \<Longrightarrow> plain_name v \<Longrightarrow> recorded_size (w_fs w') (meta_dir store @ [meta_entry v]) = Some n"
    and HandleOpaqueWhiteouts_none: "\<And>X v. evolves (within E X) (dr_HandleOpaqueWhiteouts ops v [])"
    and layer_env: "\<And>parent v. evolves same_env (dr_CreateVolume ops parent v)"
        "\<And>v m. evolves same_env (dr_WriteVolumeMeta ops v m)"
        "\<And>v ws. evolves same_env (dr_HandleOpaqueWhiteouts ops v ws)"
    and layer_locks: "\<And>parent v. evolves same_locks (dr_CreateVolume ops parent v)"
        "\<And>v m. evolves same_locks (dr_WriteVolumeMeta ops v m)"
        "\<And>v ws. evolves same_locks (dr_HandleOpaqueWhiteouts ops v ws)"

lemma CreateVolume_within:
  "plain_name v \<Longrightarrow> below (volume_entry (storePath d) v) \<subseteq> X \<Longrightarrow> evolves (within (tools d) X) (CreateVolume d parent v)"
  unfolding CreateVolume_def Let_def
  by (cases "parent = []") (auto simp: VolumesDirName_def intro!: evolves_rules)

lemma CreateVolume_result:
  assumes "run_state (CreateVolume d parent v) w = (Inr p, w')"
  shows "p = volume_file (storePath d) v"
  using assms by (auto simp: CreateVolume_def volume_file_def Let_def split: prod.splits option.splits)

lemma CreateVolume_subvolume:
  assumes run: "run_state (CreateVolume d parent v) w = (Inr p, w')" and "tools d (w_env w)" and v: "plain_name v"
    and old: "fs_get (w_fs w) (volume_entry (storePath d) v) \<noteq> None \<Longrightarrow> subvolume_at (w_fs w) (volume_entry (storePath d) v)"
  shows "subvolume_at (w_fs w') (volume_entry (storePath d) v)"
proof -
  let ?q = "volume_entry (storePath d) v" and ?p = "Join [storePath d, VolumesDirName, v]"
  have q: "resolve ?p = ?q" using v by (metis resolve_volume_file volume_file_def)
  have btrfs: "btrfs_tool (btrfsBinPath d) (w_env w)" using assms(2) by (rule toolsD)
  obtain args cr fs' where e: "e_progs (w_env w) (btrfsBinPath d) args (w_fs w) = (cr, fs')" "c_status cr = None" "w_fs w' = fs'"
    and args: "args = (if parent = [] then [''subvolume'', ''create'', ?p]
                  else [''subvolume'', ''snapshot'', Join [storePath d, VolumesDirName, parent], ?p])"
    using run by (auto simp: CreateVolume_def run_cmd_def Let_def split: prod.splits option.splits)
  show ?thesis
  proof (cases "parent = []")
    case True
    with e args btrfs have "create_effect ?q cr (w_fs w) fs'" by (auto simp: btrfs_tool_def q [symmetric])
    with e show ?thesis by (auto simp: create_effect_def subvolume_at_def fs_simps)
  next
    case False
    with e args btrfs have eff: "snapshot_effect (resolve (Join [storePath d, VolumesDirName, parent])) ?q cr (w_fs w) fs'"
      by (auto simp: btrfs_tool_def q [symmetric])
    show ?thesis
    proof (cases "fs_get (w_fs w) ?q = None")
      case True
      with eff e show ?thesis by (simp add: snapshot_effect_def snapshot_target_def subvolume_at_def)
    next
      case False
      then have "\<not> prefix (snapshot_target (resolve (Join [storePath d, VolumesDirName, parent])) ?q (w_fs w)) ?q"
        by (auto simp: snapshot_target_def dest: prefix_length_le)
      with eff e have "fs_get fs' ?q = fs_get (w_fs w) ?q" by (simp add: snapshot_effect_def)
      with old [OF False] e show ?thesis by (simp add: subvolume_at_def)
    qed
  qed
qed

lemma k_lookup_errors: "k_lookup fs p \<noteq> Inl EEXIST" "k_lookup fs p \<noteq> Inl ENOTEMPTY"
  by (simp_all add: k_lookup_def split: option.splits)

lemma MoveVolume_result:
  assumes run: "run_state (MoveVolume d p q) w = (Inr (), w')" and "honest (w_env w)"
    and p: "subvolume_at (w_fs w) (resolve p)" and "\<not> prefix (resolve q) (resolve p)"
  shows "fs_get (w_fs w') (resolve q) =
    (if fs_get (w_fs w) (resolve q) = None then fs_get (w_fs w) (resolve p) else fs_get (w_fs w) (resolve q))"
proof -
  obtain r where r: "run_state (os_Rename p q) w = (r, w')" "\<forall>e. r = Inl e \<longrightarrow> IsExist e"
    using run by (auto simp: MoveVolume_def split: prod.splits sum.splits if_splits)
  show ?thesis
  proof (cases r)
    case (Inl e)
    with r assms(2) have "k_rename (resolve p) (resolve q) (w_env w) (w_fs w) = Inl EEXIST \<or>
        k_rename (resolve p) (resolve q) (w_env w) (w_fs w) = Inl ENOTEMPTY" "w_fs w' = w_fs w"
      by (auto simp: os_Rename_def syscall_def honest_def IsExist_def split: option.splits sum.splits prod.splits)
    then show ?thesis
      by (auto simp: k_rename_def k_parent_def k_lookup_errors split: option.splits sum.splits if_splits)
  next
    case (Inr x)
    with r have mv: "k_rename (resolve p) (resolve q) (w_env w) (w_fs w) = Inr (x, w_fs w')"
      by (auto simp: os_Rename_def syscall_def split: option.splits sum.splits prod.splits)
    from p obtain n where n: "fs_get (w_fs w) (resolve p) = Some n" "is_dir n"
      by (auto simp: subvolume_at_def is_dir_def split: option.splits)
    with mv have "w_fs w' = fs_move (resolve p) (resolve q) (w_fs w)" "fs_get (w_fs w) (resolve q) = None"
      by (auto simp: k_rename_def split: option.splits if_splits sum.splits)
    with n assms(4) show ?thesis by (simp add: fs_simps)
  qed
qed

lemma MoveVolume_error: "run_state (MoveVolume d p q) w = (Inl e, w') \<Longrightarrow> w_fs w' = w_fs w"
  by (auto simp: MoveVolume_def os_Rename_def syscall_def split: option.splits sum.splits prod.splits if_splits)

text \<open>Destroying only removes.\<close>

definition shrinks :: "(env \<Rightarrow> bool) \<Rightarrow> world \<Rightarrow> world \<Rightarrow> bool" where
  "shrinks E w w' \<longleftrightarrow>
     (E (w_env w) \<longrightarrow> w_env w' = w_env w \<and> (\<forall>p. fs_get (w_fs w') p \<noteq> None \<longrightarrow> fs_get (w_fs w) p \<noteq> None))"

lemma preorder_shrinks [simp, evolves_rules]: "preorder_on_state (shrinks E)"
  by (simp add: preorder_on_state_def shrinks_def)

lemma within_shrinks: "evolves (within E {}) m \<Longrightarrow> evolves (shrinks E) m"
  by (erule evolves_mono) (simp add: within_def shrinks_def)

lemma Remove_shrinks [evolves_rules]: "evolves (shrinks E) (os_Remove p)"
  unfolding os_Remove_def
  by (rule evolves_syscall) (auto simp: shrinks_def k_remove_def fs_simps split: sum.splits if_splits)

lemma delete_shrinks [evolves_rules]: "evolves (shrinks (tools d)) (run_cmd (btrfsBinPath d) [''subvolume'', ''delete'', p])"
proof (rule evolvesI)
  fix w r w'
  assume run: "run_state (run_cmd (btrfsBinPath d) [''subvolume'', ''delete'', p]) w = (r, w')"
  have "fs_get (w_fs w) q \<noteq> None" if t: "tools d (w_env w)" and q: "fs_get (w_fs w') q \<noteq> None" for q
  proof (cases "e_faults (w_env w) (w_clock w)")
    case None
    with run have "e_progs (w_env w) (btrfsBinPath d) [''subvolume'', ''delete'', p] (w_fs w) = (r, w_fs w')"
      by (auto simp: run_cmd_def split: prod.splits)
    with toolsD(1) [OF t] have "delete_effect (resolve p) r (w_fs w) (w_fs w')" by (simp add: btrfs_tool_def)
    with q show ?thesis by (auto simp: delete_effect_def fs_simps split: if_splits)
  next
    case (Some e)
    with run q show ?thesis by (auto simp: run_cmd_def)
  qed
  moreover have "w_env w' = w_env w" using evolvesD [OF run_cmd_same_env run] by (simp add: same_env_def)
  ultimately show "shrinks (tools d) w w'" by (simp add: shrinks_def)
qed

lemma DestroyVolume_shrinks_lemma: "evolves (shrinks (tools d)) (DestroyVolume d v)"
  unfolding DestroyVolume_def destroyBtrfsVolume_def destroyQgroup_def
  by (intro evolves_rules within_shrinks [OF os_Stat_any_rules(1)]
      within_shrinks [OF runDrax_within [OF drax_destroy_within]])

lemma DestroyVolume_result:
  assumes "run_state (DestroyVolume d v) w = (r, w')" and "tools d (w_env w)" and "fs_get (w_fs w') q \<noteq> None"
  shows "fs_get (w_fs w) q \<noteq> None"
  using evolvesD [OF DestroyVolume_shrinks_lemma assms(1)] assms(2,3) by (simp add: shrinks_def)

lemma HandleOpaqueWhiteouts_nothing: "evolves (within E X) (HandleOpaqueWhiteouts d v [])"
  unfolding HandleOpaqueWhiteouts_def clean_whiteouts.simps by (intro evolves_rules VolumePath_within)

lemma cleanWhiteoutDir_same: "evolves same_env (cleanWhiteoutDir p)" "evolves same_locks (cleanWhiteoutDir p)"
proof -
  have *: "evolves same_env (clean_contents p cs)" "evolves same_locks (clean_contents p cs)" for cs
    by (induction cs) (auto intro!: evolves_rules)
  show "evolves same_env (cleanWhiteoutDir p)" "evolves same_locks (cleanWhiteoutDir p)"
    unfolding cleanWhiteoutDir_def by (intro evolves_rules *)+
qed

lemma layer_ops_same [evolves_rules]:
  "evolves same_env (CreateVolume d parent v)" "evolves same_locks (CreateVolume d parent v)"
  "evolves same_env (HandleOpaqueWhiteouts d v ws)" "evolves same_locks (HandleOpaqueWhiteouts d v ws)"
proof -
  have *: "evolves same_env (clean_whiteouts p ws)" "evolves same_locks (clean_whiteouts p ws)" for p
    by (induction ws) (auto intro!: evolves_rules cleanWhiteoutDir_same)
  show "evolves same_env (HandleOpaqueWhiteouts d v ws)" "evolves same_locks (HandleOpaqueWhiteouts d v ws)"
    unfolding HandleOpaqueWhiteouts_def by (intro evolves_rules *)+
  show "evolves same_env (CreateVolume d parent v)" "evolves same_locks (CreateVolume d parent v)"
    unfolding CreateVolume_def Let_def by (intro evolves_rules)+
qed

lemma WriteVolumeMeta_result:
  "run_state (Filesystems.WriteVolumeMeta store v \<lparr>vm_Size = n\<rparr>) w = (Inr (), w') \<Longrightarrow> is_int64 n \<Longrightarrow> plain_name v \<Longrightarrow>
     recorded_size (w_fs w') (meta_dir store @ [meta_entry v]) = Some n"
  by (drule (1) WriteVolumeMeta_recorded) simp

interpretation btrfs_layers: layer_store "btrfs_ops d" "storePath d" "tools d" for d
proof unfold_locales
qed (auto simp: btrfs_ops_def CreateVolume_within layer_ops_same WriteVolumeMeta_evolves HandleOpaqueWhiteouts_nothing
    dest: CreateVolume_result CreateVolume_subvolume MoveVolume_result MoveVolume_error DestroyVolume_result
      WriteVolumeMeta_result)

section \<open>Base directories\<close>

text \<open>
  The base directory of a layer comes from the registry, and may hold \<open>..\<close>. It is looked up in the
  volume of the layer and in that of its parent, which are siblings: a path that leaves the one
  leaves the other too, and then both paths are the same, so that nothing is made there.
\<close>

lemma norm_step_forked:
  assumes "c \<noteq> ''..''" and "p \<noteq> ''..''"
  shows "(\<exists>y. norm_step True k (x @ c # v) = y @ c # v \<and> norm_step True k (x @ p # v) = y @ p # v) \<or>
     norm_step True k (x @ c # v) = norm_step True k (x @ p # v)"
proof -
  consider "k = [] \<or> k = ''.''" | "k = ''..''" | "k \<noteq> []" "k \<noteq> ''.''" "k \<noteq> ''..''" by blast
  then show ?thesis
  proof cases
    case 1
    then show ?thesis by auto
  next
    case 2
    with assms show ?thesis by (cases x) (auto simp: norm_step.simps)
  next
    case 3
    then have "norm_step True k (x @ c # v) = (k # x) @ c # v" "norm_step True k (x @ p # v) = (k # x) @ p # v"
      by (simp_all add: norm_step.simps)
    then show ?thesis by blast
  qed
qed

lemma norm_forked:
  assumes "c \<noteq> ''..''" and "p \<noteq> ''..''"
  shows "(\<exists>y. norm True cs (x @ c # v) = y @ c # v \<and> norm True cs (x @ p # v) = y @ p # v) \<or>
     norm True cs (x @ c # v) = norm True cs (x @ p # v)"
proof (induction cs arbitrary: x)
  case (Cons k cs)
  from norm_step_forked [OF assms, of k x v] Cons.IH show ?case by (metis norm_Cons)
qed simp

lemma resolve_Join_norm:
  "a \<noteq> [] \<Longrightarrow> b \<noteq> [] \<Longrightarrow> resolve (Join [a, b]) = rev (norm True (split_on (CHR ''/'') b) (rev (resolve a)))"
  by (simp add: Join_def resolve_slash)

lemma base_paths:
  assumes "plain_name c" and "plain_name p" and "d \<noteq> []" and "volume_file store c \<noteq> []" and "volume_file store p \<noteq> []"
  shows "prefix (volume_entry store c) (resolve (Join [volume_file store c, d])) \<or>
    resolve (Join [volume_file store c, d]) = resolve (Join [volume_file store p, d])"
  using norm_forked [of c p "split_on (CHR ''/'') d" "[]" "rev (volumes_dir store)"] assms
  by (auto simp: resolve_Join_norm volume_entry_def plain_name_def)

text \<open>A directory is not made at a path that was just found.\<close>

lemma mkdir_after_stat:
  assumes "resolve p = resolve q"
  shows "evolves (within E X) (or_return (os_Stat q) h (\<lambda>st. or_return (os_Mkdir p (m st)) h' (k st)))"
proof (rule evolvesI)
  fix w r w'
  assume run: "run_state (or_return (os_Stat q) h (\<lambda>st. or_return (os_Mkdir p (m st)) h' (k st))) w = (r, w')"
  obtain st w1 where st: "run_state (os_Stat q) w = (st, w1)" by fastforce
  have 1: "within E X w w1" using evolvesD [OF os_Stat_within st] .
  show "within E X w w'"
  proof (cases st)
    case (Inl e)
    with run st 1 show ?thesis by simp
  next
    case (Inr nd)
    with st have found: "fs_get (w_fs w1) (resolve p) \<noteq> None"
      by (auto simp: os_Stat_def syscall_def k_stat_def assms split: option.splits sum.splits)
    obtain mk w2 where mk: "run_state (os_Mkdir p (m nd)) w1 = (mk, w2)" by fastforce
    with found have "isl mk" "w2 = tick w1"
      by (auto simp: os_Mkdir_def syscall_def k_mkdir_def split: option.splits)
    with run st mk Inr have "w' = tick w1" by (cases mk) simp_all
    with 1 show ?thesis by (simp add: within_def)
  qed
qed

lemma ensure_base_dir_within:
  assumes "prefix (volume_entry store c) (resolve (Join [child, d])) \<or> resolve (Join [child, d]) = resolve (Join [parent, d])"
    and "below (volume_entry store c) \<subseteq> X"
  shows "evolves (within E X) (ensure_base_dir d child parent)"
proof (cases "prefix (volume_entry store c) (resolve (Join [child, d]))")
  case True
  with assms(2) have "resolve (Join [child, d]) \<in> X" by auto
  then show ?thesis unfolding ensure_base_dir_def by (intro evolves_rules)
next
  case False
  with assms(1) have "resolve (Join [child, d]) = resolve (Join [parent, d])" by simp
  from mkdir_after_stat [OF this] show ?thesis
    unfolding ensure_base_dir_def
    by (intro evolves_bind evolves_case_sum evolves_if evolves_ok evolves_fail os_Stat_within preorder_within)
qed

lemma ensure_base_dir_evolves [evolves_rules]:
  "evolves keeps_entries (ensure_base_dir d child parent)" "evolves same_env (ensure_base_dir d child parent)"
  "evolves same_locks (ensure_base_dir d child parent)"
  unfolding ensure_base_dir_def by (intro evolves_rules)+

lemma ensure_base_dirs_evolves:
  "(\<And>d. d \<in> set ds \<Longrightarrow> evolves (within E X) (ensure_base_dir d child parent)) \<Longrightarrow>
     evolves (within E X) (ensure_base_dirs ds child parent)"
  "evolves keeps_entries (ensure_base_dirs ds child parent)"
  "evolves same_env (ensure_base_dirs ds child parent)"
  "evolves same_locks (ensure_base_dirs ds child parent)"
  by (induction ds) (auto intro!: evolves_rules)

text \<open>The recursion over the parents of a base directory ends for rooted paths, and only for them.\<close>

lemma base_dirs_root [simp]: "base_dirs ''/'' = Some []"
  by (simp add: base_dirs.simps)

lemma base_dirs_clean: "clean_abs d \<Longrightarrow> \<exists>ds. base_dirs d = Some ds \<and> [] \<notin> set ds"
proof (induction "length (resolve d)" arbitrary: d rule: less_induct)
  case less
  have "\<exists>ds. base_dirs (Dir d) = Some ds \<and> [] \<notin> set ds"
    using Dir_abs [OF clean_abs_rooted [OF less.prems]] less.hyps [OF Dir_shorter [OF less.prems]] by auto
  moreover have "d \<noteq> []" using less.prems by simp
  ultimately show ?case by (subst base_dirs.simps) auto
qed

lemma base_dirs_rooted: "rooted d \<Longrightarrow> \<exists>ds. base_dirs d = Some ds \<and> [] \<notin> set ds"
  using Dir_abs [of d] base_dirs_clean [of "Dir d"] by (subst base_dirs.simps) (auto simp: rooted_def)

lemma rooted_prefix: "prefix x d \<Longrightarrow> rooted x \<Longrightarrow> rooted d"
  by (auto simp: rooted_def prefix_def split: list.splits)

lemma Dir_relative: "\<not> rooted d \<Longrightarrow> \<not> rooted (Dir d)"
proof -
  assume d: "\<not> rooted d"
  have "prefix (rev (dropWhile (\<lambda>c. c \<noteq> CHR ''/'') (rev d))) d"
    by (metis prefix_def rev_append rev_rev_ident takeWhile_dropWhile_id)
  with d have "\<not> rooted (rev (dropWhile (\<lambda>c. c \<noteq> CHR ''/'') (rev d)))" using rooted_prefix by blast
  then show ?thesis by (simp add: Dir_def rooted_Clean_iff)
qed

lemma base_dirs_only_rooted: "base_dirs d = Some ds \<Longrightarrow> rooted d"
proof (erule base_dirs.raw_induct [where P = "\<lambda>d ds. rooted d", rotated])
  fix f d ds
  assume IH: "\<And>d ds. f d = Some ds \<Longrightarrow> rooted d"
    and "(if d = ''/'' then Some [] else Option.bind (f (Dir d)) (\<lambda>ds. Some (ds @ [d]))) = Some ds"
  then have "d = ''/'' \<or> (\<exists>es. f (Dir d) = Some es)" by (auto simp: bind_eq_Some_conv split: if_splits)
  then show "rooted d" using IH Dir_relative by (auto simp: rooted_def)
qed

text \<open>C29. Making sure of a base directory ends exactly when the path is rooted: for a relative one, the
  recursion over its parents never reaches the root.\<close>

theorem base_dirs_ends: "(\<exists>ds. base_dirs d = Some ds) \<longleftrightarrow> rooted d"
  using base_dirs_rooted base_dirs_only_rooted by blast

section \<open>The places of a layer\<close>

text \<open>
  \<open>frame X\<close> is \<open>within\<close> without its condition on the environment. A layer may change its volume, the
  temporary volumes named after it, and its metadata file.
\<close>

definition frame :: "path set \<Rightarrow> world \<Rightarrow> world \<Rightarrow> bool" where
  "frame X w w' \<longleftrightarrow> w_env w' = w_env w \<and> (\<forall>q. q \<notin> X \<longrightarrow> fs_get (w_fs w') q = fs_get (w_fs w) q)"

lemma frame_refl [simp]: "frame X w w"
  by (simp add: frame_def)

lemma frame_trans: "frame X w w1 \<Longrightarrow> frame X w1 w2 \<Longrightarrow> frame X w w2"
  by (simp add: frame_def)

lemma frame_mono: "frame X w w' \<Longrightarrow> X \<subseteq> Y \<Longrightarrow> frame Y w w'"
  by (auto simp: frame_def)

lemma frame_env: "frame X w w' \<Longrightarrow> w_env w' = w_env w"
  by (simp add: frame_def)

lemma frame_get: "frame X w w' \<Longrightarrow> q \<notin> X \<Longrightarrow> fs_get (w_fs w') q = fs_get (w_fs w) q"
  by (simp add: frame_def)

lemma within_frame: "evolves (within E X) m \<Longrightarrow> run_state m w = (r, w') \<Longrightarrow> E (w_env w) \<Longrightarrow> frame X w w'"
  by (drule (1) evolvesD) (simp add: within_def frame_def)

lemma within_frame_any: "evolves (within (\<lambda>_. True) X) m \<Longrightarrow> run_state m w = (r, w') \<Longrightarrow> frame X w w'"
  by (rule within_frame) simp_all

definition layer_area :: "string \<Rightarrow> string \<Rightarrow> path set" where
  "layer_area store c =
     {q. \<exists>v. (v = c \<or> incomplete_entry c v) \<and> prefix (volume_entry store v) q} \<union> {meta_dir store @ [meta_entry c]}"

definition store_dirs :: "string \<Rightarrow> fsys \<Rightarrow> bool" where
  "store_dirs store fs \<longleftrightarrow> (\<forall>q. prefix q (volumes_dir store) \<longrightarrow> q = [] \<or> dir_at fs q)"

definition temps_ok :: "string \<Rightarrow> string \<Rightarrow> fsys \<Rightarrow> bool" where
  "temps_ok store c fs \<longleftrightarrow>
     (\<forall>v. incomplete_entry c v \<longrightarrow> fs_get fs (volume_entry store v) \<noteq> None \<longrightarrow> subvolume_at fs (volume_entry store v))"

lemma show_int_slash: "CHR ''/'' \<notin> set (show_int i)"
proof -
  have "CHR ''/'' \<notin> set (show_nat n)" for n using show_nat_digits [of n] by (auto simp: is_digit_def)
  then show ?thesis by (simp add: show_int_def)
qed

lemma plain_incomplete: "plain_name c \<Longrightarrow> incomplete_entry c v \<Longrightarrow> plain_name v"
  using show_int_slash by (auto simp: incomplete_entry_def incomplete_name_def plain_name_def)

lemma layer_area_volume [simp]: "below (volume_entry store c) \<subseteq> layer_area store c"
  by (auto simp: layer_area_def)

lemma layer_area_temp: "incomplete_entry c v \<Longrightarrow> below (volume_entry store v) \<subseteq> layer_area store c"
  by (auto simp: layer_area_def)

lemma layer_area_meta [simp]: "meta_dir store @ [meta_entry c] \<in> layer_area store c"
  by (simp add: layer_area_def)

text \<open>A layer's volume that is not there does not appear.\<close>

definition stays_absent :: "string \<Rightarrow> string \<Rightarrow> world \<Rightarrow> world \<Rightarrow> bool" where
  "stays_absent store c w w' \<longleftrightarrow>
     (fs_get (w_fs w) (volume_entry store c) = None \<longrightarrow> fs_get (w_fs w') (volume_entry store c) = None)"

lemma stays_absent_trans: "stays_absent store c w w1 \<Longrightarrow> stays_absent store c w1 w2 \<Longrightarrow> stays_absent store c w w2"
  by (simp add: stays_absent_def)

lemma stays_absent_frame: "frame X w w' \<Longrightarrow> volume_entry store c \<notin> X \<Longrightarrow> stays_absent store c w w'"
  by (simp add: stays_absent_def frame_def)

lemma temp_differs: "incomplete_entry c v \<Longrightarrow> v \<noteq> c"
  by (auto simp: incomplete_entry_def incomplete_name_def)

lemma volume_not_temp: "incomplete_entry c v \<Longrightarrow> \<not> prefix (volume_entry store v) (volume_entry store c)"
  by (auto simp: volume_entry_def dest: temp_differs)

lemma layer_area_above: "prefix q (volumes_dir store) \<Longrightarrow> q \<notin> layer_area store c"
  by (auto simp: layer_area_def volume_entry_def volumes_dir_def meta_dir_def dest!: prefix_length_le)

lemma volume_ready_file:
  assumes "clean_abs store" and "plain_name v" and "subvolume_at fs (volume_entry store v)" and "store_dirs store fs"
  shows "volume_ready fs (volume_file store v)"
proof -
  have "volume_file store v = Join [Join [store, VolumesDirName], v]"
    using assms(1,2) clean_abs_Join2 [of store VolumesDirName] by (simp add: volume_file_def Join_plain3 Join_plain2)
  then have "clean_abs (volume_file store v)" using assms(1,2) by (simp add: clean_abs_Join2)
  moreover have "q = volume_entry store v \<or> q = [] \<or> dir_at fs q" if "prefix q (volume_entry store v)" for q
    using that assms(4) by (auto simp: volume_entry_def store_dirs_def)
  ultimately show ?thesis using assms(2,3) by (simp add: volume_ready_def list_all_iff)
qed

section \<open>One layer\<close>

locale pulling =
  layer_store "bp_volumeDriver p" store ES + layer_unpacker "bp_unpacker p" read_tar EU +
  layer_source "bp_fetcher p" T good served + lock_service "lk_Lock (bp_locksmith p)" "lk_Unlock (bp_locksmith p)" F
  for p :: BaseImagePuller and store :: string and ES :: "env \<Rightarrow> bool" and read_tar :: "string \<Rightarrow> tar_item list"
    and EU :: "env \<Rightarrow> bool" and T :: "path set" and good :: "LayerInfo \<Rightarrow> bool"
    and served :: "URL \<Rightarrow> LayerInfo \<Rightarrow> string \<Rightarrow> bool" and F :: "path set"
begin

lemma create_run:
  assumes run: "run_state (createTemporaryVolumeDirectory p li spec) w = (r, w')" and E: "ES (w_env w)"
    and c: "plain_name (li_ChainID li)"
  shows "frame (layer_area store (li_ChainID li)) w w' \<and> stays_absent store (li_ChainID li) w w' \<and>
    (\<forall>tmp path. temps_ok store (li_ChainID li) (w_fs w) \<longrightarrow> r = Inr (tmp, path) \<longrightarrow>
       incomplete_entry (li_ChainID li) tmp \<and> path = volume_file store tmp \<and> subvolume_at (w_fs w') (volume_entry store tmp))"
proof -
  let ?c = "li_ChainID li" and ?A = "layer_area store (li_ChainID li)"
  define tmp where "tmp = incomplete_name ?c (e_time (w_env w) (w_clock w)) (e_rand (w_env w) (w_clock w))"
  have tmp: "incomplete_entry ?c tmp" by (auto simp: incomplete_entry_def tmp_def)
  note plain = plain_incomplete [OF c tmp] and area = layer_area_temp [OF tmp, of store]
  obtain made w1 where made: "run_state (dr_CreateVolume (bp_volumeDriver p) (li_ParentChainID li) tmp) w = (made, w1)" by fastforce
  let ?B = "below (volume_entry store tmp)"
  have f1: "frame ?B w w1" by (rule within_frame [OF CreateVolume_frame [OF plain order.refl] made E])
  have absent: "stays_absent store ?c v v'" if "frame ?B v v'" for v v'
    using stays_absent_frame [OF that] volume_not_temp [OF tmp] by simp
  show ?thesis
  proof (cases made)
    case (Inl e)
    with run made have "w' = w1" "isl r"
      by (auto simp: createTemporaryVolumeDirectory_def time_Now_def rand_Int_def Let_def tmp_def)
    with frame_mono [OF f1 area] absent [OF f1] show ?thesis by auto
  next
    case (Inr path)
    let ?own = "if bs_OwnerUID spec \<noteq> 0 \<or> bs_OwnerGID spec \<noteq> 0 then
       or_return (os_Chown path (bs_OwnerUID spec) (bs_OwnerGID spec))
         (Wrap (''changing volume ownership to '' @ show_int (bs_OwnerUID spec) @ '':'' @ show_int (bs_OwnerGID spec))) (\<lambda>_.
       ok (tmp, path)) else ok (tmp, path)"
    from run made Inr have own: "run_state ?own w1 = (r, w')"
      by (cases "bs_OwnerUID spec \<noteq> 0 \<or> bs_OwnerGID spec \<noteq> 0")
        (simp_all add: createTemporaryVolumeDirectory_def time_Now_def rand_Int_def Let_def tmp_def split: prod.splits sum.splits)
    have path: "path = volume_file store tmp" using CreateVolume_path [OF made [unfolded Inr]] .
    have "evolves (within (\<lambda>_. True) ?B) ?own" by (intro evolves_rules) (simp add: path plain)
    from frame_trans [OF f1 within_frame_any [OF this own]] have f: "frame ?B w w'" .
    have "evolves keeps_entries ?own" by (intro evolves_rules)
    from evolvesD [OF this own] have kept: "subvolume_at (w_fs w1) q \<Longrightarrow> subvolume_at (w_fs w') q" for q
      by (fastforce simp: keeps_entries_def subvolume_at_def split: option.splits)
    have "r = Inr (t, x) \<Longrightarrow> t = tmp \<and> x = path" for t x
      using own by (auto split: if_splits prod.splits sum.splits)
    moreover have "subvolume_at (w_fs w1) (volume_entry store tmp)" if "temps_ok store ?c (w_fs w)"
      using CreateVolume_made [OF made [unfolded Inr] E plain] that tmp by (simp add: temps_ok_def)
    ultimately show ?thesis using frame_mono [OF f area] absent [OF f] tmp path kept by auto
  qed
qed

text \<open>The layer's archive is unpacked into its temporary volume, which stays a volume.\<close>

lemma unpack_and_handle_run:
  assumes run: "run_state (unpack_and_handle p us li) w = (r, w')" and E: "ES (w_env w)" "EU (w_env w)"
    and c: "plain_name (li_ChainID li)" and ready: "volume_ready (w_fs w) (us_TargetPath us)" and us: "spec64 us"
    and area: "below (resolve (us_TargetPath us)) \<subseteq> layer_area store (li_ChainID li)"
    and other: "\<not> prefix (resolve (us_TargetPath us)) (volume_entry store (li_ChainID li))"
  shows "frame (layer_area store (li_ChainID li)) w w' \<and> stays_absent store (li_ChainID li) w w' \<and>
    (\<forall>n. r = Inr n \<longrightarrow> subvolume_at (w_fs w') (resolve (us_TargetPath us)) \<and>
       n = wrap64 (sum_list (map item_size (read_tar (bl_data (us_Stream us))))))"
proof -
  let ?A = "layer_area store (li_ChainID li)" and ?R = "resolve (us_TargetPath us)"
  obtain out w1 where out: "run_state (bp_unpacker p us) w = (out, w1)" by fastforce
  have kept: "volume_kept ?R (w_fs w) (w_fs w1)" by (rule unpack_frame [OF out E(2) ready us])
  have env: "w_env w1 = w_env w" using evolvesD [OF unpack_env out] by (simp add: same_env_def)
  have f1: "frame ?A w w1" using kept env area by (fastforce simp: frame_def volume_kept_def)
  have a1: "stays_absent store (li_ChainID li) w w1" using kept other by (simp add: stays_absent_def volume_kept_def)
  show ?thesis
  proof (cases out)
    case (Inl e)
    obtain d w2 where d: "run_state (dr_DestroyVolume (bp_volumeDriver p) (li_ChainID li)) w1 = (d, w2)" by fastforce
    with run out Inl have "isl r" "w' = w2" by (auto simp: unpack_and_handle_def)
    moreover have "frame ?A w1 w2"
      by (rule within_frame [OF DestroyVolume_frame [OF c] d]) (simp_all add: E env)
    moreover have "stays_absent store (li_ChainID li) w1 w2"
      using DestroyVolume_shrinks [OF d, of "volume_entry store (li_ChainID li)"] E env by (metis stays_absent_def)
    ultimately show ?thesis using frame_trans [OF f1] stays_absent_trans [OF a1] by auto
  next
    case (Inr res)
    have res: "unpacked read_tar (bl_data (us_Stream us)) res" by (rule unpack_result [OF out [unfolded Inr] E(2) us])
    obtain h w2 where h: "run_state (dr_HandleOpaqueWhiteouts (bp_volumeDriver p) (Base (us_TargetPath us)) []) w1 = (h, w2)" by fastforce
    have f2: "frame {} w1 w2" by (rule within_frame [OF HandleOpaqueWhiteouts_none h]) (simp add: E env)
    have "w' = w2 \<and> (\<forall>n. r = Inr n \<longrightarrow> n = uo_BytesWritten res)"
      using run out Inr h res by (auto simp: unpack_and_handle_def unpacked_def split: sum.splits)
    moreover have "frame ?A w w2" using frame_trans [OF f1 frame_mono [OF f2]] by simp
    moreover have "subvolume_at (w_fs w2) ?R"
      using kept f2 by (simp add: volume_kept_def frame_def subvolume_at_def)
    moreover have "stays_absent store (li_ChainID li) w w2"
      using stays_absent_trans [OF a1 stays_absent_frame [OF f2]] by simp
    ultimately show ?thesis using res by (auto simp: unpacked_def)
  qed
qed

lemma unpack_step:
  assumes run: "run_state (unpackLayerToTemporaryDirectory p us li pli) w = (r, w')" and E: "ES (w_env w)" "EU (w_env w)"
    and st: "clean_abs store" "store_dirs store (w_fs w)" and c: "plain_name (li_ChainID li)" and us: "spec64 us"
    and tmp: "incomplete_entry (li_ChainID li) tmp" "us_TargetPath us = volume_file store tmp"
      "subvolume_at (w_fs w) (volume_entry store tmp)"
    and base: "us_BaseDirectory us = [] \<or> plain_name (li_ChainID pli)"
  shows "frame (layer_area store (li_ChainID li)) w w' \<and> stays_absent store (li_ChainID li) w w' \<and>
    (\<forall>n. r = Inr n \<longrightarrow> subvolume_at (w_fs w') (volume_entry store tmp) \<and>
       n = wrap64 (sum_list (map item_size (read_tar (bl_data (us_Stream us))))))"
proof -
  let ?A = "layer_area store (li_ChainID li)" and ?v = "volume_entry store tmp"
  have plain: "plain_name tmp" using c tmp(1) by (rule plain_incomplete)
  have area: "below ?v \<subseteq> ?A" using tmp(1) by (rule layer_area_temp)
  have R: "resolve (us_TargetPath us) = ?v" using plain by (simp add: tmp(2))
  have other: "\<not> prefix ?v (volume_entry store (li_ChainID li))" using tmp(1) by (rule volume_not_temp)
  have handle: "frame ?A v v' \<and> stays_absent store (li_ChainID li) v v' \<and> (\<forall>n. x = Inr n \<longrightarrow> subvolume_at (w_fs v') ?v \<and>
       n = wrap64 (sum_list (map item_size (read_tar (bl_data (us_Stream us))))))"
    if "run_state (unpack_and_handle p us li) v = (x, v')" "frame ?A w v" "subvolume_at (w_fs v) ?v" for v x v'
  proof -
    have "store_dirs store (w_fs v)"
      using st(2) frame_get [OF that(2) layer_area_above] by (simp add: store_dirs_def dir_at_def)
    then have "volume_ready (w_fs v) (us_TargetPath us)"
      using volume_ready_file [OF st(1) plain that(3)] by (simp add: tmp(2))
    from unpack_and_handle_run [OF that(1) _ _ c this us] E frame_env [OF that(2)] area other show ?thesis by (simp add: R)
  qed
  obtain w1 where inner: "run_state (if us_BaseDirectory us \<noteq> [] then
       or_return (dr_VolumePath (bp_volumeDriver p) (li_ChainID pli)) id (\<lambda>parentPath.
       or_return (ensureBaseDirectoryExists (us_BaseDirectory us) (us_TargetPath us) parentPath) id (\<lambda>_.
       unpack_and_handle p us li))
     else unpack_and_handle p us li) w = (r, w1)" and w': "w_fs w' = w_fs w1" "w_env w' = w_env w1"
    using timed_run [OF run [unfolded unpackLayerToTemporaryDirectory_def]] by blast
  have "frame ?A w w1 \<and> stays_absent store (li_ChainID li) w w1 \<and> (\<forall>n. r = Inr n \<longrightarrow> subvolume_at (w_fs w1) ?v \<and>
       n = wrap64 (sum_list (map item_size (read_tar (bl_data (us_Stream us))))))"
  proof (cases "us_BaseDirectory us = []")
    case True
    with inner handle [of w r w1] tmp(3) show ?thesis by simp
  next
    case False
    with base have pc: "plain_name (li_ChainID pli)" by simp
    obtain vp w2 where vp: "run_state (dr_VolumePath (bp_volumeDriver p) (li_ChainID pli)) w = (vp, w2)" by fastforce
    have f2: "frame {} w w2" by (rule within_frame [OF VolumePath_pure vp]) (rule E)
    show ?thesis
    proof (cases vp)
      case (Inl e)
      with inner vp False have "isl r" "w1 = w2" by auto
      with frame_mono [OF f2] stays_absent_frame [OF f2] show ?thesis by auto
    next
      case (Inr pp)
      have pp: "pp = volume_file store (li_ChainID pli)" using VolumePath_found [OF vp [unfolded Inr]] by simp
      let ?ensure = "ensureBaseDirectoryExists (us_BaseDirectory us) (us_TargetPath us) pp"
      obtain en w3 where en: "run_state ?ensure w2 = (en, w3)" by fastforce
      have vf: "volume_file store x \<noteq> []" for x
        using st(1) by (auto simp: volume_file_def Join_def VolumesDirName_def)
      have within: "evolves (within (\<lambda>_. True) (below ?v)) ?ensure \<and> evolves keeps_entries ?ensure"
      proof (cases "base_dirs (us_BaseDirectory us)")
        case (Some ds)
        then have "[] \<notin> set ds" using base_dirs_rooted base_dirs_only_rooted by fastforce
        then have "evolves (within (\<lambda>_. True) (below ?v)) (ensure_base_dirs ds (us_TargetPath us) pp)"
          unfolding tmp(2) pp
          by (intro ensure_base_dirs_evolves(1) ensure_base_dir_within [OF base_paths [OF plain pc] order.refl])
            (auto simp: vf)
        with Some ensure_base_dirs_evolves(2) show ?thesis by (simp add: ensureBaseDirectoryExists_def)
      qed (auto simp: ensureBaseDirectoryExists_def intro!: evolves_rules)
      have f3': "frame (below ?v) w w3"
        using frame_mono [OF f2] within_frame_any [OF conjunct1 [OF within] en] frame_trans by blast
      note f3 = frame_mono [OF f3' area]
      have a3: "stays_absent store (li_ChainID li) w w3" using stays_absent_frame [OF f3'] other by simp
      have "subvolume_at (w_fs w2) ?v" using f2 tmp(3) by (simp add: frame_def subvolume_at_def)
      with evolvesD [OF conjunct2 [OF within] en] have s3: "subvolume_at (w_fs w3) ?v"
        by (fastforce simp: keeps_entries_def subvolume_at_def split: option.splits)
      show ?thesis
      proof (cases en)
        case (Inl e)
        with inner vp Inr en False have "isl r" "w1 = w3" by auto
        with f3 a3 show ?thesis by auto
      next
        case en': (Inr u)
        with inner vp Inr en False have "run_state (unpack_and_handle p us li) w3 = (r, w1)" by simp
        from handle [OF this f3 s3] frame_trans [OF f3] stays_absent_trans [OF a3] show ?thesis by blast
      qed
    qed
  qed
  then show ?thesis by (simp add: frame_def stays_absent_def w')
qed

text \<open>The last step: the size is recorded, and the volume gets its name.\<close>

lemma final_path:
  assumes "clean_abs store" and "plain_name c" and "incomplete_entry c tmp"
    and "\<not> contains (store @ ''/volumes/'') ''-incomplete-''"
  shows "replace_first (volume_file store tmp) tmp c = volume_file store c"
proof -
  have plain: "plain_name tmp" using assms(2,3) by (rule plain_incomplete)
  have vf: "volume_file store x = ((store @ ''/volumes'') @ [CHR ''/'']) @ x" if "plain_name x" for x
    using Join_plain3 [OF assms(1) plain_dir_names(2) that] by (simp add: volume_file_def VolumesDirName_def)
  obtain a b where tmp: "tmp = a @ ''-incomplete-'' @ b" using assms(3) by (auto simp: incomplete_entry_def incomplete_name_def)
  have "\<not> contains (store @ ''/volumes/'') tmp"
  proof
    assume "contains (store @ ''/volumes/'') tmp"
    then obtain x y where "store @ ''/volumes/'' = (x @ a) @ ''-incomplete-'' @ (b @ y)"
      unfolding contains_iff tmp by (metis append.assoc)
    then have "contains (store @ ''/volumes/'') ''-incomplete-''" unfolding contains_iff by blast
    with assms(4) show False by simp
  qed
  then show ?thesis
    using replace_first_last [of "CHR ''/''" tmp "store @ ''/volumes''" c] plain_no_slash [OF plain]
    unfolding vf [OF plain] vf [OF assms(2)] by simp
qed

lemma finalize_run:
  assumes run: "run_state (finalizeVolume p tmp (volume_file store tmp) c n) w = (r, w')" and E: "ES (w_env w)"
    and st: "clean_abs store" "\<not> contains (store @ ''/volumes/'') ''-incomplete-''" and c: "plain_name c"
    and tmp: "incomplete_entry c tmp" "subvolume_at (w_fs w) (volume_entry store tmp)"
  shows "frame (layer_area store c) w w' \<and> (isl r \<longrightarrow> stays_absent store c w w') \<and>
    (r = Inr () \<longrightarrow> honest (w_env w) \<longrightarrow> is_int64 n \<longrightarrow>
       fs_get (w_fs w') (volume_entry store c) =
         (if fs_get (w_fs w) (volume_entry store c) = None then fs_get (w_fs w) (volume_entry store tmp)
          else fs_get (w_fs w) (volume_entry store c)) \<and>
       recorded_size (w_fs w') (meta_dir store @ [meta_entry c]) = Some n)"
proof -
  let ?M = "meta_dir store @ [meta_entry c]" and ?A = "layer_area store c" and ?q = "volume_entry store c"
    and ?t = "volume_entry store tmp"
  have plain: "plain_name tmp" using c tmp(1) by (rule plain_incomplete)
  have MA: "{?M} \<subseteq> ?A" by simp
  have M: "\<not> prefix ?q ?M" "\<not> prefix ?t ?M" "?q \<noteq> ?M" "?t \<noteq> ?M"
    by (auto simp: volume_entry_def volumes_dir_def meta_dir_def)
  obtain a w1 where a: "run_state (dr_WriteVolumeMeta (bp_volumeDriver p) c \<lparr>vm_Size = n\<rparr>) w = (a, w1)" by fastforce
  have f1: "frame {?M} w w1" by (rule within_frame [OF WriteVolumeMeta_frame [OF c] a E]) simp
  have same: "fs_get (w_fs w1) ?q = fs_get (w_fs w) ?q" "fs_get (w_fs w1) ?t = fs_get (w_fs w) ?t"
    using frame_get [OF f1] M by simp_all
  show ?thesis
  proof (cases a)
    case (Inl e)
    with run a have "isl r" "w' = w1" by (auto simp: finalizeVolume_def)
    with frame_mono [OF f1 MA] same show ?thesis by (auto simp: stays_absent_def)
  next
    case (Inr u)
    obtain b w2 where b: "run_state (dr_MoveVolume (bp_volumeDriver p) (volume_file store tmp) (volume_file store c)) w1 = (b, w2)" by fastforce
    have w': "w' = w2 \<and> isl r = isl b" using run a b Inr
      by (auto simp: finalizeVolume_def final_path [OF st(1) c tmp(1) st(2)] split: sum.splits)
    have "frame (below ?q \<union> below ?t) w1 w2"
      by (rule within_frame [OF MoveVolume_frame b]) (use E frame_env [OF f1] c plain in auto)
    then have f2: "frame (below ?q \<union> below ?t) w1 w2" .
    have "below ?q \<union> below ?t \<subseteq> ?A" using layer_area_volume layer_area_temp [OF tmp(1)] by blast
    from frame_trans [OF frame_mono [OF f1 MA] frame_mono [OF f2 this]] have f: "frame ?A w w2" .
    show ?thesis
    proof (cases b)
      case (Inl e)
      with MoveVolume_failed [OF b [unfolded Inl]] w' f same show ?thesis by (auto simp: stays_absent_def)
    next
      case b': (Inr v)
      have "recorded_size (w_fs w2) ?M = recorded_size (w_fs w1) ?M"
        using frame_get [OF f2, of ?M] M by (simp add: recorded_size_def)
      moreover have "recorded_size (w_fs w1) ?M = Some n" if "is_int64 n"
        using WriteVolumeMeta_written [of c n w w1] a Inr that c by simp
      moreover have "fs_get (w_fs w2) ?q = (if fs_get (w_fs w) ?q = None then fs_get (w_fs w) ?t else fs_get (w_fs w) ?q)"
        if "honest (w_env w)"
      proof -
        have "subvolume_at (w_fs w1) ?t" using tmp(2) same by (simp add: subvolume_at_def)
        moreover have "\<not> prefix ?q ?t" using temp_differs [OF tmp(1)] by (auto simp: volume_entry_def)
        ultimately show ?thesis
          using MoveVolume_done [of "volume_file store tmp" "volume_file store c" w1 w2] b b' that frame_env [OF f1] c plain same
          by simp
      qed
      ultimately show ?thesis using w' f b' by auto
    qed
  qed
qed

lemma unpackLayer_run:
  assumes run: "run_state (unpackLayer p li pli spec stream) w = (r, w')" and E: "ES (w_env w)" "EU (w_env w)"
    and st: "clean_abs store" "store_dirs store (w_fs w)" "\<not> contains (store @ ''/volumes/'') ''-incomplete-''"
    and c: "plain_name (li_ChainID li)" and temps: "temps_ok store (li_ChainID li) (w_fs w)"
    and ids: "\<forall>m\<in>set (bs_UIDMappings spec @ bs_GIDMappings spec). mapping64 m"
    and base: "li_BaseDirectory li = [] \<or> plain_name (li_ChainID pli)"
  shows "frame (layer_area store (li_ChainID li)) w w' \<and> (isl r \<longrightarrow> stays_absent store (li_ChainID li) w w') \<and>
    (r = Inr () \<longrightarrow> honest (w_env w) \<longrightarrow>
       fs_get (w_fs w') (volume_entry store (li_ChainID li)) \<noteq> None \<and>
       (fs_get (w_fs w) (volume_entry store (li_ChainID li)) = None \<longrightarrow>
          subvolume_at (w_fs w') (volume_entry store (li_ChainID li))) \<and>
       recorded_size (w_fs w') (meta_dir store @ [meta_entry (li_ChainID li)]) =
         Some (wrap64 (sum_list (map item_size (read_tar (bl_data stream))))))"
proof -
  let ?c = "li_ChainID li" and ?A = "layer_area store (li_ChainID li)"
  obtain a w1 where a: "run_state (createTemporaryVolumeDirectory p li spec) w = (a, w1)" by fastforce
  note made = create_run [OF a E(1) c]
  show ?thesis
  proof (cases a)
    case (Inl e)
    with run a have "r = Inl e" "w' = w1" by (auto simp: unpackLayer_def)
    with made show ?thesis by simp
  next
    case (Inr x)
    obtain tmp path where x': "a = Inr (tmp, path)" using Inr by (cases x) simp
    with made temps have tmp: "incomplete_entry ?c tmp" "subvolume_at (w_fs w1) (volume_entry store tmp)"
      and "path = volume_file store tmp" by simp_all
    with x' have x: "a = Inr (tmp, volume_file store tmp)" by simp
    define us where "us = \<lparr>us_Stream = stream, us_TargetPath = volume_file store tmp, us_UIDMappings = bs_UIDMappings spec,
           us_GIDMappings = bs_GIDMappings spec, us_BaseDirectory = li_BaseDirectory li\<rparr>"
    obtain b w2 where b: "run_state (unpackLayerToTemporaryDirectory p us li pli) w1 = (b, w2)" by fastforce
    have f1: "frame ?A w w1" and a1: "stays_absent store ?c w w1" using made by simp_all
    have dirs: "store_dirs store (w_fs w1)"
      using st(2) frame_get [OF f1 layer_area_above] by (simp add: store_dirs_def dir_at_def)
    have step: "frame ?A w1 w2 \<and> stays_absent store ?c w1 w2 \<and>
      (\<forall>n. b = Inr n \<longrightarrow> subvolume_at (w_fs w2) (volume_entry store tmp) \<and>
         n = wrap64 (sum_list (map item_size (read_tar (bl_data (us_Stream us))))))"
      by (rule unpack_step [OF b _ _ st(1) dirs c _ tmp(1) _ tmp(2)])
        (use E frame_env [OF f1] ids base in \<open>simp_all add: us_def spec64_def\<close>)
    have f2: "frame ?A w w2" using frame_trans [OF f1] step by blast
    have a2: "stays_absent store ?c w w2" using stays_absent_trans [OF a1] step by blast
    have res: "subvolume_at (w_fs w2) (volume_entry store tmp) \<and>
         n = wrap64 (sum_list (map item_size (read_tar (bl_data stream))))" if "b = Inr n" for n
      using step that by (simp add: us_def)
    show ?thesis
    proof (cases b)
      case (Inl e)
      with run a x b have "isl r" "w' = w2" by (auto simp: unpackLayer_def us_def)
      with f2 a2 show ?thesis by auto
    next
      case b': (Inr n)
      with run a x b have fin: "run_state (finalizeVolume p tmp (volume_file store tmp) ?c n) w2 = (r, w')"
        by (simp add: unpackLayer_def us_def)
      have s: "subvolume_at (w_fs w2) (volume_entry store tmp)" using res [OF b'] by simp
      have env: "w_env w2 = w_env w" using frame_env [OF f2] .
      have "ES (w_env w2)" using E(1) env by simp
      note last = finalize_run [OF fin this st(1,3) c tmp(1) s]
      have n: "is_int64 n" "n = wrap64 (sum_list (map item_size (read_tar (bl_data stream))))" using res [OF b'] by simp_all
      have "fs_get (w_fs w') (volume_entry store ?c) \<noteq> None \<and>
          (fs_get (w_fs w) (volume_entry store ?c) = None \<longrightarrow> subvolume_at (w_fs w') (volume_entry store ?c)) \<and>
          recorded_size (w_fs w') (meta_dir store @ [meta_entry ?c]) = Some n"
        if "r = Inr ()" "honest (w_env w)"
      proof -
        have e: "fs_get (w_fs w') (volume_entry store ?c) =
            (if fs_get (w_fs w2) (volume_entry store ?c) = None then fs_get (w_fs w2) (volume_entry store tmp)
             else fs_get (w_fs w2) (volume_entry store ?c))"
          and m: "recorded_size (w_fs w') (meta_dir store @ [meta_entry ?c]) = Some n"
          using last that n(1) env by simp_all
        have "subvolume_at (w_fs w') (volume_entry store ?c)" if "fs_get (w_fs w) (volume_entry store ?c) = None"
          using e s a2 that by (simp add: stays_absent_def subvolume_at_def)
        with e m subvolume_at_get [OF s] show ?thesis by simp
      qed
      moreover have "frame ?A w w'" using frame_trans [OF f2] last by blast
      moreover have "isl r \<longrightarrow> stays_absent store ?c w w'" using stays_absent_trans [OF a2] last by blast
      ultimately show ?thesis unfolding n(2) [symmetric] by blast
    qed
  qed
qed

end

section \<open>All layers\<close>

text \<open>
  A layer is complete when its volume is a subvolume and the recorded size is that of an archive
  which the fetcher delivered for it. \<open>pulled\<close> is what building the first \<open>n\<close> layers achieves, with
  any result: only the places of these layers and those in \<open>X\<close> change, every volume that appeared is
  complete, and after a success the last layer has one.
\<close>

definition complete_layer ::
  "string \<Rightarrow> (string \<Rightarrow> tar_item list) \<Rightarrow> (LayerInfo \<Rightarrow> string \<Rightarrow> bool) \<Rightarrow> LayerInfo \<Rightarrow> fsys \<Rightarrow> bool" where
  "complete_layer store read_tar served li fs \<longleftrightarrow>
     subvolume_at fs (volume_entry store (li_ChainID li)) \<and>
     (\<exists>data. served li data \<and> recorded_size fs (meta_dir store @ [meta_entry (li_ChainID li)]) =
        Some (wrap64 (sum_list (map item_size (read_tar data)))))"

definition layers_area :: "string \<Rightarrow> LayerInfo list \<Rightarrow> path set" where
  "layers_area store ls = {q. \<exists>li\<in>set ls. q \<in> layer_area store (li_ChainID li)}"

definition pulled ::
  "string \<Rightarrow> (string \<Rightarrow> tar_item list) \<Rightarrow> (LayerInfo \<Rightarrow> string \<Rightarrow> bool) \<Rightarrow> path set \<Rightarrow> LayerInfo list \<Rightarrow>
     world \<Rightarrow> error + unit \<Rightarrow> world \<Rightarrow> bool" where
  "pulled store read_tar served X ls w r w' \<longleftrightarrow>
     frame (layers_area store ls \<union> X) w w' \<and>
     (honest (w_env w) \<longrightarrow>
        (\<forall>li\<in>set ls. fs_get (w_fs w) (volume_entry store (li_ChainID li)) = None \<longrightarrow>
           fs_get (w_fs w') (volume_entry store (li_ChainID li)) \<noteq> None \<longrightarrow>
           complete_layer store read_tar served li (w_fs w')) \<and>
        (ls \<noteq> [] \<longrightarrow> r = Inr () \<longrightarrow> fs_get (w_fs w') (volume_entry store (li_ChainID (last ls))) \<noteq> None))"

text \<open>Chain IDs are plain names that neither begin with one another nor look like those of collected volumes.\<close>

definition chain_ok :: "string \<Rightarrow> bool" where
  "chain_ok c \<longleftrightarrow> plain_name c \<and> \<not> contains c ''gc.''"

definition chains_ok :: "LayerInfo list \<Rightarrow> bool" where
  "chains_ok ls \<longleftrightarrow> (\<forall>li\<in>set ls. chain_ok (li_ChainID li)) \<and>
     (\<forall>i<length ls. \<forall>j<length ls. i \<noteq> j \<longrightarrow> \<not> prefix (li_ChainID (ls ! i)) (li_ChainID (ls ! j))) \<and>
     (ls \<noteq> [] \<longrightarrow> li_BaseDirectory (hd ls) = [])"

text \<open>Places that no volume and no metadata is in or below.\<close>

definition apart :: "string \<Rightarrow> path set \<Rightarrow> bool" where
  "apart store X \<longleftrightarrow>
     (\<forall>q\<in>X. \<not> prefix q (volumes_dir store) \<and> \<not> prefix (volumes_dir store) q \<and> \<not> prefix (meta_dir store) q)"

lemma apartD: "apart store X \<Longrightarrow> q \<in> X \<Longrightarrow>
    \<not> prefix q (volumes_dir store) \<and> \<not> prefix (volumes_dir store) q \<and> \<not> prefix (meta_dir store) q"
  by (simp add: apart_def)

lemma apart_entries: "apart store X \<Longrightarrow> volume_entry store v \<notin> X" "apart store X \<Longrightarrow> meta_dir store @ [m] \<notin> X"
  using apartD by (fastforce simp: volume_entry_def)+

lemma meta_entry_ok: "chain_ok c \<Longrightarrow> meta_entry c = ''volume-'' @ c"
  by (simp add: chain_ok_def meta_entry_def replace_first_absent)

lemma temp_prefix: "incomplete_entry c v \<Longrightarrow> prefix c v"
  by (auto simp only: incomplete_entry_def incomplete_name_def prefix_def)

text \<open>The places of two layers have nothing in common.\<close>

lemma other_area:
  assumes "chain_ok c" and "chain_ok d" and "\<not> prefix c d" and "\<not> prefix d c"
  shows "volume_entry store c \<notin> layer_area store d" and "meta_dir store @ [meta_entry c] \<notin> layer_area store d"
    and "incomplete_entry c v \<Longrightarrow> volume_entry store v \<notin> layer_area store d"
proof -
  have name: "v \<noteq> x" if "v = c \<or> incomplete_entry c v" "x = d \<or> incomplete_entry d x" for v x
  proof
    assume "v = x"
    with that have "prefix c v" "prefix d v" by (auto dest: temp_prefix)
    then have "prefix c d \<or> prefix d c" by (metis linorder_linear prefix_length_prefix)
    with assms(3,4) show False by simp
  qed
  have vol: "volume_entry store v \<notin> layer_area store d" if "v = c \<or> incomplete_entry c v" for v
    using name [OF that] by (auto simp: layer_area_def volume_entry_def volumes_dir_def meta_dir_def)
  then show "volume_entry store c \<notin> layer_area store d" "incomplete_entry c v \<Longrightarrow> volume_entry store v \<notin> layer_area store d"
    by simp_all
  have "c \<noteq> d" using assms(3) by auto
  then show "meta_dir store @ [meta_entry c] \<notin> layer_area store d"
    by (auto simp: layer_area_def volume_entry_def volumes_dir_def meta_dir_def meta_entry_ok [OF assms(1)] meta_entry_ok [OF assms(2)])
qed

lemma complete_frame:
  assumes "complete_layer store read_tar served li (w_fs w)" and "frame X w w'"
    and "volume_entry store (li_ChainID li) \<notin> X" and "meta_dir store @ [meta_entry (li_ChainID li)] \<notin> X"
  shows "complete_layer store read_tar served li (w_fs w')"
  using assms frame_get [OF assms(2)] by (simp add: complete_layer_def subvolume_at_def recorded_size_def)

lemma store_dirs_frame: "frame (layers_area store ls \<union> X) w w' \<Longrightarrow> apart store X \<Longrightarrow> store_dirs store (w_fs w) \<Longrightarrow> store_dirs store (w_fs w')"
  using frame_get layer_area_above apartD unfolding store_dirs_def dir_at_def layers_area_def by fastforce

definition pull_ready :: "string \<Rightarrow> LayerInfo list \<Rightarrow> fsys \<Rightarrow> bool" where
  "pull_ready store ls fs \<longleftrightarrow> store_dirs store fs \<and> (\<forall>li\<in>set ls. temps_ok store (li_ChainID li) fs)"

lemma layers_area_snoc: "layers_area store (ls @ [li]) = layers_area store ls \<union> layer_area store (li_ChainID li)"
  by (auto simp: layers_area_def)

lemma pulledI:
  assumes "frame (layers_area store ls \<union> X) w w'"
    and "\<And>li. honest (w_env w) \<Longrightarrow> li \<in> set ls \<Longrightarrow> fs_get (w_fs w) (volume_entry store (li_ChainID li)) = None \<Longrightarrow>
        fs_get (w_fs w') (volume_entry store (li_ChainID li)) \<noteq> None \<Longrightarrow> complete_layer store rt sv li (w_fs w')"
    and "honest (w_env w) \<Longrightarrow> ls \<noteq> [] \<Longrightarrow> r = Inr () \<Longrightarrow> fs_get (w_fs w') (volume_entry store (li_ChainID (last ls))) \<noteq> None"
  shows "pulled store rt sv X ls w r w'"
  using assms unfolding pulled_def by blast

lemma pulledD:
  assumes "pulled store rt sv X ls w r w'"
  shows "frame (layers_area store ls \<union> X) w w'"
    and "honest (w_env w) \<Longrightarrow> li \<in> set ls \<Longrightarrow> fs_get (w_fs w) (volume_entry store (li_ChainID li)) = None \<Longrightarrow>
        fs_get (w_fs w') (volume_entry store (li_ChainID li)) \<noteq> None \<Longrightarrow> complete_layer store rt sv li (w_fs w')"
    and "honest (w_env w) \<Longrightarrow> ls \<noteq> [] \<Longrightarrow> r = Inr () \<Longrightarrow> fs_get (w_fs w') (volume_entry store (li_ChainID (last ls))) \<noteq> None"
  using assms unfolding pulled_def by blast+

text \<open>Steps that change only places in \<open>X\<close> can come before and after.\<close>

lemma pulled_around:
  assumes "pulled store rt sv X ls w1 r w2" and "frame X w w1" and "frame X w2 w'" and "apart store X"
  shows "pulled store rt sv X ls w r w'"
proof -
  note p = pulledD [OF assms(1)]
  have env: "w_env w1 = w_env w" using frame_env [OF assms(2)] .
  note out = apart_entries [OF assms(4)]
  have same: "fs_get (w_fs w1) (volume_entry store c) = fs_get (w_fs w) (volume_entry store c)"
    "fs_get (w_fs w') (volume_entry store c) = fs_get (w_fs w2) (volume_entry store c)" for c
    using frame_get [OF assms(2) out(1)] frame_get [OF assms(3) out(1)] by simp_all
  show ?thesis
  proof (rule pulledI)
    show "frame (layers_area store ls \<union> X) w w'"
      using frame_trans [OF frame_mono [OF assms(2)] frame_trans [OF p(1) frame_mono [OF assms(3)]]] by simp
    show "complete_layer store rt sv li (w_fs w')" if "honest (w_env w)" "li \<in> set ls"
      "fs_get (w_fs w) (volume_entry store (li_ChainID li)) = None" "fs_get (w_fs w') (volume_entry store (li_ChainID li)) \<noteq> None" for li
      by (rule complete_frame [OF p(2) assms(3) out]) (use that same env in simp_all)
    show "fs_get (w_fs w') (volume_entry store (li_ChainID (last ls))) \<noteq> None" if "honest (w_env w)" "ls \<noteq> []" "r = Inr ()"
      using p(3) that same env by simp
  qed
qed

text \<open>A layer that was not built.\<close>

lemma pulled_not_built:
  assumes "pulled store rt sv X ls w r w'" and "volume_entry store (li_ChainID li) \<notin> layers_area store ls" and "apart store X"
  shows "pulled store rt sv X (ls @ [li]) w (Inl e) w'"
proof -
  note p = pulledD [OF assms(1)]
  have same: "fs_get (w_fs w') (volume_entry store (li_ChainID li)) = fs_get (w_fs w) (volume_entry store (li_ChainID li))"
    using frame_get [OF p(1)] assms(2) apart_entries [OF assms(3)] by simp
  show ?thesis
  proof (rule pulledI)
    show "frame (layers_area store (ls @ [li]) \<union> X) w w'" by (rule frame_mono [OF p(1)]) (auto simp: layers_area_snoc)
    show "complete_layer store rt sv l (w_fs w')" if "honest (w_env w)" "l \<in> set (ls @ [li])"
      "fs_get (w_fs w) (volume_entry store (li_ChainID l)) = None" "fs_get (w_fs w') (volume_entry store (li_ChainID l)) \<noteq> None" for l
      using that p(2) same by (cases "l = li") simp_all
  qed simp
qed

lemma pulled_nothing:
  assumes "frame X w w'" and "apart store X"
    and "r = Inr () \<Longrightarrow> ls \<noteq> [] \<Longrightarrow> fs_get (w_fs w) (volume_entry store (li_ChainID (last ls))) \<noteq> None"
  shows "pulled store rt sv X ls w r w'"
proof -
  have same: "fs_get (w_fs w') (volume_entry store c) = fs_get (w_fs w) (volume_entry store c)" for c
    using frame_get [OF assms(1) apart_entries(1) [OF assms(2)]] .
  show ?thesis
  proof (rule pulledI)
    show "frame (layers_area store ls \<union> X) w w'" by (rule frame_mono [OF assms(1)]) simp
  qed (use same assms(3) in simp_all)
qed

text \<open>A layer built on top of the others.\<close>

lemma pulled_built:
  assumes below: "pulled store rt sv X ls w (Inr ()) w1" and f: "frame (layer_area store (li_ChainID li)) w1 w'"
    and "apart store X" and other: "volume_entry store (li_ChainID li) \<notin> layers_area store ls"
    and others: "\<And>l. l \<in> set ls \<Longrightarrow> volume_entry store (li_ChainID l) \<notin> layer_area store (li_ChainID li) \<and>
        meta_dir store @ [meta_entry (li_ChainID l)] \<notin> layer_area store (li_ChainID li)"
    and failed: "isl r \<Longrightarrow> stays_absent store (li_ChainID li) w1 w'"
    and built: "r = Inr () \<Longrightarrow> honest (w_env w1) \<Longrightarrow> fs_get (w_fs w') (volume_entry store (li_ChainID li)) \<noteq> None \<and>
        (fs_get (w_fs w1) (volume_entry store (li_ChainID li)) = None \<longrightarrow> complete_layer store rt sv li (w_fs w'))"
  shows "pulled store rt sv X (ls @ [li]) w r w'"
proof -
  let ?q = "\<lambda>l. volume_entry store (li_ChainID l)"
  note p = pulledD [OF below]
  have env: "w_env w1 = w_env w" using frame_env [OF p(1)] .
  have q: "fs_get (w_fs w1) (?q li) = fs_get (w_fs w) (?q li)"
    using frame_get [OF p(1)] other apart_entries [OF assms(3)] by simp
  have r: "isl r \<or> r = Inr ()" by (cases r) simp_all
  show ?thesis
  proof (rule pulledI)
    show "frame (layers_area store (ls @ [li]) \<union> X) w w'"
      by (rule frame_trans [OF frame_mono [OF p(1)] frame_mono [OF f]]) (auto simp: layers_area_snoc)
    show "fs_get (w_fs w') (?q (last (ls @ [li]))) \<noteq> None" if "honest (w_env w)" "r = Inr ()"
      using built that env by simp
    show "complete_layer store rt sv l (w_fs w')"
      if "honest (w_env w)" "l \<in> set (ls @ [li])" "fs_get (w_fs w) (?q l) = None" "fs_get (w_fs w') (?q l) \<noteq> None" for l
    proof (cases "l \<in> set ls")
      case True
      have "fs_get (w_fs w') (?q l) = fs_get (w_fs w1) (?q l)" using frame_get [OF f] others [OF True] by simp
      with that p(2) True have "complete_layer store rt sv l (w_fs w1)" by simp
      from complete_frame [OF this f] others [OF True] show ?thesis by simp
    next
      case False
      with that have l: "l = li" by simp
      from r show ?thesis
      proof
        assume "isl r"
        with failed that q l show ?thesis by (simp add: stays_absent_def)
      next
        assume "r = Inr ()"
        with built that q l env show ?thesis by simp
      qed
    qed
  qed
qed

context pulling begin

lemma volumeExists_run:
  assumes "run_state (volumeExists p c) w = (b, w')" and "ES (w_env w)" and "plain_name c"
  shows "frame {} w w' \<and> (b \<longrightarrow> fs_get (w_fs w) (volume_entry store c) \<noteq> None)"
proof -
  obtain x where x: "run_state (dr_VolumePath (bp_volumeDriver p) c) w = (x, w')" "b \<longleftrightarrow> \<not> isl x"
    using assms(1) by (auto simp: volumeExists_def split: prod.splits sum.splits)
  have "frame {} w w'" by (rule within_frame [OF VolumePath_pure x(1)]) (rule assms(2))
  moreover have "fs_get (w_fs w) (volume_entry store c) \<noteq> None" if "b"
    using VolumePath_found [of c w] x that assms(3) by (cases x) auto
  ultimately show ?thesis by simp
qed

lemma download_run:
  assumes "run_state (downloadLayer p spec li) w = (r, w')" and "good li"
  shows "frame T w w' \<and> (\<forall>b. r = Inr b \<longrightarrow> served (bs_BaseImageSrc spec) li (bl_data b) \<and> (\<forall>f. bl_temp b = Some f \<longrightarrow> resolve f \<in> T))"
proof -
  obtain w1 where 1: "run_state (or_return (ft_StreamBlob (bp_fetcher p) (bs_BaseImageSrc spec) li)
       (Wrap (''streaming blob `'' @ li_BlobID li @ ''`'')) (\<lambda>(stream, _). ok stream)) w = (r, w1)"
    and w': "w_fs w' = w_fs w1" "w_env w' = w_env w1"
    using timed_run [OF assms(1) [unfolded downloadLayer_def]] by blast
  obtain x w2 where x: "run_state (ft_StreamBlob (bp_fetcher p) (bs_BaseImageSrc spec) li) w = (x, w2)" by fastforce
  have "frame T w w2" by (rule within_frame_any [OF StreamBlob_frame [OF assms(2)] x]) simp
  moreover have "w1 = w2" using 1 x by (auto split: sum.splits prod.splits)
  moreover have "x = Inr (b, n) \<Longrightarrow> served (bs_BaseImageSrc spec) li (bl_data b) \<and> (\<forall>f. bl_temp b = Some f \<longrightarrow> resolve f \<in> T)" for b n
    using StreamBlob_served [of "bs_BaseImageSrc spec" li w] StreamBlob_temp [of "bs_BaseImageSrc spec" li w] x assms(2) by blast
  moreover have "r = Inr b \<Longrightarrow> \<exists>n. x = Inr (b, n)" for b using 1 x by (auto split: sum.splits prod.splits)
  ultimately show ?thesis by (auto simp: frame_def w')
qed

lemma close_run: "run_state (close_blob b) w = (r, w') \<Longrightarrow> (\<And>f. bl_temp b = Some f \<Longrightarrow> resolve f \<in> T) \<Longrightarrow> frame T w w'"
  by (erule within_frame_any [rotated]) (auto simp: close_blob_def intro!: evolves_rules split: option.splits)

text \<open>Under the lock of a layer: its parents, then the layer.\<close>

lemma locked_pulled:
  assumes run: "run_state (do {
       exists \<leftarrow> volumeExists p (li_ChainID li);
       if exists then ok ()
       else do {
         download \<leftarrow> downloadLayer p spec li;
         or_return parents id (\<lambda>_.
         (case download of
            Inl err \<Rightarrow> fail err
          | Inr stream \<Rightarrow> do {
              r \<leftarrow> unpackLayer p li pli spec stream;
              _ \<leftarrow> close_blob stream;
              State_Monad.return r
            }))
       }}) w = (r, w')"
    and parents: "\<And>v x v'. run_state parents v = (x, v') \<Longrightarrow> ES (w_env v) \<Longrightarrow> EU (w_env v) \<Longrightarrow>
        pull_ready store ls (w_fs v) \<Longrightarrow> pulled store read_tar (served (bs_BaseImageSrc spec)) X ls v x v'"
    and E: "ES (w_env w)" "EU (w_env w)"
    and st: "clean_abs store" "\<not> contains (store @ ''/volumes/'') ''-incomplete-''" "pull_ready store (ls @ [li]) (w_fs w)"
    and li: "good li" "chain_ok (li_ChainID li)" "li_BaseDirectory li = [] \<or> plain_name (li_ChainID pli)"
    and ids: "\<forall>m\<in>set (bs_UIDMappings spec @ bs_GIDMappings spec). mapping64 m"
    and X: "T \<subseteq> X" "apart store X"
    and others: "\<And>l. l \<in> set ls \<Longrightarrow> chain_ok (li_ChainID l) \<and>
        \<not> prefix (li_ChainID l) (li_ChainID li) \<and> \<not> prefix (li_ChainID li) (li_ChainID l)"
  shows "pulled store read_tar (served (bs_BaseImageSrc spec)) X (ls @ [li]) w r w'"
proof -
  let ?sv = "served (bs_BaseImageSrc spec)" and ?q = "volume_entry store (li_ChainID li)"
  have c: "plain_name (li_ChainID li)" using li(2) by (simp add: chain_ok_def)
  note areas = other_area [OF li(2)] and areas' = other_area [OF _ li(2)]
  have far: "?q \<notin> layers_area store ls" "\<And>v. incomplete_entry (li_ChainID li) v \<Longrightarrow> volume_entry store v \<notin> layers_area store ls"
    using areas others by (auto simp: layers_area_def)
  obtain b w1 where b: "run_state (volumeExists p (li_ChainID li)) w = (b, w1)" by fastforce
  note ex = volumeExists_run [OF b E(1) c]
  have f1: "frame X w w1" using frame_mono [OF conjunct1 [OF ex]] by simp
  show ?thesis
  proof (cases b)
    case True
    with run b have "r = Inr ()" "w' = w1" by auto
    with pulled_nothing [OF f1 X(2)] ex True show ?thesis by simp
  next
    case False
    obtain d w2 where d: "run_state (downloadLayer p spec li) w1 = (d, w2)" by fastforce
    note down = download_run [OF d li(1)]
    have f2: "frame X w w2" using frame_trans [OF f1 frame_mono [OF conjunct1 [OF down] X(1)]] .
    obtain x w3 where x: "run_state parents w2 = (x, w3)" by fastforce
    have same: "fs_get (w_fs w2) q = fs_get (w_fs w) q" if "q \<notin> X" for q using frame_get [OF f2 that] .
    have ready: "pull_ready store (ls @ [li]) (w_fs w2)"
      using st(3) same apart_entries [OF X(2)] apartD [OF X(2)]
      unfolding pull_ready_def store_dirs_def temps_ok_def dir_at_def subvolume_at_def by metis
    then have "pull_ready store ls (w_fs w2)" by (simp add: pull_ready_def)
    from parents [OF x _ _ this] E frame_env [OF f2] have px: "pulled store read_tar ?sv X ls w2 x w3" by simp
    show ?thesis
    proof (cases "isl x \<or> isl d")
      case True
      with run b d x False obtain e where "r = Inl e" "w' = w3" by (auto split: sum.splits)
      with pulled_around [OF pulled_not_built [OF px far(1) X(2)] f2 frame_refl X(2)] show ?thesis by simp
    next
      case no: False
      then obtain stream where stream: "d = Inr stream" "x = Inr ()" by (cases x; cases d) auto
      obtain z w4 where z: "run_state (unpackLayer p li pli spec stream) w3 = (z, w4)" by fastforce
      obtain y w5 where y: "run_state (close_blob stream) w4 = (y, w5)" by fastforce
      have r: "r = z" "w' = w5" using run b d x False stream z y by simp_all
      have f3: "frame (layers_area store ls \<union> X) w2 w3" using pulledD(1) [OF px] .
      have env: "w_env w3 = w_env w" using frame_env [OF f3] frame_env [OF f2] by simp
      have dirs: "store_dirs store (w_fs w3)"
        using store_dirs_frame [OF f3 X(2)] ready by (simp add: pull_ready_def)
      have temps: "temps_ok store (li_ChainID li) (w_fs w3)"
        using ready frame_get [OF f3] far(2) apart_entries(1) [OF X(2)]
        by (simp add: pull_ready_def temps_ok_def subvolume_at_def)
      have E3: "ES (w_env w3)" "EU (w_env w3)" using E env by simp_all
      note up = unpackLayer_run [OF z E3 st(1) dirs st(2) c temps ids li(3)]
      have sv: "?sv li (bl_data stream)" using down stream by simp
      have built: "fs_get (w_fs w4) ?q \<noteq> None \<and> (fs_get (w_fs w3) ?q = None \<longrightarrow> complete_layer store read_tar ?sv li (w_fs w4))"
        if "z = Inr ()" "honest (w_env w3)"
        using up that sv unfolding complete_layer_def by blast
      have p4: "pulled store read_tar ?sv X (ls @ [li]) w2 z w4"
        by (rule pulled_built [OF px [unfolded stream(2)] conjunct1 [OF up] X(2) far(1) _ _ built])
          (use others areas' up in blast)+
      have "frame X w4 w5" using frame_mono [OF close_run [OF y] X(1)] down stream by simp
      from pulled_around [OF p4 f2 this X(2)] show ?thesis by (simp add: r)
    qed
  qed
qed

lemma buildLayer_pulled:
  assumes st: "clean_abs store" "\<not> contains (store @ ''/volumes/'') ''-incomplete-''" and ls: "chains_ok ls" "\<forall>li\<in>set ls. good li"
    and ids: "\<forall>m\<in>set (bs_UIDMappings spec @ bs_GIDMappings spec). mapping64 m" and X: "apart store (F \<union> T)"
  shows "n \<le> length ls \<Longrightarrow> run_state (buildLayer p n ls spec) w = (r, w') \<Longrightarrow> ES (w_env w) \<Longrightarrow> EU (w_env w) \<Longrightarrow>
    pull_ready store (take n ls) (w_fs w) \<Longrightarrow>
    pulled store read_tar (served (bs_BaseImageSrc spec)) (F \<union> T) (take n ls) w r w'"
proof (induction n arbitrary: w r w')
  case 0
  then have "w' = w" by simp
  then show ?case using pulled_nothing [OF frame_refl X] by simp
next
  case (Suc n)
  let ?li = "ls ! n" and ?X = "F \<union> T" and ?sv = "served (bs_BaseImageSrc spec)"
  have n: "n < length ls" using Suc.prems(1) by simp
  then have snoc: "take (Suc n) ls = take n ls @ [?li]" by (simp add: take_Suc_conv_app_nth)
  have chain: "chain_ok (li_ChainID l)" if "l \<in> set ls" for l using ls(1) that by (simp add: chains_ok_def)
  have li: "?li \<in> set ls" "good ?li" using n ls(2) by simp_all
  have c: "plain_name (li_ChainID ?li)" using chain [OF li(1)] by (simp add: chain_ok_def)
  have base: "li_BaseDirectory ?li = [] \<or> plain_name (li_ChainID (parent_layer ls n))"
  proof (cases n)
    case 0
    then show ?thesis using ls(1) n by (cases ls) (simp_all add: chains_ok_def)
  next
    case (Suc k)
    then show ?thesis using chain [of "ls ! k"] n by (simp add: parent_layer_def chain_ok_def)
  qed
  have others: "chain_ok (li_ChainID l) \<and> \<not> prefix (li_ChainID l) (li_ChainID ?li) \<and> \<not> prefix (li_ChainID ?li) (li_ChainID l)"
    if l: "l \<in> set (take n ls)" for l
  proof -
    obtain i where i: "i < n" "i < length ls" "l = ls ! i" using l by (auto simp: in_set_conv_nth)
    then have "i \<noteq> n" by simp
    with ls(1) i n have "\<not> prefix (li_ChainID (ls ! i)) (li_ChainID ?li)" "\<not> prefix (li_ChainID ?li) (li_ChainID (ls ! i))"
      unfolding chains_ok_def by metis+
    with chain [of l] i show ?thesis by simp
  qed
  have ready: "pull_ready store (take n ls @ [?li]) (w_fs w)" using Suc.prems(5) snoc by simp
  obtain b w1 where b: "run_state (volumeExists p (li_ChainID ?li)) w = (b, w1)" by fastforce
  note ex = volumeExists_run [OF b Suc.prems(3) c]
  have f1: "frame ?X w w1" using frame_mono [OF conjunct1 [OF ex]] by simp
  show ?case
  proof (cases b)
    case True
    with Suc.prems(2) b have "r = Inr ()" "w' = w1" by (auto simp: Let_def)
    with pulled_nothing [OF f1 X] ex True snoc show ?thesis by simp
  next
    case False
    obtain l w2 where l: "run_state (lk_Lock (bp_locksmith p) (li_ChainID ?li)) w1 = (l, w2)" by fastforce
    have "frame F w1 w2" by (rule within_frame_any [OF lock_frame l]) simp
    with f1 have f2: "frame ?X w w2" using frame_trans frame_mono by (metis Un_upper1)
    show ?thesis
    proof (cases l)
      case (Inl e)
      with Suc.prems(2) b l False have "r = Inl (Wrap ''acquiring lock'' e)" "w' = w2" by (simp_all add: Let_def)
      with pulled_nothing [OF f2 X, of r] snoc show ?thesis by simp
    next
      case (Inr fd)
      define body where "body = do {
         exists \<leftarrow> volumeExists p (li_ChainID ?li);
         if exists then ok ()
         else do {
           download \<leftarrow> downloadLayer p spec ?li;
           or_return (buildLayer p n ls spec) id (\<lambda>_.
           (case download of
              Inl err \<Rightarrow> fail err
            | Inr stream \<Rightarrow> do {
                r \<leftarrow> unpackLayer p ?li (parent_layer ls n) spec stream;
                _ \<leftarrow> close_blob stream;
                State_Monad.return r
              }))
         }}"
      obtain x w3 where x: "run_state body w2 = (x, w3)" by fastforce
      obtain y w4 where y: "run_state (lk_Unlock (bp_locksmith p) fd) w3 = (y, w4)" by fastforce
      have r: "r = x" "w' = w4"
        using Suc.prems(2) [unfolded buildLayer.simps Let_def, folded body_def] b False l Inr x y by simp_all
      have same: "fs_get (w_fs w2) q = fs_get (w_fs w) q" if "q \<notin> ?X" for q using frame_get [OF f2 that] .
      have "pull_ready store (take n ls @ [?li]) (w_fs w2)"
        using ready same apart_entries [OF X] apartD [OF X]
        unfolding pull_ready_def store_dirs_def temps_ok_def dir_at_def subvolume_at_def by metis
      from locked_pulled [OF x [unfolded body_def] _ _ _ st this li(2) chain [OF li(1)] base ids _ X others]
      have "pulled store read_tar ?sv ?X (take n ls @ [?li]) w2 x w3"
        using Suc.IH n Suc.prems(3,4) frame_env [OF f2] by simp
      moreover have "frame ?X w3 w4" using within_frame_any [OF unlock_frame y] by simp
      ultimately show ?thesis using pulled_around f2 X snoc r by simp
    qed
  qed
qed

lemma Pull_pulled:
  assumes "clean_abs store" "\<not> contains (store @ ''/volumes/'') ''-incomplete-''" "chains_ok (bi_LayerInfos info)"
    and "\<forall>li\<in>set (bi_LayerInfos info). good li" and "\<forall>m\<in>set (bs_UIDMappings spec @ bs_GIDMappings spec). mapping64 m"
    and "apart store (F \<union> T)" and "run_state (Pull p info spec) w = (r, w')" and "ES (w_env w)" and "EU (w_env w)"
    and "pull_ready store (bi_LayerInfos info) (w_fs w)"
  shows "pulled store read_tar (served (bs_BaseImageSrc spec)) (F \<union> T) (bi_LayerInfos info) w r w'"
proof (cases "quotaExceeded (bi_LayerInfos info) spec")
  case (Inl e)
  with assms(7) have "r = Inl e" "w' = w" by (simp_all add: Pull_def)
  with pulled_nothing [OF frame_refl assms(6), of r] show ?thesis by simp
next
  case (Inr u)
  with assms(7) have "run_state (buildLayer p (length (bi_LayerInfos info)) (bi_LayerInfos info) spec) w = (r, w')"
    by (simp add: Pull_def)
  from buildLayer_pulled [OF assms(1-6) order.refl this assms(8,9)] assms(10) show ?thesis by simp
qed

section \<open>Locks\<close>

lemma layer_ops_same_locks:
  "evolves same_locks (dr_VolumePath (bp_volumeDriver p) v)" "evolves same_locks (unpackLayer p li pli spec stream)"
  "evolves same_locks (downloadLayer p spec li)" "evolves same_locks (close_blob stream)"
proof -
  show "evolves same_locks (dr_VolumePath (bp_volumeDriver p) v)" by (rule ops_locks(1))
  have [evolves_rules]: "evolves same_locks (ensureBaseDirectoryExists d c q)" for d c q
    unfolding ensureBaseDirectoryExists_def by (intro evolves_rules ensure_base_dirs_evolves)
  show "evolves same_locks (unpackLayer p li pli spec stream)"
    unfolding unpackLayer_def createTemporaryVolumeDirectory_def unpackLayerToTemporaryDirectory_def unpack_and_handle_def
      finalizeVolume_def Let_def
    by (intro evolves_rules layer_locks ops_locks unpack_locks)
  show "evolves same_locks (downloadLayer p spec li)"
    unfolding downloadLayer_def by (intro evolves_rules fetcher_locks)
  show "evolves same_locks (close_blob stream)" unfolding close_blob_def by (intro evolves_rules)
qed

lemmas layer_ops_balanced = layer_ops_same_locks [THEN same_locks_balanced]

lemma buildLayer_balanced: "evolves balanced (buildLayer p n ls spec)"
proof (induction n)
  case (Suc n)
  show ?case
    unfolding buildLayer.simps Let_def volumeExists_def
    by (intro evolves_bind evolves_if evolves_ok preorder_balanced layer_ops_balanced evolves_return bracket_balanced
        evolves_fail evolves_or_return evolves_case_sum Suc.IH)
qed (simp add: evolves_ok)

lemma Pull_balanced: "evolves balanced (Pull p info spec)"
  unfolding Pull_def by (intro evolves_rules buildLayer_balanced)

end

end
