(* ===== verification/Namespaced.thy ===== *)
theory Namespaced
  imports PullerLaws
begin

text \<open>
  \<open>store/filesystems/namespaced/driver.go\<close>: the driver that the commands use. It hands every
  operation to the inner driver, but a user other than root that has ID mappings destroys volumes
  and images in a child process in a user namespace of its own, where it owns their files. The
  child, \<^verbatim>\<open>with-caps-in-userns\<close>, starts \<^verbatim>\<open>destroy-volume\<close> or \<^verbatim>\<open>destroy-image\<close>, which rebuild the
  driver from its JSON text. The contracts of the inner driver are kept by the wrapper.
\<close>

section \<open>The code\<close>

record NamespacedDriver =
  ns_driver :: driver_ops
  ns_idMappings :: IDMappings
  ns_idMapper :: CommandIDMapper

definition New_Namespaced :: "driver_ops \<Rightarrow> IDMappings \<Rightarrow> CommandIDMapper \<Rightarrow> NamespacedDriver" where
  "New_Namespaced driver idMappings idMapper =
     \<lparr>ns_driver = driver, ns_idMappings = idMappings, ns_idMapper = idMapper\<rparr>"

definition specToDriver :: "DriverSpec \<Rightarrow> error + Driver" where
  "specToDriver spec =
     (if sp_Type spec = ''btrfs''
      then Inr (NewDriver (sp_FsBinaryPath spec) (sp_MkfsBinaryPath spec) (sp_SuidBinaryPath spec) (sp_StorePath spec))
      else Inl (Plain (''invalid filesystem spec: '' @ sp_Type spec @ '' not recognized'')))"

text \<open>The registered commands; their result is the exit code. They report errors on the standard error only.\<close>

definition destroy_command :: "(Driver \<Rightarrow> string \<Rightarrow> (error + unit) io) \<Rightarrow> string list \<Rightarrow> int io" where
  "destroy_command destroy args =
     (case args of
        [driverJSON, target] \<Rightarrow>
          (case Option.bind (json_unmarshal driverJSON) spec_of_json of
             None \<Rightarrow> State_Monad.return 1
           | Some driverSpec \<Rightarrow>
               (case specToDriver driverSpec of
                  Inl err \<Rightarrow> State_Monad.return 1
                | Inr driver \<Rightarrow> do {
                    r \<leftarrow> destroy driver target;
                    State_Monad.return (case r of Inl err \<Rightarrow> 1 | Inr _ \<Rightarrow> 0)
                  }))
      | _ \<Rightarrow> State_Monad.return 1)"

definition destroy_volume_command :: "string list \<Rightarrow> int io" where
  "destroy_volume_command args = destroy_command BtrfsDriver.DestroyVolume args"

definition destroy_image_command :: "string list \<Rightarrow> int io" where
  "destroy_image_command args = destroy_command BtrfsDriver.DestroyImage args"

text \<open>\<open>control\<close> says whether the byte on the control pipe came.\<close>

definition with_caps_in_userns :: "bool \<Rightarrow> string \<Rightarrow> string \<Rightarrow> string \<Rightarrow> int io" where
  "with_caps_in_userns control command driverJSON target =
     (if \<not> control then State_Monad.return 1
      else do {
        r \<leftarrow> run_cmd self_exe [command, driverJSON, target];
        State_Monad.return (case c_status r of Some err \<Rightarrow> 1 | None \<Rightarrow> 0)
      })"

text \<open>
  As for the unpacker, the child's work is placed where the control pipe is written. Before that
  it only waits, and it ends without work when this process does.
\<close>

definition reexec_destroy :: "NamespacedDriver \<Rightarrow> string \<Rightarrow> string \<Rightarrow> string \<Rightarrow> (error + unit) io" where
  "reexec_destroy n command what target = do {
     marshalled \<leftarrow> dr_Marshal (ns_driver n);
     let driverJSON = (case marshalled of Inr j \<Rightarrow> j | Inl _ \<Rightarrow> []);
     or_return (plain_call (\<lambda>e. SysError e)) (Wrap ''creating control pipe'') (\<lambda>_.
     or_return (plain_call (PathError ''fork/exec'' self_exe)) (Wrap (''reexecing '' @ what)) (\<lambda>_. do {
       pid \<leftarrow> process_number;
       or_return (MapUIDs (ns_idMapper n) pid (im_UIDMappings (ns_idMappings n))) (Wrap ''mapping uids'') (\<lambda>_.
       or_return (MapGIDs (ns_idMapper n) pid (im_GIDMappings (ns_idMappings n))) (Wrap ''mapping gids'') (\<lambda>_.
       or_return (plain_call (PathError ''write'' ''|1'')) (Wrap ''writing to control pipe'') (\<lambda>_. do {
         r \<leftarrow> run_cmd self_exe [''with-caps-in-userns'', command, driverJSON, target];
         (case c_status r of
            Some err \<Rightarrow> fail (Wrap (''waiting for '' @ what @ '' rexec: '' @ c_out r) err)
          | None \<Rightarrow> ok ())
       })))
     }))
   }"

definition without_userns :: "NamespacedDriver \<Rightarrow> bool io" where
  "without_userns n = do {
     uid \<leftarrow> os_Getuid;
     State_Monad.return (length (im_UIDMappings (ns_idMappings n)) + length (im_GIDMappings (ns_idMappings n)) = 0 \<or> uid = 0)
   }"

definition ns_DestroyVolume :: "NamespacedDriver \<Rightarrow> string \<Rightarrow> (error + unit) io" where
  "ns_DestroyVolume n i = do {
     direct \<leftarrow> without_userns n;
     if direct then dr_DestroyVolume (ns_driver n) i
     else reexec_destroy n ''destroy-volume'' ''destroy volume'' i
   }"

definition ns_DestroyImage :: "NamespacedDriver \<Rightarrow> string \<Rightarrow> (error + unit) io" where
  "ns_DestroyImage n path = do {
     direct \<leftarrow> without_userns n;
     if direct then dr_DestroyImage (ns_driver n) path
     else reexec_destroy n ''destroy-image'' ''destroy image'' path
   }"

definition ns_ops :: "NamespacedDriver \<Rightarrow> driver_ops" where
  "ns_ops n = (ns_driver n)\<lparr>dr_DestroyVolume := ns_DestroyVolume n, dr_DestroyImage := ns_DestroyImage n\<rparr>"

section \<open>The processes\<close>

definition quiet_action :: "env \<Rightarrow> string list \<Rightarrow> int io \<Rightarrow> bool" where
  "quiet_action v args m \<longleftrightarrow>
     (\<forall>fs r fs'. e_progs v self_exe args fs = (r, fs') \<longrightarrow>
        (\<exists>faults code w'. run_state m (process v faults fs) = (code, w') \<and> fs' = w_fs w' \<and> (c_status r = None \<longleftrightarrow> code = 0)))"

definition caps_tool :: "env \<Rightarrow> bool" where
  "caps_tool v \<longleftrightarrow>
     (\<forall>command json target fs r fs'. e_progs v self_exe [''with-caps-in-userns'', command, json, target] fs = (r, fs') \<longrightarrow>
        (\<exists>faults control code w'.
           run_state (with_caps_in_userns control command json target) (process v faults fs) = (code, w') \<and>
           fs' = w_fs w' \<and> (c_status r = None \<longleftrightarrow> code = 0))) \<and>
     (\<forall>json target. quiet_action v [''destroy-volume'', json, target] (destroy_volume_command [json, target])) \<and>
     (\<forall>json target. quiet_action v [''destroy-image'', json, target] (destroy_image_command [json, target]))"

definition userns_tools :: "Driver \<Rightarrow> CommandIDMapper \<Rightarrow> env \<Rightarrow> bool" where
  "userns_tools d im v \<longleftrightarrow> tools d v \<and> idmap_tools im v \<and> caps_tool v"

text \<open>The driver that a child rebuilds from the JSON text is the driver of the parent.\<close>

lemma Marshal_specToDriver:
  assumes "run_state (Marshal d) w = (Inr j, w')"
  shows "\<exists>spec. Option.bind (json_unmarshal j) spec_of_json = Some spec \<and> specToDriver spec = Inr d"
proof -
  let ?spec = "\<lparr>sp_Type = ''btrfs'', sp_StorePath = storePath d, sp_FsBinaryPath = btrfsBinPath d,
    sp_MkfsBinaryPath = mkfsBinPath d, sp_SuidBinaryPath = draxBinPath d\<rparr>"
  have j: "j = json_print (spec_json ?spec)" using assms by (simp add: Marshal_def Let_def)
  have "json_ok (spec_json ?spec)" by (simp add: spec_json_def)
  then have "json_unmarshal j = Some (spec_json ?spec)" unfolding j by (rule json_unmarshal_print)
  moreover have "spec_of_json (spec_json ?spec) = Some ?spec"
    by (simp add: spec_of_json_def spec_json_def string_member_def to_lower_def)
  moreover have "specToDriver ?spec = Inr d" by (simp add: specToDriver_def NewDriver_def)
  ultimately show ?thesis by auto
qed

section \<open>The child does what the driver does\<close>

text \<open>A relation on the files under a condition on the environment, such as \<open>within E X\<close> and \<open>shrinks E\<close>.\<close>

definition files_rel :: "(env \<Rightarrow> bool) \<Rightarrow> (fsys \<Rightarrow> fsys \<Rightarrow> bool) \<Rightarrow> world \<Rightarrow> world \<Rightarrow> bool" where
  "files_rel E P w w' \<longleftrightarrow> (E (w_env w) \<longrightarrow> w_env w' = w_env w \<and> P (w_fs w) (w_fs w'))"

lemma within_files: "within E X = files_rel E (\<lambda>fs fs'. \<forall>p. p \<notin> X \<longrightarrow> fs_get fs' p = fs_get fs p)"
  by (auto simp: fun_eq_iff files_rel_def within_def)

lemma shrinks_files: "shrinks E = files_rel E (\<lambda>fs fs'. \<forall>p. fs_get fs' p \<noteq> None \<longrightarrow> fs_get fs p \<noteq> None)"
  by (auto simp: fun_eq_iff files_rel_def shrinks_def)

text \<open>A program that runs a computation with faults of its own is related as the computation is.\<close>

lemma program_files:
  assumes "\<And>v fs r fs'. E v \<Longrightarrow> e_progs v bin args fs = (r, fs') \<Longrightarrow>
      \<exists>m faults code w'. evolves (files_rel E P) m \<and> run_state (m :: 'a io) (process v faults fs) = (code, w') \<and> fs' = w_fs w'"
    and "\<And>v f. E v \<Longrightarrow> E (v\<lparr>e_faults := f\<rparr>)" and "\<And>fs. P fs fs"
  shows "evolves (files_rel E P) (run_cmd bin args)"
proof (rule evolvesI)
  fix w r w'
  assume run: "run_state (run_cmd bin args) w = (r, w')"
  have "P (w_fs w) (w_fs w')" if E: "E (w_env w)"
  proof (cases "e_faults (w_env w) (w_clock w)")
    case None
    with run have p: "e_progs (w_env w) bin args (w_fs w) = (r, w_fs w')" by (auto simp: run_cmd_def split: prod.splits)
    from assms(1) [OF E this] obtain m faults code w1
      where m: "evolves (files_rel E P) (m :: 'a io)" "run_state m (process (w_env w) faults (w_fs w)) = (code, w1)" "w_fs w' = w_fs w1" by blast
    have "E (w_env (process (w_env w) faults (w_fs w)))" using assms(2) [OF E] by simp
    with evolvesD [OF m(1,2)] m(3) show ?thesis by (simp add: files_rel_def)
  next
    case (Some e)
    with run assms(3) show ?thesis by (auto simp: run_cmd_def)
  qed
  moreover have "w_env w' = w_env w" using evolvesD [OF run_cmd_same_env run] by (simp add: same_env_def)
  ultimately show "files_rel E P w w'" by (simp add: files_rel_def)
qed

lemma preorder_files: "(\<And>fs. P fs fs) \<Longrightarrow> (\<And>a b c. P a b \<Longrightarrow> P b c \<Longrightarrow> P a c) \<Longrightarrow> preorder_on_state (files_rel E P)"
  unfolding preorder_on_state_def files_rel_def by metis

lemma process_faults: "process (v\<lparr>e_faults := f\<rparr>) = process v" "e_progs (v\<lparr>e_faults := f\<rparr>) = e_progs v"
  by (simp_all add: fun_eq_iff process_def)

lemma tool_faults [simp]: "tools d (v\<lparr>e_faults := f\<rparr>) = tools d v"
  unfolding tools_def btrfs_tool_def drax_tool_def acts_as_def process_faults by (rule refl)

lemma idmap_faults [simp]: "idmap_tools im (v\<lparr>e_faults := f\<rparr>) = idmap_tools im v"
  unfolding idmap_tools_def process_faults by (rule refl)

lemma caps_faults [simp]: "caps_tool (v\<lparr>e_faults := f\<rparr>) = caps_tool v"
  unfolding caps_tool_def quiet_action_def process_faults by (rule refl)

lemma userns_faults [simp]: "userns_tools d im (v\<lparr>e_faults := f\<rparr>) = userns_tools d im v"
  by (simp add: userns_tools_def)

lemma destroy_files:
  assumes "evolves (files_rel E P) (destroy d target)" and pre: "preorder_on_state (files_rel E P)"
    and "Option.bind (json_unmarshal j) spec_of_json = Some spec" and "specToDriver spec = Inr d"
  shows "evolves (files_rel E P) (destroy_command destroy [j, target])"
  unfolding destroy_command_def
  by (simp add: assms(3,4)) (intro evolves_bind evolves_return pre assms(1))

lemma quiet_action_files:
  assumes "\<And>v. E v \<Longrightarrow> quiet_action v args m" and m: "evolves (files_rel E P) m"
    and "\<And>v f. E v \<Longrightarrow> E (v\<lparr>e_faults := f\<rparr>)" and "\<And>fs. P fs fs"
  shows "evolves (files_rel E P) (run_cmd self_exe args)"
proof (rule program_files [where 'a = int])
  fix v fs r fs'
  assume "E v" and p: "e_progs v self_exe args fs = (r, fs')"
  then have "quiet_action v args m" using assms(1) by blast
  with p obtain faults code w' where "run_state m (process v faults fs) = (code, w')" "fs' = w_fs w'"
    unfolding quiet_action_def by blast
  with m show "\<exists>m faults code w'. evolves (files_rel E P) m \<and> run_state (m :: int io) (process v faults fs) = (code, w') \<and> fs' = w_fs w'"
    by blast
qed (fact assms(3,4))+

lemma with_caps_files:
  assumes inner: "evolves (files_rel E P) (run_cmd self_exe [command, j, target])" and pre: "preorder_on_state (files_rel E P)"
    and "\<And>v. E v \<Longrightarrow> caps_tool v" and "\<And>v f. E v \<Longrightarrow> E (v\<lparr>e_faults := f\<rparr>)" and "\<And>fs. P fs fs"
  shows "evolves (files_rel E P) (run_cmd self_exe [''with-caps-in-userns'', command, j, target])"
proof (rule program_files [where 'a = int])
  fix v fs r fs'
  assume "E v" and p: "e_progs v self_exe [''with-caps-in-userns'', command, j, target] fs = (r, fs')"
  then have "caps_tool v" using assms(3) by blast
  with p obtain faults control code w' where
    run: "run_state (with_caps_in_userns control command j target) (process v faults fs) = (code, w')" "fs' = w_fs w'"
    unfolding caps_tool_def by blast
  have "evolves (files_rel E P) (with_caps_in_userns control command j target)"
    unfolding with_caps_in_userns_def by (intro evolves_if evolves_bind evolves_return pre inner)
  with run show "\<exists>m faults code w'. evolves (files_rel E P) m \<and> run_state (m :: int io) (process v faults fs) = (code, w') \<and> fs' = w_fs w'"
    by blast
qed (fact assms(4,5))+

text \<open>
  So what destroying keeps is kept when it is done in the child, for volumes and for images.
\<close>

lemma Marshal_ok: "\<exists>j spec. Marshal d = ok j \<and> Option.bind (json_unmarshal j) spec_of_json = Some spec \<and> specToDriver spec = Inr d"
proof -
  obtain j where j: "Marshal d = ok j" by (simp add: Marshal_def Let_def)
  then have "run_state (Marshal d) w = (Inr j, w)" for w by simp
  from Marshal_specToDriver [OF this] j show ?thesis by blast
qed

lemma ok_bind [simp]: "State_Monad.bind (ok x) f = f (Inr x)"
  by (simp add: ok_def)

lemma execute_files:
  assumes "bin \<in> {newuidmapBin im, newgidmapBin im}" and pre: "preorder_on_state (files_rel (userns_tools d im) P)"
    and same: "\<And>fs fs'. fs_get fs' = fs_get fs \<Longrightarrow> P fs fs'"
  shows "evolves (files_rel (userns_tools d im) P) (execute bin pid ms)"
proof -
  have "evolves (within (idmap_tools im) {}) (execute bin pid ms)"
    unfolding execute_def using assms(1) by (intro evolves_rules run_cmd_within) (metis idmap_tools_def snd_conv)
  then show ?thesis by (rule evolves_mono) (auto simp: within_def files_rel_def userns_tools_def fun_eq_iff intro!: same)
qed

lemma reexec_files:
  assumes n: "ns_driver n = btrfs_ops d" and m: "ns_idMapper n = im"
    and destroy: "evolves (files_rel (userns_tools d im) P) (destroy d target)"
    and action: "\<And>v j. userns_tools d im v \<Longrightarrow> quiet_action v [command, j, target] (destroy_command destroy [j, target])"
    and pre: "preorder_on_state (files_rel (userns_tools d im) P)"
    and same: "\<And>fs fs'. fs_get fs' = fs_get fs \<Longrightarrow> P fs fs'"
  shows "evolves (files_rel (userns_tools d im) P) (reexec_destroy n command what target)"
proof -
  let ?R = "files_rel (userns_tools d im) P"
  obtain j spec where j: "Marshal d = ok j"
    and spec: "Option.bind (json_unmarshal j) spec_of_json = Some spec" "specToDriver spec = Inr d"
    using Marshal_ok by blast
  have "evolves ?R (run_cmd self_exe [command, j, target])"
  proof (rule quiet_action_files)
    show "evolves ?R (destroy_command destroy [j, target])" using destroy pre spec by (rule destroy_files)
  qed (simp_all add: action same)
  then have "evolves ?R (run_cmd self_exe [''with-caps-in-userns'', command, j, target])"
    by (rule with_caps_files) (simp_all add: pre same userns_tools_def)
  moreover have "evolves ?R (plain_call mk)" for mk
    using plain_call_rules(1) [where X = "{}"] by (rule evolves_mono) (auto simp: within_def files_rel_def fun_eq_iff intro!: same)
  moreover have "evolves ?R (MapUIDs im pid ms)" "evolves ?R (MapGIDs im pid ms)" for pid ms
    unfolding MapUIDs_def MapGIDs_def by (auto intro!: execute_files pre same)
  moreover have "dr_Marshal (ns_driver n) = ok j" using j n by (simp add: btrfs_ops_def)
  ultimately show ?thesis
    unfolding reexec_destroy_def m by (simp only: Let_def ok_bind sum.case) (intro evolves_rules pre)
qed

lemma ns_destroy_files:
  assumes n: "ns_driver n = btrfs_ops d" "ns_idMapper n = im"
    and pre: "preorder_on_state (files_rel (userns_tools d im) P)"
    and same: "\<And>fs fs'. fs_get fs' = fs_get fs \<Longrightarrow> P fs fs'"
  shows "evolves (files_rel (userns_tools d im) P) (DestroyVolume d v) \<Longrightarrow>
      evolves (files_rel (userns_tools d im) P) (ns_DestroyVolume n v)"
    and "evolves (files_rel (userns_tools d im) P) (DestroyImage d p) \<Longrightarrow>
      evolves (files_rel (userns_tools d im) P) (ns_DestroyImage n p)"
proof -
  have q: "quiet_action e [''destroy-volume'', j, v] (destroy_command DestroyVolume [j, v])"
    "quiet_action e [''destroy-image'', j, p] (destroy_command DestroyImage [j, p])"
    if "userns_tools d im e" for e j
    using that by (simp_all add: userns_tools_def caps_tool_def destroy_volume_command_def destroy_image_command_def)
  have uid: "evolves (files_rel (userns_tools d im) P) (without_userns n)"
    unfolding without_userns_def os_Getuid_def by (intro evolves_rules pre)
  show "evolves (files_rel (userns_tools d im) P) (DestroyVolume d v) \<Longrightarrow>
      evolves (files_rel (userns_tools d im) P) (ns_DestroyVolume n v)"
    unfolding ns_DestroyVolume_def n
    by (intro evolves_bind evolves_if pre uid) (simp_all add: btrfs_ops_def reexec_files [OF n _ q(1) pre same])
  show "evolves (files_rel (userns_tools d im) P) (DestroyImage d p) \<Longrightarrow>
      evolves (files_rel (userns_tools d im) P) (ns_DestroyImage n p)"
    unfolding ns_DestroyImage_def n
    by (intro evolves_bind evolves_if pre uid) (simp_all add: btrfs_ops_def reexec_files [OF n _ q(2) pre same])
qed

section \<open>The contracts\<close>

lemma within_userns: "evolves (within (tools d) X) m \<Longrightarrow> evolves (within (userns_tools d im) X) m"
  by (erule evolves_mono) (auto simp: within_def userns_tools_def)

lemma ns_DestroyVolume_within:
  assumes "plain_name v" and "below (volume_entry (storePath d) v) \<subseteq> X" and "meta_dir (storePath d) @ [meta_entry v] \<in> X"
    and n: "ns_driver n = btrfs_ops d" "ns_idMapper n = im"
  shows "evolves (within (userns_tools d im) X) (ns_DestroyVolume n v)"
proof -
  have "evolves (within (userns_tools d im) X) (DestroyVolume d v)"
    using within_userns [OF btrfs.DestroyVolume_frame [OF assms(1-3)]] by (simp add: btrfs_ops_def)
  then show ?thesis unfolding within_files
    by (rule ns_destroy_files(1) [OF n, rotated 2]) (auto intro!: preorder_within [unfolded within_files])
qed

lemma ns_DestroyVolume_shrinks:
  assumes n: "ns_driver n = btrfs_ops d" "ns_idMapper n = im"
  shows "evolves (shrinks (userns_tools d im)) (ns_DestroyVolume n v)"
proof -
  have "evolves (shrinks (userns_tools d im)) (DestroyVolume d v)"
    using DestroyVolume_shrinks_lemma by (rule evolves_mono) (auto simp: shrinks_def userns_tools_def)
  then show ?thesis unfolding shrinks_files
    by (rule ns_destroy_files(1) [OF n, rotated 2]) (rule preorder_shrinks [unfolded shrinks_files], auto)
qed

lemma reexec_destroy_same:
  assumes "ns_driver n = btrfs_ops d"
  shows "evolves same_env (reexec_destroy n command what target)" "evolves same_locks (reexec_destroy n command what target)"
  using Marshal_ok [of d] unfolding reexec_destroy_def MapUIDs_def MapGIDs_def execute_def Let_def assms
  by (auto simp: btrfs_ops_def intro!: evolves_rules)

lemma ns_destroy_same:
  assumes "ns_driver n = btrfs_ops d"
  shows "evolves same_env (ns_DestroyVolume n v)" "evolves same_locks (ns_DestroyVolume n v)"
  unfolding ns_DestroyVolume_def without_userns_def assms
  using btrfs.change_env(2) [of d v] btrfs.ops_locks(4) [of d v]
  by (auto intro!: evolves_rules reexec_destroy_same [OF assms])

text \<open>The driver of the commands, around the btrfs driver.\<close>

definition commands_driver :: "Driver \<Rightarrow> IDMappings \<Rightarrow> CommandIDMapper \<Rightarrow> driver_ops" where
  "commands_driver d idMappings idMapper = ns_ops (New_Namespaced (btrfs_ops d) idMappings idMapper)"

lemma commands_driver_simps:
  "dr_VolumePath (commands_driver d ms im) = dr_VolumePath (btrfs_ops d)"
  "dr_Volumes (commands_driver d ms im) = dr_Volumes (btrfs_ops d)"
  "dr_VolumeSize (commands_driver d ms im) = dr_VolumeSize (btrfs_ops d)"
  "dr_MoveVolume (commands_driver d ms im) = dr_MoveVolume (btrfs_ops d)"
  "dr_CreateVolume (commands_driver d ms im) = dr_CreateVolume (btrfs_ops d)"
  "dr_WriteVolumeMeta (commands_driver d ms im) = dr_WriteVolumeMeta (btrfs_ops d)"
  "dr_HandleOpaqueWhiteouts (commands_driver d ms im) = dr_HandleOpaqueWhiteouts (btrfs_ops d)"
  "dr_DestroyVolume (commands_driver d ms im) = ns_DestroyVolume (New_Namespaced (btrfs_ops d) ms im)"
  by (simp_all add: commands_driver_def ns_ops_def New_Namespaced_def)

lemma New_Namespaced_simps [simp]:
  "ns_driver (New_Namespaced d ms im) = d" "ns_idMapper (New_Namespaced d ms im) = im"
  by (simp_all add: New_Namespaced_def)

lemmas namespaced_frames =
  btrfs.VolumePath_pure [THEN within_userns] btrfs.Volumes_pure [THEN within_userns]
  btrfs.VolumeSize_pure [THEN within_userns] btrfs.MoveVolume_frame [THEN within_userns]
  btrfs_layers.CreateVolume_frame [THEN within_userns] btrfs_layers.WriteVolumeMeta_frame [THEN within_userns]
  btrfs_layers.HandleOpaqueWhiteouts_none [THEN within_userns]
  ns_DestroyVolume_within [OF _ _ _ New_Namespaced_simps]
  btrfs.read_env btrfs.change_env btrfs.ops_locks btrfs_layers.layer_env btrfs_layers.layer_locks
  ns_destroy_same [OF New_Namespaced_simps(1)]

lemma userns_toolsD: "userns_tools d im v \<Longrightarrow> tools d v"
  by (simp add: userns_tools_def)

lemma ns_DestroyVolume_result:
  "run_state (ns_DestroyVolume (New_Namespaced (btrfs_ops d) ms im) v) w = (r, w') \<Longrightarrow> userns_tools d im (w_env w) \<Longrightarrow>
     fs_get (w_fs w') q \<noteq> None \<Longrightarrow> fs_get (w_fs w) q \<noteq> None"
  using evolvesD [OF ns_DestroyVolume_shrinks [OF New_Namespaced_simps]] by (simp add: shrinks_def)

interpretation namespaced: layer_store "commands_driver d ms im" "storePath d" "userns_tools d im" for d ms im
proof (unfold_locales, unfold commands_driver_simps)
qed (rule namespaced_frames btrfs.VolumePath_found btrfs.VolumePath_quiet btrfs.Volumes_listed
      btrfs_layers.CreateVolume_path btrfs_layers.CreateVolume_made [OF _ userns_toolsD] btrfs_layers.MoveVolume_done
      btrfs_layers.MoveVolume_failed ns_DestroyVolume_result btrfs_layers.WriteVolumeMeta_written; assumption)+

end
