(* ===== verification/SampleHost.thy ===== *)
theory SampleHost
  imports Namespaced
begin

text \<open>
  A host for examples: the sample environment of theory \<open>Sample\<close> with groot's own executable added.
  Its \<^verbatim>\<open>chroot-unpack\<close> runs the code of theory \<open>Untar\<close> on the files; an archive is a text, which
  stands for one regular file \<^verbatim>\<open>f\<close> with this content. The other commands of groot fail at once, as
  they do when the control pipe is closed, and the ID mapping programs do nothing.
\<close>

section \<open>Files as a tree\<close>

definition tree_of :: "fsys \<Rightarrow> tree" where
  "tree_of fs =
     \<lparr>t_names = map (\<lambda>(i, e). (fst e, i)) (enumerate 0 fs), t_inodes = map (\<lambda>(i, e). (i, snd e)) (enumerate 0 fs),
      t_next = length fs, t_root = [], t_cwd = [], t_files = [], t_clock = 0, t_faults = (\<lambda>_. None), t_uid = 0,
      t_umask = 0x12, t_printed = []\<rparr>"

definition fs_of :: "tree \<Rightarrow> fsys" where
  "fs_of t = concat (map (\<lambda>(p, _). case entry_at t p of None \<Rightarrow> [] | Some n \<Rightarrow> [(p, n)]) (t_names t))"

lemma fs_of_reflects: "reflects t (fs_of t)"
  unfolding reflects_def
proof
  fix p
  have "map_of (concat (map (\<lambda>(q, _). case entry_at t q of None \<Rightarrow> [] | Some n \<Rightarrow> [(q, n)]) xs)) p =
      (if p \<in> fst ` set xs then entry_at t p else None)" for xs :: "(path \<times> nat) list"
    by (induction xs) (auto simp: map_add_def split: option.splits)
  moreover have "entry_at t p = None" if "p \<notin> fst ` set (t_names t)"
  proof -
    have "map_of (t_names t) p = None" using that by (simp add: map_of_eq_None_iff)
    then show ?thesis by (simp add: entry_at_def ino_def)
  qed
  ultimately show "entry_at t p = fs_get (fs_of t) p" by (simp add: fs_of_def fs_get_def)
qed

lemma enumerate_names: "map_of (map (\<lambda>(i, e). (fst e, i)) (enumerate k xs)) p = Some i \<Longrightarrow>
    k \<le> i \<and> i < k + length xs \<and> fst (xs ! (i - k)) = p \<and> map_of xs p = Some (snd (xs ! (i - k)))"
proof (induction xs arbitrary: k)
  case (Cons x xs)
  then show ?case
  proof (cases "fst x = p")
    case False
    then have "map_of (map (\<lambda>(i, e). (fst e, i)) (enumerate (Suc k) xs)) p = Some i" using Cons.prems by (auto split: if_splits)
    from Cons.IH [OF this] False show ?thesis by (cases x) (auto simp: nth_Cons' Suc_diff_le)
  qed (cases x, auto)
qed simp

lemma enumerate_inodes: "k \<le> i \<Longrightarrow> i < k + length xs \<Longrightarrow>
    map_of (map (\<lambda>(i, e). (i, snd e)) (enumerate k xs)) i = Some (snd (xs ! (i - k)))"
proof (induction xs arbitrary: k)
  case (Cons x xs)
  then show ?case by (cases "i = k") (auto simp: nth_Cons' Suc_diff_le Suc_diff_Suc)
qed simp

lemma enumerate_absent: "map_of (map (\<lambda>(i, e). (fst e, i)) (enumerate k xs)) p = None \<longleftrightarrow> map_of xs p = None"
  by (induction xs arbitrary: k) auto

lemma tree_of_names: "ino (tree_of fs) p = Some i \<Longrightarrow> i < length fs \<and> fst (fs ! i) = p"
  using enumerate_names [of 0 fs p i] by (simp add: ino_def tree_of_def)

lemma tree_of_reflects: "reflects (tree_of fs) fs"
  unfolding reflects_def
proof
  fix p
  show "entry_at (tree_of fs) p = fs_get fs p"
  proof (cases "ino (tree_of fs) p")
    case None
    then show ?thesis using enumerate_absent [of 0 fs p] by (simp add: entry_at_def fs_get_def ino_def tree_of_def)
  next
    case (Some i)
    with enumerate_names [of 0 fs p i] enumerate_inodes [of 0 i fs] show ?thesis
      by (simp add: entry_at_def fs_get_def ino_def inode_def tree_of_def)
  qed
qed

lemma tree_of_fresh: "fresh_process (tree_of fs)"
proof -
  have "t_root (tree_of fs) = []" "t_files (tree_of fs) = []" "t_printed (tree_of fs) = []" "t_next (tree_of fs) = length fs"
    by (simp_all add: tree_of_def)
  moreover have "p = q" if "ino (tree_of fs) p = Some i" "ino (tree_of fs) q = Some i" for p q i
    using tree_of_names [OF that(1)] tree_of_names [OF that(2)] by simp
  then have "links_stay (tree_of fs)" unfolding links_stay_def by blast
  moreover have "i < length fs" if "ino (tree_of fs) p = Some i" for p i
    using tree_of_names [OF that] by simp
  ultimately show ?thesis unfolding fresh_process_def by simp
qed

section \<open>Groot's own executable\<close>

definition sample_tar :: "string \<Rightarrow> tar_item list" where
  "sample_tar s =
     [Entry \<lparr>th_Typeflag = TypeReg, th_Name = ''f'', th_Linkname = [], th_Uid = 0, th_Gid = 0, th_Mode = 0x1A4, th_ModTime = 7\<rparr> s None]"

definition eof_line :: string where "eof_line = ''EOF'' @ [CHR 0x0A]"

definition sample_self :: "string list \<Rightarrow> fsys \<Rightarrow> cmd_result \<times> fsys" where
  "sample_self args fs =
     (case args of
        [cmd, spec, strategy, input] \<Rightarrow>
          if cmd = ''chroot-unpack'' then
            (case run_state (chroot_unpack sample_tar spec strategy input) (tree_of fs) of
               (code, t) \<Rightarrow> ((if code = 0 then cmd_ok else cmd_failed) (concat (t_printed t)), fs_of t))
          else (cmd_failed eof_line, fs)
      | _ \<Rightarrow> (cmd_failed eof_line, fs))"

definition sample_host :: env where
  "sample_host = sample_env\<lparr>e_progs := (\<lambda>bin. if bin = self_exe then sample_self else e_progs sample_env bin)\<rparr>"

definition sample_mapper :: CommandIDMapper where
  "sample_mapper = NewIDMapper ''newuidmap'' ''newgidmap''"

lemma sample_host_programs: "sample_programs sample_host"
  using sample_programs_env by (simp add: sample_host_def sample_programs_def self_exe_def)

lemma sample_host_tools: "tools sample_driver sample_host"
  by (rule sample_tools_any [OF sample_host_programs])

lemma sample_host_self: "e_progs sample_host self_exe args fs = sample_self args fs"
  by (simp add: sample_host_def)

lemma sample_self_tool: "self_tool sample_tar sample_host"
  unfolding self_tool_def sample_host_self
proof (intro conjI allI impI)
  fix spec strategy input and fs :: fsys and r fs'
  assume p: "sample_self [''chroot-unpack'', spec, strategy, input] fs = (r, fs')"
  obtain code t where t: "run_state (chroot_unpack sample_tar spec strategy input) (tree_of fs) = (code, t)" by fastforce
  with p have "r = (if code = 0 then cmd_ok else cmd_failed) (concat (t_printed t))" "fs' = fs_of t"
    by (simp_all add: sample_self_def)
  with t show "\<exists>t code t'. reflects t fs \<and> fresh_process t \<and>
           run_state (chroot_unpack sample_tar spec strategy input) t = (code, t') \<and>
           reflects t' fs' \<and> c_out r = concat (t_printed t') \<and> (c_status r = None \<longleftrightarrow> code = 0)"
    using tree_of_reflects tree_of_fresh fs_of_reflects by (intro exI conjI) auto
next
  fix dir base strategy input and fs :: fsys and r fs'
  assume "sample_self [''unpack'', dir, base, strategy, input] fs = (r, fs')"
  then have "r = cmd_failed eof_line" "fs' = fs" by (simp_all add: sample_self_def)
  moreover have "run_state (unpack_command False [dir, base, strategy] input) (process sample_host (\<lambda>_. None) fs) =
      (1, (process sample_host (\<lambda>_. None) fs)\<lparr>w_stdout := [eof_line]\<rparr>)"
    by (simp add: unpack_command_def exit_error_def write_stdout_def eof_line_def)
  ultimately show "\<exists>faults control code w'.
           run_state (unpack_command control [dir, base, strategy] input) (process sample_host faults fs) = (code, w') \<and>
           fs' = w_fs w' \<and> c_out r = concat (w_stdout w') \<and> (c_status r = None \<longleftrightarrow> code = 0)"
    by (intro exI conjI) auto
qed

text \<open>On a failing disk, destroying fails and changes nothing.\<close>

lemma broken_DestroyVolume:
  assumes "e_faults (w_env w) = (\<lambda>_. Some EIO)"
  shows "\<exists>e w'. run_state (BtrfsDriver.DestroyVolume d v) w = (Inl e, w') \<and> w_fs w' = w_fs w"
  using assms by (simp add: DestroyVolume_def destroyBtrfsVolume_def os_Remove_def os_Stat_any_def os_Stat_def syscall_def)

lemma broken_runDrax:
  assumes "e_faults (w_env w) = (\<lambda>_. Some EIO)"
  shows "\<exists>e w'. run_state (runDrax d args) w = (Inl e, w') \<and> w_fs w' = w_fs w"
  using assms
  by (simp add: runDrax_def draxInPath_def hasSUID_def exec_LookPath_def os_Stat_def syscall_def run_cmd_def
      os_Geteuid_def split: sum.splits option.splits)

lemma broken_DestroyImage:
  assumes "e_faults (w_env w) = (\<lambda>_. Some EIO)"
  shows "\<exists>e w'. run_state (BtrfsDriver.DestroyImage d p) w = (Inl e, w') \<and> w_fs w' = w_fs w"
proof -
  let ?w = "tick (tick w)" and ?args = "[''--btrfs-bin'', btrfsBinPath d, ''list'', p]"
  obtain e w' where "run_state (runDrax d ?args) ?w = (Inl e, w')" "w_fs w' = w_fs w"
    using broken_runDrax [of ?w d ?args] assms by auto
  with assms show ?thesis
    by (simp add: DestroyImage_def destroy_snapshot_def destroyBtrfsVolume_def remove_image_path_def os_Stat_any_def os_Stat_def
        os_RemoveAll_def listSubvolumes_def syscall_def Let_def)
qed

lemma broken_destroy:
  assumes "\<And>d. \<exists>e w'. run_state (destroy d target) w = (Inl e, w') \<and> w_fs w' = w_fs w"
  shows "\<exists>w'. run_state (destroy_command destroy [j, target]) w = (1, w') \<and> w_fs w' = w_fs w"
proof (cases "Option.bind (json_unmarshal j) spec_of_json")
  case (Some spec)
  show ?thesis
  proof (cases "specToDriver spec")
    case (Inr d)
    with Some assms [of d] show ?thesis by (auto simp: destroy_command_def)
  qed (simp add: destroy_command_def Some)
qed (simp add: destroy_command_def)

lemma sample_caps_tool: "caps_tool sample_host"
  unfolding caps_tool_def quiet_action_def sample_host_self
proof (intro conjI allI impI)
  fix command json target and fs :: fsys and r fs'
  assume "sample_self [''with-caps-in-userns'', command, json, target] fs = (r, fs')"
  then have "r = cmd_failed eof_line" "fs' = fs" by (simp_all add: sample_self_def)
  moreover have "run_state (with_caps_in_userns False command json target) (process sample_host (\<lambda>_. None) fs) =
      (1, process sample_host (\<lambda>_. None) fs)" by (simp add: with_caps_in_userns_def)
  ultimately show "\<exists>faults control code w'.
           run_state (with_caps_in_userns control command json target) (process sample_host faults fs) = (code, w') \<and>
           fs' = w_fs w' \<and> (c_status r = None \<longleftrightarrow> code = 0)"
    by (intro exI conjI) auto
next
  fix json target and fs :: fsys and r fs'
  assume "sample_self [''destroy-volume'', json, target] fs = (r, fs')"
  then have r: "r = cmd_failed eof_line" "fs' = fs" by (simp_all add: sample_self_def)
  let ?w = "process sample_host (\<lambda>_. Some EIO) fs"
  obtain w' where "run_state (destroy_volume_command [json, target]) ?w = (1, w')" "w_fs w' = fs"
    using broken_destroy [where destroy = BtrfsDriver.DestroyVolume and w = ?w and target = target and j = json]
      broken_DestroyVolume [of ?w] by (auto simp: destroy_volume_command_def)
  with r show "\<exists>faults code w'. run_state (destroy_volume_command [json, target]) (process sample_host faults fs) = (code, w') \<and>
           fs' = w_fs w' \<and> (c_status r = None \<longleftrightarrow> code = 0)"
    by (intro exI [of _ "\<lambda>_. Some EIO"] exI conjI) auto
next
  fix json target and fs :: fsys and r fs'
  assume "sample_self [''destroy-image'', json, target] fs = (r, fs')"
  then have r: "r = cmd_failed eof_line" "fs' = fs" by (simp_all add: sample_self_def)
  let ?w = "process sample_host (\<lambda>_. Some EIO) fs"
  obtain w' where "run_state (destroy_image_command [json, target]) ?w = (1, w')" "w_fs w' = fs"
    using broken_destroy [where destroy = BtrfsDriver.DestroyImage and w = ?w and target = target and j = json]
      broken_DestroyImage [of ?w] by (auto simp: destroy_image_command_def)
  with r show "\<exists>faults code w'. run_state (destroy_image_command [json, target]) (process sample_host faults fs) = (code, w') \<and>
           fs' = w_fs w' \<and> (c_status r = None \<longleftrightarrow> code = 0)"
    by (intro exI [of _ "\<lambda>_. Some EIO"] exI conjI) auto
qed

lemma sample_idmap_tools: "idmap_tools sample_mapper sample_host"
  by (simp add: idmap_tools_def sample_mapper_def NewIDMapper_def sample_host_def sample_env_def self_exe_def)

lemma sample_userns_tools: "userns_tools sample_driver sample_mapper sample_host"
  by (simp add: userns_tools_def sample_host_tools sample_idmap_tools sample_caps_tool)

end
