(* ===== verification/Config.thy ===== *)
theory Config
  imports Groot_Types
begin

text \<open>
  \<open>commands/config/builder.go\<close>: the configuration of a run, from the configuration file and the
  command-line flags. The YAML decoder is a parameter. A builder is the configuration built so
  far: the methods of the code change it in place and return it.
\<close>

section \<open>The code\<close>

record CreateConfig =
  cc_ExcludeImageFromQuota :: bool
  cc_SkipLayerValidation :: bool
  cc_WithClean :: bool
  cc_WithoutMount :: bool
  cc_DiskLimitSizeBytes :: int
  cc_InsecureRegistries :: "string list"
  cc_RemoteLayerClientCertificatesPath :: string

record Config =
  cf_StorePath :: string
  cf_DraxBin :: string
  cf_BtrfsProgsPath :: string
  cf_NewuidmapBin :: string
  cf_NewgidmapBin :: string
  cf_MetronEndpoint :: string
  cf_LogLevel :: string
  cf_LogFile :: string
  cf_Create :: CreateConfig
  cf_ThresholdBytes :: int       \<comment> \<open>\<open>Clean.ThresholdBytes\<close>\<close>
  cf_StoreSizeBytes :: int       \<comment> \<open>\<open>Init.StoreSizeBytes\<close>\<close>

definition empty_CreateConfig :: CreateConfig where
  "empty_CreateConfig = \<lparr>cc_ExcludeImageFromQuota = False, cc_SkipLayerValidation = False, cc_WithClean = False,
     cc_WithoutMount = False, cc_DiskLimitSizeBytes = 0, cc_InsecureRegistries = [],
     cc_RemoteLayerClientCertificatesPath = []\<rparr>"

definition empty_Config :: Config where
  "empty_Config = \<lparr>cf_StorePath = [], cf_DraxBin = [], cf_BtrfsProgsPath = [], cf_NewuidmapBin = [],
     cf_NewgidmapBin = [], cf_MetronEndpoint = [], cf_LogLevel = [], cf_LogFile = [],
     cf_Create = empty_CreateConfig, cf_ThresholdBytes = 0, cf_StoreSizeBytes = 0\<rparr>"

definition load :: "(string \<Rightarrow> error + Config) \<Rightarrow> string \<Rightarrow> (error + Config) io" where
  "load unmarshal configPath =
     or_return (ioutil_ReadFile configPath) (Wrap ''invalid config path'') (\<lambda>configContent.
     or_return (State_Monad.return (unmarshal configContent)) (Wrap ''invalid config file'') (\<lambda>config.
     ok config))"

definition NewBuilder :: "(string \<Rightarrow> error + Config) \<Rightarrow> string \<Rightarrow> (error + Config) io" where
  "NewBuilder unmarshal pathToYaml =
     (if pathToYaml \<noteq> [] then load unmarshal pathToYaml else ok empty_Config)"

definition Build :: "Config \<Rightarrow> error + Config" where
  "Build b =
     (if cc_DiskLimitSizeBytes (cf_Create b) < 0 then Inl (Plain ''invalid argument: disk limit cannot be negative'')
      else if cf_ThresholdBytes b < 0 then Inl (Plain ''invalid argument: clean threshold cannot be negative'')
      else Inr b)"

definition on_create :: "(CreateConfig \<Rightarrow> CreateConfig) \<Rightarrow> Config \<Rightarrow> Config" where
  "on_create f b = b\<lparr>cf_Create := f (cf_Create b)\<rparr>"

definition WithInsecureRegistries :: "string list \<Rightarrow> Config \<Rightarrow> Config" where
  "WithInsecureRegistries insecureRegistries b =
     (if insecureRegistries = [] then b
      else on_create (cc_InsecureRegistries_update (\<lambda>_. insecureRegistries)) b)"

definition WithStorePath :: "string \<Rightarrow> bool \<Rightarrow> Config \<Rightarrow> Config" where
  "WithStorePath storePath isSet b = (if isSet \<or> cf_StorePath b = [] then b\<lparr>cf_StorePath := storePath\<rparr> else b)"

definition WithDraxBin :: "string \<Rightarrow> bool \<Rightarrow> Config \<Rightarrow> Config" where
  "WithDraxBin draxBin isSet b = (if isSet \<or> cf_DraxBin b = [] then b\<lparr>cf_DraxBin := draxBin\<rparr> else b)"

definition WithNewuidmapBin :: "string \<Rightarrow> bool \<Rightarrow> Config \<Rightarrow> Config" where
  "WithNewuidmapBin newuidmapBin isSet b =
     (if isSet \<or> cf_NewuidmapBin b = [] then b\<lparr>cf_NewuidmapBin := newuidmapBin\<rparr> else b)"

definition WithNewgidmapBin :: "string \<Rightarrow> bool \<Rightarrow> Config \<Rightarrow> Config" where
  "WithNewgidmapBin newgidmapBin isSet b =
     (if isSet \<or> cf_NewgidmapBin b = [] then b\<lparr>cf_NewgidmapBin := newgidmapBin\<rparr> else b)"

definition WithBtrfsProgsPath :: "string \<Rightarrow> bool \<Rightarrow> Config \<Rightarrow> Config" where
  "WithBtrfsProgsPath btrfsProgsPath isSet b =
     (if isSet \<or> cf_BtrfsProgsPath b = [] then b\<lparr>cf_BtrfsProgsPath := btrfsProgsPath\<rparr> else b)"

definition WithMetronEndpoint :: "string \<Rightarrow> Config \<Rightarrow> Config" where
  "WithMetronEndpoint metronEndpoint b = (if metronEndpoint = [] then b else b\<lparr>cf_MetronEndpoint := metronEndpoint\<rparr>)"

definition WithDiskLimitSizeBytes :: "int \<Rightarrow> bool \<Rightarrow> Config \<Rightarrow> Config" where
  "WithDiskLimitSizeBytes limit isSet b =
     (if isSet then on_create (cc_DiskLimitSizeBytes_update (\<lambda>_. limit)) b else b)"

definition WithExcludeImageFromQuota :: "bool \<Rightarrow> bool \<Rightarrow> Config \<Rightarrow> Config" where
  "WithExcludeImageFromQuota exclude isSet b =
     (if isSet then on_create (cc_ExcludeImageFromQuota_update (\<lambda>_. exclude)) b else b)"

definition WithSkipLayerValidation :: "bool \<Rightarrow> bool \<Rightarrow> Config \<Rightarrow> Config" where
  "WithSkipLayerValidation skip isSet b =
     (if isSet then on_create (cc_SkipLayerValidation_update (\<lambda>_. skip)) b else b)"

definition WithCleanThresholdBytes :: "int \<Rightarrow> bool \<Rightarrow> Config \<Rightarrow> Config" where
  "WithCleanThresholdBytes threshold isSet b = (if isSet then b\<lparr>cf_ThresholdBytes := threshold\<rparr> else b)"

definition WithLogLevel :: "string \<Rightarrow> bool \<Rightarrow> Config \<Rightarrow> Config" where
  "WithLogLevel level isSet b = (if isSet then b\<lparr>cf_LogLevel := level\<rparr> else b)"

definition WithLogFile :: "string \<Rightarrow> Config \<Rightarrow> Config" where
  "WithLogFile filepath b = (if filepath \<noteq> [] then b\<lparr>cf_LogFile := filepath\<rparr> else b)"

text \<open>The last of two statements wins: without both flags, nothing changes.\<close>

definition WithClean :: "bool \<Rightarrow> bool \<Rightarrow> Config \<Rightarrow> Config" where
  "WithClean clean noClean b =
     (let b1 = (if clean then on_create (cc_WithClean_update (\<lambda>_. True)) b else b)
      in if noClean then on_create (cc_WithClean_update (\<lambda>_. False)) b1 else b1)"

definition WithMount :: "bool \<Rightarrow> bool \<Rightarrow> Config \<Rightarrow> Config" where
  "WithMount mount noMount b =
     (let b1 = (if mount then on_create (cc_WithoutMount_update (\<lambda>_. False)) b else b)
      in if noMount then on_create (cc_WithoutMount_update (\<lambda>_. True)) b1 else b1)"

definition WithStoreSizeBytes :: "int \<Rightarrow> Config \<Rightarrow> Config" where
  "WithStoreSizeBytes sz b = b\<lparr>cf_StoreSizeBytes := sz\<rparr>"

section \<open>What they set\<close>

lemmas builder_defs = WithInsecureRegistries_def WithStorePath_def WithDraxBin_def WithNewuidmapBin_def
  WithNewgidmapBin_def WithBtrfsProgsPath_def WithMetronEndpoint_def WithDiskLimitSizeBytes_def
  WithExcludeImageFromQuota_def WithSkipLayerValidation_def WithCleanThresholdBytes_def WithLogLevel_def
  WithLogFile_def WithClean_def WithMount_def WithStoreSizeBytes_def on_create_def

lemma Build_Inr: "Build b = Inr cfg \<longleftrightarrow>
    cfg = b \<and> 0 \<le> cc_DiskLimitSizeBytes (cf_Create b) \<and> 0 \<le> cf_ThresholdBytes b"
  by (auto simp: Build_def)

lemma load_evolves [evolves_rules]:
  "evolves (within E X) (NewBuilder u p)" "evolves same_env (NewBuilder u p)" "evolves same_locks (NewBuilder u p)"
  unfolding NewBuilder_def load_def by (intro evolves_rules)+

end
