(* ===== verification/Pulling.thy ===== *)
theory Pulling
  imports SampleHost Config
begin

text \<open>
  The parts that \<open>commands/create.go\<close> builds the puller from: the driver of \<open>helpers.go\<close>, the
  fetcher for a local tar file or for a registry, the unpacker with or without a user namespace.
  They satisfy the contracts of theory \<open>PullerLaws\<close>, so that its theorems hold for the command:
  the properties of pulling are at the end.
\<close>

section \<open>The code\<close>

definition createFileSystemDriver :: "Config \<Rightarrow> Driver" where
  "createFileSystemDriver cfg =
     NewDriver (Join [cf_BtrfsProgsPath cfg, ''btrfs'']) (Join [cf_BtrfsProgsPath cfg, ''mkfs.btrfs''])
       (cf_DraxBin cfg) (cf_StorePath cfg)"

definition skipTLSValidation :: "URL \<Rightarrow> string list \<Rightarrow> bool" where
  "skipTLSValidation baseImageURL trustedRegistries =
     list_ex (\<lambda>trustedRegistry. url_Host baseImageURL = trustedRegistry) trustedRegistries"

text \<open>The fields of \<open>types.SystemContext\<close> that are set.\<close>

record SystemContext =
  sc_DockerInsecureSkipTLSVerify :: bool
  sc_DockerAuthConfig :: "(string \<times> string) option"
  sc_OCICertPath :: string

definition createSystemContext :: "URL \<Rightarrow> CreateConfig \<Rightarrow> string \<Rightarrow> string \<Rightarrow> SystemContext" where
  "createSystemContext baseImageURL createConfig username password =
     (if url_Scheme baseImageURL = ''docker'' then
        \<lparr>sc_DockerInsecureSkipTLSVerify = skipTLSValidation baseImageURL (cc_InsecureRegistries createConfig),
         sc_DockerAuthConfig = Some (username, password), sc_OCICertPath = []\<rparr>
      else if url_Scheme baseImageURL = ''oci'' then
        \<lparr>sc_DockerInsecureSkipTLSVerify = False, sc_DockerAuthConfig = None,
         sc_OCICertPath = cc_RemoteLayerClientCertificatesPath createConfig\<rparr>
      else \<lparr>sc_DockerInsecureSkipTLSVerify = False, sc_DockerAuthConfig = None, sc_OCICertPath = []\<rparr>)"

text \<open>The image library works under the system context; \<open>tempDir\<close> is the value of \<open>TMPDIR\<close>.\<close>

definition layer_source_for ::
  "(SystemContext \<Rightarrow> image_service) \<Rightarrow> string \<Rightarrow> URL \<Rightarrow> SystemContext \<Rightarrow> CreateConfig \<Rightarrow> LayerSource" where
  "layer_source_for service tempDir baseImageUrl systemContext createCfg =
     (let skipOCIChecksumValidation = (cc_SkipLayerValidation createCfg \<and> url_Scheme baseImageUrl = ''oci'')
      in NewLayerSource (service systemContext) skipOCIChecksumValidation tempDir)"

definition createFetcher ::
  "(SystemContext \<Rightarrow> image_service) \<Rightarrow> string \<Rightarrow> URL \<Rightarrow> SystemContext \<Rightarrow> CreateConfig \<Rightarrow> fetcher_ops" where
  "createFetcher service tempDir baseImageUrl systemContext createCfg =
     (if url_Scheme baseImageUrl = [] then tar_fetcher
      else layer_fetcher (layer_source_for service tempDir baseImageUrl systemContext createCfg))"

definition unpacker_strategy :: "string \<Rightarrow> UnpackStrategy" where
  "unpacker_strategy store = \<lparr>st_Name = ''btrfs'', st_WhiteoutDevicePath = Join [store, ''whiteout_dev'']\<rparr>"

definition createUnpacker :: "int \<Rightarrow> CommandIDMapper \<Rightarrow> UnpackStrategy \<Rightarrow> error + unpacker" where
  "createUnpacker uid idMapper unpackerStrategy =
     (if uid = 0 then
        (case NewTarUnpacker unpackerStrategy of Inl err \<Rightarrow> Inl err | Inr unpacker \<Rightarrow> Inr (tar_Unpack unpacker))
      else Inr (ns_Unpack (NewNSIdMapperUnpacker idMapper unpackerStrategy)))"

definition create_puller ::
  "fetcher_ops \<Rightarrow> unpacker \<Rightarrow> Driver \<Rightarrow> IDMappings \<Rightarrow> CommandIDMapper \<Rightarrow> BaseImagePuller" where
  "create_puller fetcher unpacker fsDriver idMappings idMapper =
     NewBaseImagePuller fetcher unpacker (commands_driver fsDriver idMappings idMapper)
       (file_locksmith (NewExclusiveFileSystem (storePath fsDriver)))"

section \<open>The contracts\<close>

definition chosen_unpacker :: "int \<Rightarrow> CommandIDMapper \<Rightarrow> string \<Rightarrow> unpacker" where
  "chosen_unpacker uid im store =
     (if uid = 0 then tar_Unpack \<lparr>tu_strategy = unpacker_strategy store\<rparr>
      else ns_Unpack (NewNSIdMapperUnpacker im (unpacker_strategy store)))"

lemma createUnpacker_chosen: "createUnpacker uid im (unpacker_strategy store) = Inr (chosen_unpacker uid im store)"
  by (simp add: createUnpacker_def chosen_unpacker_def NewTarUnpacker_def)

definition unpack_tools :: "CommandIDMapper \<Rightarrow> (string \<Rightarrow> tar_item list) \<Rightarrow> env \<Rightarrow> bool" where
  "unpack_tools im read_tar v \<longleftrightarrow> self_tool read_tar v \<and> idmap_tools im v"

definition layer_served ::
  "(SystemContext \<Rightarrow> image_service) \<Rightarrow> string \<Rightarrow> URL \<Rightarrow> SystemContext \<Rightarrow> CreateConfig \<Rightarrow> URL \<Rightarrow> LayerInfo \<Rightarrow> string \<Rightarrow> bool" where
  "layer_served service tempDir url ctxt cfg u li data \<longleftrightarrow>
     (url_Scheme url \<noteq> [] \<longrightarrow> blob_checked (layer_source_for service tempDir url ctxt cfg) u li data)"

interpretation chosen: layer_unpacker "chosen_unpacker uid im store" read_tar "unpack_tools im read_tar" for uid im store read_tar
proof (cases "uid = 0")
  case True
  have "unpack_tools im read_tar v \<Longrightarrow> self_tool read_tar v" for v by (simp add: unpack_tools_def)
  with True show "layer_unpacker (chosen_unpacker uid im store) read_tar (unpack_tools im read_tar)"
    unfolding chosen_unpacker_def
    by unfold_locales (auto intro: tar_unpacker.unpack_frame tar_unpacker.unpack_result tar_Unpack_same)
next
  case False
  have "unpack_tools im read_tar = ns_tools (NewNSIdMapperUnpacker im (unpacker_strategy store)) read_tar"
    by (simp add: fun_eq_iff unpack_tools_def ns_tools_def NewNSIdMapperUnpacker_def)
  with False show "layer_unpacker (chosen_unpacker uid im store) read_tar (unpack_tools im read_tar)"
    using ns_unpacker.layer_unpacker_axioms by (simp add: chosen_unpacker_def)
qed

lemma layer_source_temp: "temp_files (layer_source_for service tempDir url ctxt cfg) = below (resolve tempDir)"
  by (simp add: temp_files_def layer_source_for_def NewLayerSource_def Let_def)

interpretation chosen_source: layer_source "createFetcher service tempDir url ctxt cfg" "below (resolve tempDir)" plain_digest
    "layer_served service tempDir url ctxt cfg" for service tempDir url ctxt cfg
proof (cases "url_Scheme url = []")
  case True
  then show "layer_source (createFetcher service tempDir url ctxt cfg) (below (resolve tempDir)) plain_digest
      (layer_served service tempDir url ctxt cfg)"
    unfolding createFetcher_def layer_served_def
    by unfold_locales (auto simp: tar_fetcher_def tar_fetcher_evolves dest: tar_StreamBlob_temp)
next
  case False
  have "layer_served service tempDir url ctxt cfg = blob_checked (layer_source_for service tempDir url ctxt cfg)"
    using False by (simp add: fun_eq_iff layer_served_def)
  with False show "layer_source (createFetcher service tempDir url ctxt cfg) (below (resolve tempDir)) plain_digest
      (layer_served service tempDir url ctxt cfg)"
    using registry.layer_source_axioms [of "layer_source_for service tempDir url ctxt cfg"]
    by (simp add: createFetcher_def layer_source_temp)
qed

lemma create_puller_sel [simp]:
  "bp_fetcher (create_puller f u d ms im) = f" "bp_unpacker (create_puller f u d ms im) = u"
  "bp_volumeDriver (create_puller f u d ms im) = commands_driver d ms im"
  "lk_Lock (bp_locksmith (create_puller f u d ms im)) = Lock (NewExclusiveFileSystem (storePath d))"
  "lk_Unlock (bp_locksmith (create_puller f u d ms im)) = Unlock (NewExclusiveFileSystem (storePath d))"
  by (simp_all add: create_puller_def NewBaseImagePuller_def file_locksmith_def)

interpretation pulls: pulling "create_puller (createFetcher service tempDir url ctxt cfg) (chosen_unpacker uid im (storePath d)) d ms im"
    "storePath d" "userns_tools d im" read_tar "unpack_tools im read_tar" "below (resolve tempDir)" plain_digest
    "layer_served service tempDir url ctxt cfg" "lock_files (NewExclusiveFileSystem (storePath d))"
  for service tempDir url ctxt cfg uid im d ms read_tar
  unfolding pulling_def create_puller_sel
  by (intro conjI namespaced.layer_store_axioms chosen.layer_unpacker_axioms chosen_source.layer_source_axioms
      locksmith.lock_service_axioms)

section \<open>The setting\<close>

definition store_temp :: "string \<Rightarrow> string" where
  "store_temp store = Join [store, TempDirName]"

definition command_puller ::
  "(SystemContext \<Rightarrow> image_service) \<Rightarrow> int \<Rightarrow> Driver \<Rightarrow> IDMappings \<Rightarrow> CommandIDMapper \<Rightarrow> SystemContext \<Rightarrow> CreateConfig \<Rightarrow>
     URL \<Rightarrow> BaseImagePuller" where
  "command_puller service uid d ms im ctxt cfg url =
     create_puller (createFetcher service (store_temp (storePath d)) url ctxt cfg) (chosen_unpacker uid im (storePath d)) d ms im"

text \<open>
  The programs do what they are for; the store is where it should be, and the chain IDs and digests
  are names (they are, being digests). \<open>pullable\<close> is what the theorems ask of a pull.
\<close>

definition host_tools :: "Driver \<Rightarrow> CommandIDMapper \<Rightarrow> (string \<Rightarrow> tar_item list) \<Rightarrow> env \<Rightarrow> bool" where
  "host_tools d im read_tar v \<longleftrightarrow> userns_tools d im v \<and> self_tool read_tar v"

definition pullable ::
  "Driver \<Rightarrow> CommandIDMapper \<Rightarrow> (string \<Rightarrow> tar_item list) \<Rightarrow> BaseImageInfo \<Rightarrow> BaseImageSpec \<Rightarrow> world \<Rightarrow> bool" where
  "pullable d im read_tar info spec w \<longleftrightarrow>
     clean_abs (storePath d) \<and> \<not> contains (storePath d @ ''/volumes/'') ''-incomplete-'' \<and>
     host_tools d im read_tar (w_env w) \<and>
     chains_ok (bi_LayerInfos info) \<and> (\<forall>li\<in>set (bi_LayerInfos info). plain_digest li) \<and>
     (\<forall>m\<in>set (bs_UIDMappings spec @ bs_GIDMappings spec). mapping64 m) \<and>
     pull_ready (storePath d) (bi_LayerInfos info) (w_fs w)"

definition pull_places :: "string \<Rightarrow> path set" where
  "pull_places store = below (resolve store @ [LocksDirName]) \<union> below (resolve store @ [TempDirName])"

lemma temp_apart: "apart store (pull_places store)"
  by (auto simp: apart_def pull_places_def volumes_dir_def meta_dir_def prefix_def dir_names)

lemma Pull_command:
  assumes "pullable d im read_tar info spec w"
    and "run_state (Pull (command_puller service uid d ms im ctxt cfg url) info spec) w = (r, w')"
  shows "pulled (storePath d) read_tar (layer_served service (store_temp (storePath d)) url ctxt cfg (bs_BaseImageSrc spec))
    (pull_places (storePath d)) (bi_LayerInfos info) w r w'"
proof -
  have "apart (storePath d) (lock_files (NewExclusiveFileSystem (storePath d)) \<union> below (resolve (store_temp (storePath d))))"
    using temp_apart by (simp add: pull_places_def lock_area store_temp_def)
  from pulls.Pull_pulled [OF _ _ _ _ _ this assms(2) [unfolded command_puller_def], of read_tar] assms(1)
  show ?thesis
    by (simp add: pullable_def host_tools_def userns_tools_def unpack_tools_def pull_places_def lock_area store_temp_def)
qed

section \<open>Properties\<close>

text \<open>C7. A pull touches only the places of its own layers (their volumes, their temporary volumes, their
  metadata files), the locks and the temporary files, whatever archives it unpacks and whatever fails.\<close>

theorem Pull_frame:
  assumes "pullable d im read_tar info spec w"
    and "run_state (Pull (command_puller service uid d ms im ctxt cfg url) info spec) w = (r, w')"
    and "q \<notin> layers_area (storePath d) (bi_LayerInfos info)" and "q \<notin> pull_places (storePath d)"
  shows "fs_get (w_fs w') q = fs_get (w_fs w) q"
  using frame_get [OF pulledD(1) [OF Pull_command [OF assms(1,2)]]] assms(3,4) by simp


text \<open>A pull that succeeds has provided the volume of the topmost layer, which images are made from.\<close>

lemma Pull_provides:
  assumes "pullable d im read_tar info spec w"
    and "run_state (Pull (command_puller service uid d ms im ctxt cfg url) info spec) w = (Inr (), w')"
    and "honest (w_env w)" and "bi_LayerInfos info \<noteq> []"
  shows "fs_get (w_fs w') (volume_entry (storePath d) (li_ChainID (last (bi_LayerInfos info)))) \<noteq> None"
  using Pull_command [OF assms(1,2)] assms(3,4) unfolding pulled_def by blast

text \<open>C30. Every lock that a pull takes for a layer is given back, on every path and under any faults.\<close>

theorem Pull_balances_locks:
  assumes "fresh_handles w"
  shows "w_locks (snd (run_state (Pull (command_puller service uid d ms im ctxt cfg url) info spec) w)) = w_locks w"
  using evolvesD [OF pulls.Pull_balanced, of service _ url ctxt cfg uid im d ms info spec w] assms
  unfolding command_puller_def by (metis balanced_def prod.collapse)


lemma layersSize_sum: "layersSize ls = wrap64 (sum_list (map li_Size ls))"
proof -
  have "fold (\<lambda>layerInfo totalSize. wrap64 (totalSize + li_Size layerInfo)) ls (wrap64 t) = wrap64 (t + sum_list (map li_Size ls))" for t
    by (induction ls arbitrary: t) (simp_all add: wrap64_add add.assoc)
  from this [of 0] show ?thesis by (simp add: layersSize_def wrap64_def)
qed

text \<open>C32. The quota is checked against the sum of the sizes in 64 bits: it is exact as long as the sum fits,
  and a sum that wraps around passes whatever the limit is.\<close>

theorem quotaExceeded_exact:
  "quotaExceeded ls spec = Inr () \<longleftrightarrow>
     bs_ExcludeBaseImageFromQuota spec \<or> bs_DiskLimit spec = 0 \<or> wrap64 (sum_list (map li_Size ls)) \<le> bs_DiskLimit spec"
  by (auto simp: quotaExceeded_def Let_def layersSize_sum)

section \<open>Examples\<close>

text \<open>The sample store on the sample host, with an archive beside it, and a pull of that archive.\<close>

definition pull_world :: world where
  "pull_world = sample_world\<lparr>w_env := sample_host, w_fs := ([''t''], file_node ''xyz'') # sample_fs\<rparr>"

definition tar_url :: URL where
  "tar_url = \<lparr>url_Scheme = [], url_Host = [], url_Path = ''/t'', url_String = ''/t''\<rparr>"

definition tar_spec :: BaseImageSpec where
  "tar_spec = \<lparr>bs_DiskLimit = 0, bs_ExcludeBaseImageFromQuota = False, bs_BaseImageSrc = tar_url,
     bs_UIDMappings = [], bs_GIDMappings = [], bs_OwnerUID = 0, bs_OwnerGID = 0\<rparr>"

definition tar_info :: BaseImageInfo where
  "tar_info = \<lparr>bi_LayerInfos = [empty_LayerInfo\<lparr>li_BlobID := ''t'', li_ChainID := ''c''\<rparr>], bi_Config = empty_Image\<rparr>"

definition no_registry :: "SystemContext \<Rightarrow> image_service" where
  "no_registry = (\<lambda>_. \<lparr>sv_ParseReference = (\<lambda>_. None), sv_NewImage = (\<lambda>_ _. Inl no_error),
     sv_NewImageSource = (\<lambda>_ _. Inl no_error), sv_ConfigBlob = (\<lambda>_ _. Inl no_error), sv_GetBlob = (\<lambda>_ _ _. Inl no_error),
     sv_UpdatedImage = (\<lambda>_ _ _. Inl no_error), sv_gzip_header = (\<lambda>_. None), sv_gunzip = (\<lambda>_. Inl no_error)\<rparr>)"

definition tar_puller :: BaseImagePuller where
  "tar_puller = command_puller no_registry 0 sample_driver \<lparr>im_UIDMappings = [], im_GIDMappings = []\<rparr> sample_mapper
     (createSystemContext tar_url empty_CreateConfig [] []) empty_CreateConfig tar_url"

definition tar_pull :: "(error + unit) \<times> world" where
  "tar_pull = run_state (Pull tar_puller tar_info tar_spec) pull_world"

lemma tar_pull_result:
  "fst tar_pull = Inr () \<and> fs_get (w_fs (snd tar_pull)) [''s'', ''volumes'', ''c''] \<noteq> None"
  by code_simp

lemma tar_pull_run: "run_state (Pull tar_puller tar_info tar_spec) pull_world = (Inr (), snd tar_pull)"
  using tar_pull_result by (simp add: tar_pull_def prod_eq_iff)

lemma pull_world_sel [simp]: "w_env pull_world = sample_host" "w_fs pull_world = ([''t''], file_node ''xyz'') # sample_fs"
    "w_locks pull_world = []"
  by (simp_all add: pull_world_def)

lemma tar_layers [simp]: "bi_LayerInfos tar_info = [empty_LayerInfo\<lparr>li_BlobID := ''t'', li_ChainID := ''c''\<rparr>]"
  by (simp add: tar_info_def)

lemma store_s_dirs: "store_dirs ''/s'' (([''t''], file_node ''xyz'') # sample_fs)"
  unfolding store_dirs_def
proof (intro allI impI)
  fix q assume "prefix q (volumes_dir ''/s'')"
  then have "q = [] \<or> q = [''s''] \<or> q = [''s'', ''volumes'']"
    by (simp add: volumes_dir_def VolumesDirName_def prefix_Cons) (auto simp: prefix_Cons)
  then show "q = [] \<or> dir_at (([''t''], file_node ''xyz'') # sample_fs) q"
    by (auto simp: dir_at_def fs_get_def sample_fs_def dir_node_def is_dir_def)
qed

lemma tar_pullable: "pullable sample_driver sample_mapper sample_tar tar_info tar_spec pull_world"
proof -
  have "temps_ok ''/s'' ''c'' (([''t''], file_node ''xyz'') # sample_fs)"
    by (auto simp: temps_ok_def incomplete_entry_def incomplete_name_def volume_entry_def volumes_dir_def
        VolumesDirName_def fs_get_def sample_fs_def)
  moreover have "host_tools sample_driver sample_mapper sample_tar sample_host"
    by (simp add: host_tools_def sample_userns_tools sample_self_tool)
  moreover have "\<not> contains ''/s/volumes/'' ''-incomplete-''" by code_simp
  moreover have "chain_ok ''c''" by code_simp
  ultimately show ?thesis
    by (simp add: pullable_def chains_ok_def plain_digest_def tar_spec_def pull_ready_def store_s_dirs empty_LayerInfo_def)
qed

theorem Pull_frame_witness:
  "fs_get (w_fs (snd tar_pull)) [''s'', ''volumes'', ''v1'', ''a''] = Some (file_node ''x'')"
proof -
  have "[''s'', ''volumes'', ''v1'', ''a''] \<notin> layers_area ''/s'' (bi_LayerInfos tar_info)"
    by (auto simp: layers_area_def layer_area_def volume_entry_def volumes_dir_def meta_dir_def incomplete_entry_def
        incomplete_name_def dir_names)
  moreover have "[''s'', ''volumes'', ''v1'', ''a''] \<notin> pull_places ''/s''"
    by (simp add: pull_places_def dir_names)
  ultimately show ?thesis
    using Pull_frame [OF tar_pullable tar_pull_run [unfolded tar_puller_def]]
    by (simp add: fs_get_def sample_fs_def)
qed


lemma Pull_provides_witness: "fs_get (w_fs (snd tar_pull)) (volume_entry ''/s'' ''c'') \<noteq> None"
proof -
  have "honest sample_host" by (simp add: honest_def sample_host_def sample_env_def)
  then show ?thesis
    using Pull_provides [OF tar_pullable tar_pull_run [unfolded tar_puller_def]] by (simp add: empty_LayerInfo_def)
qed

theorem Pull_balances_locks_witness: "w_locks (snd tar_pull) = []"
  using Pull_balances_locks [of pull_world] unfolding tar_pull_def tar_puller_def by (simp add: fresh_handles_def)


end
