(* ===== verification/Creation.thy ===== *)
theory Creation
  imports Pulling
begin

text \<open>
  \<open>groot/creator.go\<close>, \<open>groot/deleter.go\<close>, \<open>groot/lister.go\<close> and \<open>groot/statser.go\<close>: the
  operations on images behind the commands, over the components they are built from.
\<close>

section \<open>creator.go\<close>

definition MetricImageCreationTime :: string where "MetricImageCreationTime = ''ImageCreationTime''"
definition MetricImageDeletionTime :: string where "MetricImageDeletionTime = ''ImageDeletionTime''"
definition MetricImageStatsTime :: string where "MetricImageStatsTime = ''ImageStatsTime''"

record CreateSpec =
  cs_ID :: string
  cs_BaseImageURL :: URL
  cs_DiskLimit :: int
  cs_Mount :: bool
  cs_ExcludeBaseImageFromQuota :: bool
  cs_CleanOnCreate :: bool
  cs_CleanOnCreateThresholdBytes :: int
  cs_UIDMappings :: "IDMappingSpec list"
  cs_GIDMappings :: "IDMappingSpec list"

record Creator =
  cr_cleaner :: Cleaner
  cr_imageCloner :: ImageCloner
  cr_baseImagePuller :: BaseImagePuller
  cr_locksmith :: locksmith_ops
  cr_dependencyManager :: DependencyManager

definition IamCreator ::
  "ImageCloner \<Rightarrow> BaseImagePuller \<Rightarrow> locksmith_ops \<Rightarrow> DependencyManager \<Rightarrow> Cleaner \<Rightarrow> Creator" where
  "IamCreator imageCloner baseImagePuller locksmith dependencyManager cleaner =
     \<lparr>cr_cleaner = cleaner, cr_imageCloner = imageCloner, cr_baseImagePuller = baseImagePuller,
      cr_locksmith = locksmith, cr_dependencyManager = dependencyManager\<rparr>"

definition chainIDs :: "LayerInfo list \<Rightarrow> string list" where
  "chainIDs layerInfos = map li_ChainID layerInfos"

text \<open>The first mapping of the one ID 0, or the caller's.\<close>

fun root_host_id :: "int \<Rightarrow> IDMappingSpec list \<Rightarrow> int" where
  "root_host_id i [] = i"
| "root_host_id i (mapping # rest) =
     (if Size mapping = 1 \<and> NamespaceID mapping = 0 then HostID mapping else root_host_id i rest)"

definition parseOwner :: "IDMappingSpec list \<Rightarrow> IDMappingSpec list \<Rightarrow> (int \<times> int) io" where
  "parseOwner uidMappings gidMappings = do {
     uid \<leftarrow> os_Getuid;
     gid \<leftarrow> os_Getgid;
     State_Monad.return (root_host_id uid uidMappings, root_host_id gid gidMappings)
   }"

text \<open>The part of \<open>Create\<close> that runs under the global lock.\<close>

definition create_locked ::
  "Creator \<Rightarrow> CreateSpec \<Rightarrow> BaseImageSpec \<Rightarrow> BaseImageInfo \<Rightarrow> (error + ImageInfo) io" where
  "create_locked c spec baseImageSpec baseImageInfo =
     or_return (Pull (cr_baseImagePuller c) baseImageInfo baseImageSpec) (Wrap ''pulling the image'') (\<lambda>_.
     let imageSpec = \<lparr>is_ID = cs_ID spec, is_Mount = cs_Mount spec, is_DiskLimit = cs_DiskLimit spec,
           is_ExcludeBaseImageFromQuota = cs_ExcludeBaseImageFromQuota spec,
           is_BaseVolumeIDs = chainIDs (bi_LayerInfos baseImageInfo), is_BaseImage = bi_Config baseImageInfo,
           is_OwnerUID = bs_OwnerUID baseImageSpec, is_OwnerGID = bs_OwnerGID baseImageSpec\<rparr> in
     or_return (ImageCloner.Create (cr_imageCloner c) imageSpec) (Wrap ''making image'') (\<lambda>image. do {
       r \<leftarrow> Register (cr_dependencyManager c) (image_ref (cs_ID spec)) (chainIDs (bi_LayerInfos baseImageInfo));
       (case r of
          Inl err \<Rightarrow> do { _ \<leftarrow> ImageCloner.Destroy (cr_imageCloner c) (cs_ID spec); fail err }
        | Inr _ \<Rightarrow> ok image)
     }))"

definition clean_on_create :: "Creator \<Rightarrow> CreateSpec \<Rightarrow> string list \<Rightarrow> (error + unit) io" where
  "clean_on_create c spec baseImageChainIDs =
     (if cs_CleanOnCreate spec then do {
        (_, err) \<leftarrow> Cleaner.Clean (cr_cleaner c) (cs_CleanOnCreateThresholdBytes spec) baseImageChainIDs;
        (case err of Some err \<Rightarrow> fail (Wrap ''failed-to-cleanup-store'' err) | None \<Rightarrow> ok ())
      }
      else ok ())"

definition create_image :: "Creator \<Rightarrow> CreateSpec \<Rightarrow> BaseImageSpec \<Rightarrow> BaseImageInfo \<Rightarrow> (error + ImageInfo) io" where
  "create_image c spec baseImageSpec baseImageInfo =
     or_return (clean_on_create c spec (chainIDs (bi_LayerInfos baseImageInfo))) id (\<lambda>_.
     or_return (lk_Lock (cr_locksmith c) GlobalLockKey) id (\<lambda>lockFile. do {
       r \<leftarrow> create_locked c spec baseImageSpec baseImageInfo;
       _ \<leftarrow> lk_Unlock (cr_locksmith c) lockFile;
       State_Monad.return r
     }))"

definition Create :: "Creator \<Rightarrow> CreateSpec \<Rightarrow> (error + ImageInfo) io" where
  "Create c spec = timed MetricImageCreationTime (
     if CHR ''/'' \<in> set (cs_ID spec)
     then fail (Plain (''id `'' @ cs_ID spec @ ''` contains invalid characters: `/`''))
     else
       or_return (Exists (cr_imageCloner c) (cs_ID spec)) (Wrap ''checking id exists'') (\<lambda>found.
       if found then fail (Plain (''image for id `'' @ cs_ID spec @ ''` already exists''))
       else do {
         (ownerUid, ownerGid) \<leftarrow> parseOwner (cs_UIDMappings spec) (cs_GIDMappings spec);
         let baseImageSpec = \<lparr>bs_DiskLimit = cs_DiskLimit spec,
               bs_ExcludeBaseImageFromQuota = cs_ExcludeBaseImageFromQuota spec,
               bs_BaseImageSrc = cs_BaseImageURL spec, bs_UIDMappings = cs_UIDMappings spec,
               bs_GIDMappings = cs_GIDMappings spec, bs_OwnerUID = ownerUid, bs_OwnerGID = ownerGid\<rparr>;
         or_return (FetchBaseImageInfo (cr_baseImagePuller c) baseImageSpec) id (\<lambda>baseImageInfo.
         create_image c spec baseImageSpec baseImageInfo)
       }))"

section \<open>deleter.go\<close>

record Deleter =
  de_imageCloner :: ImageCloner
  de_dependencyManager :: DependencyManager

definition IamDeleter :: "ImageCloner \<Rightarrow> DependencyManager \<Rightarrow> Deleter" where
  "IamDeleter imageCloner dependencyManager =
     \<lparr>de_imageCloner = imageCloner, de_dependencyManager = dependencyManager\<rparr>"

definition Delete :: "Deleter \<Rightarrow> string \<Rightarrow> (error + unit) io" where
  "Delete d i = timed MetricImageDeletionTime (
     or_return (ImageCloner.Destroy (de_imageCloner d) i) id (\<lambda>_. do {
       r \<leftarrow> Deregister (de_dependencyManager d) (image_ref i);
       (case r of
          Inl err \<Rightarrow> if \<not> IsNotExist (Cause err) then fail err else ok ()
        | Inr _ \<Rightarrow> ok ())
     }))"

section \<open>lister.go\<close>

definition listDirs :: "string \<Rightarrow> (error + string list) io" where
  "listDirs path =
     or_return (os_Open path) id (\<lambda>_.
     or_return (file_Readdir path) id (\<lambda>files.
     ok (map (\<lambda>fileInfo. Join [path, fileInfo]) files)))"

definition Lister_List :: "string \<Rightarrow> (error + string list) io" where
  "Lister_List store_path =
     or_return (listDirs (Join [store_path, ImageDirName])) (Wrap ''failed to list store path'') (\<lambda>imagePaths.
     ok imagePaths)"

section \<open>statser.go\<close>

definition Statser_Stats :: "ImageCloner \<Rightarrow> string \<Rightarrow> (error + VolumeStats) io" where
  "Statser_Stats imageCloner i = timed MetricImageStatsTime (
     or_return (ImageCloner.Stats imageCloner i) id (\<lambda>stats. ok stats))"

end
