(* ===== verification/ImageLaws.thy ===== *)
theory ImageLaws
  imports Creation
begin

text \<open>
  What making images guarantees. The contract of an image driver, the locale \<open>image_driver\<close>, says
  where it works and that the root file system it makes is a copy of the topmost layer; the btrfs driver
  satisfies it. From it, from the contracts of the cleaner and of the puller and from the store's
  registry of dependencies follow the properties of \<open>Create\<close>: an image that was created is listed
  and its layers are registered, so that no clean-up takes them away.
\<close>

section \<open>The contract of an image driver\<close>

definition root_name :: "bool \<Rightarrow> string" where
  "root_name mount = (if mount then ''rootfs'' else ''snapshot'')"

lemma plain_root_name [simp]: "plain_name (root_name m)"
  by (simp add: root_name_def)

definition image_area :: "path \<Rightarrow> path set" where
  "image_area p = below (p @ [''rootfs'']) \<union> below (p @ [''snapshot''])"

locale image_driver =
  fixes ops :: driver_ops and store :: string and E :: "env \<Rightarrow> bool"
  assumes CreateImage_frame: "\<And>X spec. is_int64 (ds_DiskLimit spec) \<Longrightarrow> image_area (resolve (ds_ImagePath spec)) \<subseteq> X \<Longrightarrow>
        evolves (within E X) (dr_CreateImage ops spec)"
    and CreateImage_copies: "\<And>spec w mi w' x. run_state (dr_CreateImage ops spec) w = (Inr mi, w') \<Longrightarrow> E (w_env w) \<Longrightarrow>
        is_int64 (ds_DiskLimit spec) \<Longrightarrow> plain_name (last (ds_BaseVolumeIDs spec)) \<Longrightarrow>
        no_nested_subvolume (volume_entry store (last (ds_BaseVolumeIDs spec))) (w_fs w) \<Longrightarrow>
        fs_get (w_fs w) (resolve (ds_ImagePath spec) @ [root_name (ds_Mount spec)]) = None \<Longrightarrow>
        \<not> prefix (resolve (ds_ImagePath spec)) (volume_entry store (last (ds_BaseVolumeIDs spec))) \<Longrightarrow>
        \<not> prefix (volume_entry store (last (ds_BaseVolumeIDs spec))) (resolve (ds_ImagePath spec)) \<Longrightarrow> x \<noteq> [] \<Longrightarrow>
        fs_get (w_fs w') (resolve (ds_ImagePath spec) @ root_name (ds_Mount spec) # x) =
          fs_get (w_fs w) (volume_entry store (last (ds_BaseVolumeIDs spec)) @ x)"
    and CreateImage_mounts: "\<And>spec w mi w'. run_state (dr_CreateImage ops spec) w = (Inr mi, w') \<Longrightarrow> mi_Type mi \<noteq> ''bind''"
    and image_env: "\<And>spec. evolves same_env (dr_CreateImage ops spec)" "\<And>p. evolves same_env (dr_DestroyImage ops p)"
    and image_locks: "\<And>spec. evolves same_locks (dr_CreateImage ops spec)" "\<And>p. evolves same_locks (dr_DestroyImage ops p)"

section \<open>The btrfs driver\<close>

lemma applyDiskLimit_within [evolves_rules]:
  "is_int64 (ds_DiskLimit spec) \<Longrightarrow> evolves (within (tools d) X) (applyDiskLimit d spec)"
  unfolding applyDiskLimit_def Let_def by (intro evolves_rules runDrax_within drax_limit_within)

lemma snapshot_rootfs_within [evolves_rules]:
  "is_int64 (ds_DiskLimit spec) \<Longrightarrow> below (resolve p) \<subseteq> X \<Longrightarrow> evolves (within (tools d) X) (snapshot_rootfs d spec base p mi)"
  unfolding snapshot_rootfs_def by (intro evolves_rules) auto

lemma CreateImage_within:
  assumes "is_int64 (ds_DiskLimit spec)" and "image_area (resolve (ds_ImagePath spec)) \<subseteq> X"
  shows "evolves (within (tools d) X) (CreateImage d spec)"
  using assms unfolding CreateImage_def Let_def image_area_def by (intro evolves_rules) auto

lemma image_ops_same:
  "evolves same_env (CreateImage d spec)" "evolves same_locks (CreateImage d spec)"
  "evolves same_env (DestroyImage d p)" "evolves same_locks (DestroyImage d p)"
proof -
  have all: "evolves same_env (destroy_all d xs)" "evolves same_locks (destroy_all d xs)" for xs
    by (induction xs) (auto intro!: evolves_rules)
  show "evolves same_env (DestroyImage d p)" "evolves same_locks (DestroyImage d p)"
    unfolding DestroyImage_def destroy_snapshot_def remove_image_path_def listSubvolumes_def Let_def
    by (intro evolves_rules all)+
  show "evolves same_env (CreateImage d spec)" "evolves same_locks (CreateImage d spec)"
    unfolding CreateImage_def snapshot_rootfs_def applyDiskLimit_def Let_def by (intro evolves_rules)+
qed

lemma CreateImage_mount_type: "run_state (CreateImage d spec) w = (Inr mi, w') \<Longrightarrow> mi_Type mi \<noteq> ''bind''"
  by (auto simp: CreateImage_def snapshot_rootfs_def Let_def empty_MountInfo_def
      split: if_splits prod.splits sum.splits option.splits)

lemma snapshot_rootfs_copies:
  assumes run: "run_state (snapshot_rootfs d spec base p mi) w = (Inr mi', w')" and t: "tools d (w_env w)"
    and limit: "is_int64 (ds_DiskLimit spec)" and new: "fs_get (w_fs w) (resolve p) = None"
    and nested: "no_nested_subvolume (resolve base) (w_fs w)" and x: "x \<noteq> []"
    and apart: "\<not> prefix (resolve base) (resolve p)"
  shows "fs_get (w_fs w') (resolve p @ x) = fs_get (w_fs w) (resolve base @ x)"
proof -
  obtain cr w1 where cr: "run_state (run_cmd (btrfsBinPath d) [''subvolume'', ''snapshot'', base, p]) w = (cr, w1)" by fastforce
  have ok: "c_status cr = None" using run cr by (auto simp: snapshot_rootfs_def split: option.splits)
  then have "e_progs (w_env w) (btrfsBinPath d) [''subvolume'', ''snapshot'', base, p] (w_fs w) = (cr, w_fs w1)"
    using cr by (auto simp: run_cmd_def split: option.splits prod.splits)
  with t have e: "snapshot_effect (resolve base) (resolve p) cr (w_fs w) (w_fs w1)" by (simp add: tools_def btrfs_tool_def)
  have "snapshot_target (resolve base) (resolve p) (w_fs w) = resolve p" using new by (simp add: snapshot_target_def)
  with e ok nested have "fs_get (w_fs w1) = fs_get (fs_copy (resolve base) (resolve p) (w_fs w))" by (simp add: snapshot_effect_def)
  then have copy: "fs_get (w_fs w1) (resolve p @ x) = fs_get (w_fs w) (resolve base @ x)" by (simp add: fs_simps)
  have env: "w_env w1 = w_env w" using evolvesD [OF run_cmd_same_env cr] by (simp add: same_env_def)
  have rest: "run_state (or_return (os_Chmod p 0x1ED) (Wrap ''chmoding snapshot'') (\<lambda>_.
      or_return (applyDiskLimit d spec) id (\<lambda>_. ok mi))) w1 = (Inr mi', w')"
    using run cr ok by (simp add: snapshot_rootfs_def)
  have "evolves (within (tools d) {resolve p}) (or_return (os_Chmod p 0x1ED) (Wrap ''chmoding snapshot'') (\<lambda>_.
      or_return (applyDiskLimit d spec) id (\<lambda>_. ok mi)))"
    by (intro evolves_rules limit) simp
  from withinD [OF evolvesD [OF this rest]] t env x have "fs_get (w_fs w') (resolve p @ x) = fs_get (w_fs w1) (resolve p @ x)" by simp
  with copy show ?thesis by simp
qed

lemma CreateImage_copy:
  assumes run: "run_state (CreateImage d spec) w = (Inr mi, w')" and t: "tools d (w_env w)"
    and limit: "is_int64 (ds_DiskLimit spec)" and v: "plain_name (last (ds_BaseVolumeIDs spec))"
    and nested: "no_nested_subvolume (volume_entry (storePath d) (last (ds_BaseVolumeIDs spec))) (w_fs w)"
    and new: "fs_get (w_fs w) (resolve (ds_ImagePath spec) @ [root_name (ds_Mount spec)]) = None"
    and apart: "\<not> prefix (resolve (ds_ImagePath spec)) (volume_entry (storePath d) (last (ds_BaseVolumeIDs spec)))"
      "\<not> prefix (volume_entry (storePath d) (last (ds_BaseVolumeIDs spec))) (resolve (ds_ImagePath spec))" and x: "x \<noteq> []"
  shows "fs_get (w_fs w') (resolve (ds_ImagePath spec) @ root_name (ds_Mount spec) # x) =
    fs_get (w_fs w) (volume_entry (storePath d) (last (ds_BaseVolumeIDs spec)) @ x)"
proof -
  let ?i = "ds_ImagePath spec" and ?b = "last (ds_BaseVolumeIDs spec)"
  let ?p = "Join [?i, root_name (ds_Mount spec)]" and ?base = "Join [storePath d, VolumesDirName, ?b]"
  have base: "resolve ?base = volume_entry (storePath d) ?b" using v by (simp add: volume_entry_def volumes_dir_def)
  have copies: "fs_get (w_fs w') (resolve ?p @ x) = fs_get (w_fs w1) (resolve ?base @ x)"
    if "run_state (snapshot_rootfs d spec ?base ?p m) w1 = (Inr mi, w')" "w_env w1 = w_env w"
      "\<And>q. q \<noteq> resolve ?i @ [''rootfs''] \<Longrightarrow> fs_get (w_fs w1) q = fs_get (w_fs w) q"
      "fs_get (w_fs w1) (resolve ?p) = None" for m w1
  proof (rule snapshot_rootfs_copies [OF that(1) _ limit that(4) _ x])
    show "no_nested_subvolume (resolve ?base) (w_fs w1)"
      unfolding base no_nested_subvolume_def
    proof (intro allI impI)
      fix q n assume q: "strict_prefix (volume_entry (storePath d) ?b) q" "fs_get (w_fs w1) q = Some n"
      have "q \<noteq> resolve ?i @ [''rootfs'']" using q(1) apart(2) by (auto simp: strict_prefix_def)
      with q that(3) nested show "nd_kind n \<noteq> Subvolume" unfolding no_nested_subvolume_def by metis
    qed
    show "\<not> prefix (resolve ?base) (resolve ?p)" unfolding base using apart by auto
  qed (simp add: that(2) t)
  show ?thesis
  proof (cases "ds_Mount spec")
    case True
    with run new copies [of empty_MountInfo w] show ?thesis
      by (auto simp: CreateImage_def root_name_def base Let_def split: if_splits)
  next
    case False
    let ?f = "Join [?i, ''rootfs'']"
    obtain w2 m where snap: "run_state (snapshot_rootfs d spec ?base ?p m) w2 = (Inr mi, w')"
      and w2: "run_state (or_return (os_Mkdir ?f 0x1ED) (Wrap ''creating rootfs folder'') (\<lambda>_.
           os_Chmod ?f 0x1ED)) w = (Inr (), w2)"
      using run False by (auto simp: CreateImage_def root_name_def Let_def split: if_splits prod.splits sum.splits)
    have "evolves (within (\<lambda>_. True) {resolve ?f}) (or_return (os_Mkdir ?f 0x1ED) (Wrap ''creating rootfs folder'') (\<lambda>_. os_Chmod ?f 0x1ED))"
      by (intro evolves_rules) simp_all
    note f = evolvesD [OF this w2]
    have "volume_entry (storePath d) ?b @ x \<noteq> resolve ?i @ [''rootfs'']"
    proof
      assume "volume_entry (storePath d) ?b @ x = resolve ?i @ [''rootfs'']"
      then have "resolve ?i = volume_entry (storePath d) ?b @ butlast x" using x by (metis butlast_append butlast_snoc)
      with apart(2) show False by simp
    qed
    then show ?thesis using copies [OF snap within_envD [OF f TrueI] withinD [OF f TrueI]] withinD [OF f TrueI] new False
      by (simp add: root_name_def base)
  qed
qed

interpretation btrfs_images: image_driver "btrfs_ops d" "storePath d" "tools d" for d
  by unfold_locales
    (simp_all add: btrfs_ops_def CreateImage_within CreateImage_copy CreateImage_mount_type image_ops_same)

section \<open>Operations that only add\<close>

definition grows :: "world \<Rightarrow> world \<Rightarrow> bool" where
  "grows w w' \<longleftrightarrow> (\<forall>p. fs_get (w_fs w) p \<noteq> None \<longrightarrow> fs_get (w_fs w') p \<noteq> None)"

lemma preorder_grows [simp, evolves_rules]: "preorder_on_state grows"
  by (simp add: preorder_on_state_def grows_def)

lemma within_grows: "evolves (within (\<lambda>_. True) {}) m \<Longrightarrow> evolves grows m"
  by (erule evolves_mono) (simp add: within_def grows_def)

lemma update_grows [evolves_rules]:
  "evolves grows (os_Mkdir p m)" "evolves grows (os_Chmod p m)" "evolves grows (os_Chown p u g)"
  unfolding os_Mkdir_def os_Chmod_def os_Chown_def
  by (rule evolves_syscall; auto simp: grows_def kernel_defs fs_simps split: sum.splits option.splits if_splits)+

lemma WriteFile_grows [evolves_rules]: "evolves grows (ioutil_WriteFile p s m)"
proof -
  have "evolves grows (syscall mk (k_open_create t q m))" for mk t q
    by (rule evolves_syscall)
      (auto simp: grows_def k_open_create_def fs_simps split: sum.splits option.splits if_splits kind.splits)
  moreover have "evolves grows (file_Write p s)"
    unfolding file_Write_def
    by (rule evolves_syscall) (auto simp: grows_def k_write_def fs_simps split: sum.splits option.splits if_splits kind.splits)
  ultimately show ?thesis unfolding ioutil_WriteFile_def by (intro evolves_rules)
qed

lemma cloner_loops_grow [evolves_rules]:
  "evolves grows (createVolumesSources ms u g)" "evolves grows (chown_paths u g ps)"
proof -
  show "evolves grows (createVolumesSources ms u g)" by (induction ms) (auto intro!: evolves_rules)
  show "evolves grows (chown_paths u g ps)" by (induction ps) (auto intro!: evolves_rules)
qed

section \<open>Image cloner\<close>

lemma image_area_resolve: "image_area p \<subseteq> below p"
  by (auto simp: image_area_def prefix_def)

lemma createVolumesSources_within:
  assumes "\<And>m. m \<in> set ms \<Longrightarrow> mi_Type m = ''bind'' \<Longrightarrow> resolve (mi_Source m) \<in> X"
  shows "evolves (within E X) (createVolumesSources ms u g)"
  using assms by (induction ms) (auto intro!: evolves_rules)

lemma chown_paths_within: "\<forall>p\<in>set ps. resolve p \<in> X \<Longrightarrow> evolves (within E X) (chown_paths u g ps)"
  by (induction ps) (auto intro!: evolves_rules)

lemma cloner_loops_same [evolves_rules]:
  "evolves same_env (createVolumesSources ms u g)" "evolves same_locks (createVolumesSources ms u g)"
  "evolves same_env (chown_paths u g ps)" "evolves same_locks (chown_paths u g ps)"
proof -
  show "evolves same_env (createVolumesSources ms u g)" "evolves same_locks (createVolumesSources ms u g)"
    by (induction ms) (auto intro!: evolves_rules)
  show "evolves same_env (chown_paths u g ps)" "evolves same_locks (chown_paths u g ps)"
    by (induction ps) (auto intro!: evolves_rules)
qed

lemma evolves_case_bool [evolves_rules]:
  "evolves R m \<Longrightarrow> evolves R n \<Longrightarrow> evolves R (case b of True \<Rightarrow> m | False \<Rightarrow> n)"
  by (simp split: bool.split)

context image_driver
begin

lemma Create_same: "evolves same_env (ImageCloner.Create (NewImageCloner ops store) spec)"
    "evolves same_locks (ImageCloner.Create (NewImageCloner ops store) spec)"
  unfolding ImageCloner.Create_def create_cleanup_def setOwnership_def imageInfo_def Let_def NewImageCloner_def ImageCloner.simps
  by (intro evolves_rules image_env image_locks)+

lemma Destroy_same: "evolves same_env (ImageCloner.Destroy (NewImageCloner ops store) i)"
    "evolves same_locks (ImageCloner.Destroy (NewImageCloner ops store) i)"
  unfolding ImageCloner.Destroy_def NewImageCloner_def ImageCloner.simps
  by (intro evolves_rules image_env image_locks)+


text \<open>
  A successful \<open>Create\<close>, step by step. What happens after the driver has made the root file system
  concerns the image directory itself and the volume directories in it.
\<close>

lemma Create_run:
  assumes run: "run_state (ImageCloner.Create (NewImageCloner ops store) spec) w = (Inr info, w')"
    and limit: "is_int64 (is_DiskLimit spec)" and i: "plain_name (is_ID spec)" and E: "E (w_env w)"
  obtains mi w1 w2 where
    "run_state (os_Mkdir (imagePath (NewImageCloner ops store) (is_ID spec)) 0x1C0) w = (Inr (), w1)"
    and "run_state (dr_CreateImage ops \<lparr>ds_BaseVolumeIDs = is_BaseVolumeIDs spec, ds_Mount = is_Mount spec,
               ds_ImagePath = imagePath (NewImageCloner ops store) (is_ID spec), ds_DiskLimit = is_DiskLimit spec,
               ds_ExclusiveDiskLimit = is_ExcludeBaseImageFromQuota spec\<rparr>) w1 = (Inr mi, w2)"
    and "within (\<lambda>_. True) ({image_entry store (is_ID spec), image_entry store (is_ID spec) @ [''rootfs'']} \<union>
          {image_entry store (is_ID spec) @ [''vol-'' @ sha256_hex v] | v. True}) w2 w'"
    and "grows w2 w'"
proof -
  let ?b = "NewImageCloner ops store" and ?e = "image_entry store (is_ID spec)"
  let ?path = "imagePath ?b (is_ID spec)"
  let ?X = "{?e, ?e @ [''rootfs'']} \<union> {?e @ [''vol-'' @ sha256_hex v] | v. True}"
  have entry: "resolve ?path = ?e" using i by (simp add: NewImageCloner_def)
  define ds where "ds = \<lparr>ds_BaseVolumeIDs = is_BaseVolumeIDs spec, ds_Mount = is_Mount spec, ds_ImagePath = ?path,
    ds_DiskLimit = is_DiskLimit spec, ds_ExclusiveDiskLimit = is_ExcludeBaseImageFromQuota spec\<rparr>"
  define rest where "rest mi = or_return (setOwnership spec [?path, Join [?path, ''rootfs'']]) id (\<lambda>_.
      or_return (imageInfo (Join [?path, ''rootfs'']) ?path (is_BaseImage spec) mi (is_Mount spec)) (Wrap ''creating image object'') (\<lambda>info.
      or_return (createVolumesSources (ii_Mounts info) (is_OwnerUID spec) (is_OwnerGID spec)) (Wrap ''creating volume source'') (\<lambda>_.
      ok info)))" for mi
  obtain w1 mi w2 where 1: "run_state (os_Mkdir ?path 0x1C0) w = (Inr (), w1)"
    and 2: "run_state (dr_CreateImage ops ds) w1 = (Inr mi, w2)" and 3: "run_state (rest mi) w2 = (Inr info, w')"
    using run by (auto simp: ImageCloner.Create_def Let_def ds_def rest_def NewImageCloner_def split: prod.splits sum.splits if_splits)
  have mounts: "resolve (mi_Source m) \<in> ?X"
    if "run_state (imageInfo (Join [?path, ''rootfs'']) ?path (is_BaseImage spec) mi (is_Mount spec)) v = (Inr inf, v')"
      "m \<in> set (ii_Mounts inf)" "mi_Type m = ''bind''" for v inf v' m
    using that CreateImage_mounts [OF 2] by (auto simp: imageInfo_def range_order_def entry split: if_splits) blast+
  have own: "evolves (within (\<lambda>_. True) ?X) (setOwnership spec [?path, Join [?path, ''rootfs'']])"
    unfolding setOwnership_def by (intro evolves_if evolves_ok preorder_within chown_paths_within) (simp add: entry)
  have info: "evolves (within (\<lambda>_. True) ?X) (imageInfo (Join [?path, ''rootfs'']) ?path (is_BaseImage spec) mi (is_Mount spec))"
    unfolding imageInfo_def by (intro evolves_rules)
  have "evolves (within (\<lambda>_. True) ?X) (rest mi)"
    unfolding rest_def
  proof (intro evolves_or_return [OF preorder_within own] evolves_or_return_result [OF preorder_within info]
      evolves_or_return [OF preorder_within] evolves_ok preorder_within)
    fix v inf v'
    assume "run_state (imageInfo (Join [?path, ''rootfs'']) ?path (is_BaseImage spec) mi (is_Mount spec)) v = (Inr inf, v')"
    from createVolumesSources_within [OF mounts [OF this]]
    show "evolves (within (\<lambda>_. True) ?X) (createVolumesSources (ii_Mounts inf) (is_OwnerUID spec) (is_OwnerGID spec))" .
  qed
  note tail = this
  have "evolves grows (rest mi)"
    unfolding rest_def setOwnership_def imageInfo_def by (intro evolves_rules)
  from that [OF 1 2 [unfolded ds_def] evolvesD [OF tail 3] evolvesD [OF this 3]] show thesis .
qed

lemma Mkdir_result: "run_state (os_Mkdir p m) w = (Inr (), w') \<Longrightarrow>
    fs_get (w_fs w) (resolve p) = None \<and> fs_get (w_fs w') (resolve p) \<noteq> None \<and>
    (\<forall>q. q \<noteq> resolve p \<longrightarrow> fs_get (w_fs w') q = fs_get (w_fs w) q) \<and> w_env w' = w_env w"
  by (auto simp: os_Mkdir_def syscall_def k_mkdir_def fs_simps split: option.splits sum.splits)

lemma entry_not_area: "e \<notin> image_area e"
  by (auto simp: image_area_def)

text \<open>The image that was made is there, and its root file system is the topmost layer.\<close>

lemma Create_there:
  assumes "run_state (ImageCloner.Create (NewImageCloner ops store) spec) w = (Inr info, w')"
    and limit: "is_int64 (is_DiskLimit spec)" and i: "plain_name (is_ID spec)" and E: "E (w_env w)"
  shows "fs_get (w_fs w') (image_entry store (is_ID spec)) \<noteq> None"
proof -
  let ?e = "image_entry store (is_ID spec)"
  have entry: "resolve (imagePath (NewImageCloner ops store) (is_ID spec)) = ?e" using i by (simp add: NewImageCloner_def)
  obtain mi w1 w2 where 1: "run_state (os_Mkdir (imagePath (NewImageCloner ops store) (is_ID spec)) 0x1C0) w = (Inr (), w1)"
    and 2: "run_state (dr_CreateImage ops \<lparr>ds_BaseVolumeIDs = is_BaseVolumeIDs spec, ds_Mount = is_Mount spec,
               ds_ImagePath = imagePath (NewImageCloner ops store) (is_ID spec), ds_DiskLimit = is_DiskLimit spec,
               ds_ExclusiveDiskLimit = is_ExcludeBaseImageFromQuota spec\<rparr>) w1 = (Inr mi, w2)"
    and 3: "grows w2 w'" by (rule Create_run [OF assms]) blast
  note m = Mkdir_result [OF 1, unfolded entry]
  have "fs_get (w_fs w2) ?e = fs_get (w_fs w1) ?e"
    by (rule withinD [OF evolvesD [OF CreateImage_frame 2]]) (use m E limit entry entry_not_area in auto)
  with m 3 show ?thesis by (simp add: grows_def)
qed

lemma Create_copies:
  assumes "run_state (ImageCloner.Create (NewImageCloner ops store) spec) w = (Inr info, w')"
    and limit: "is_int64 (is_DiskLimit spec)" and i: "plain_name (is_ID spec)" and E: "E (w_env w)"
    and v: "plain_name (last (is_BaseVolumeIDs spec))"
    and nested: "no_nested_subvolume (volume_entry store (last (is_BaseVolumeIDs spec))) (w_fs w)"
    and new: "fs_get (w_fs w) (image_entry store (is_ID spec) @ [root_name (is_Mount spec)]) = None" and x: "x \<noteq> []"
  shows "fs_get (w_fs w') (image_entry store (is_ID spec) @ root_name (is_Mount spec) # x) =
    fs_get (w_fs w) (volume_entry store (last (is_BaseVolumeIDs spec)) @ x)"
proof -
  let ?e = "image_entry store (is_ID spec)" and ?v = "volume_entry store (last (is_BaseVolumeIDs spec))"
  have entry: "resolve (imagePath (NewImageCloner ops store) (is_ID spec)) = ?e" using i by (simp add: NewImageCloner_def)
  have apart: "\<not> prefix ?e ?v" "\<not> prefix ?v ?e" "?v @ y \<noteq> ?e" for y
    by (auto simp: image_entry_def images_dir_def volume_entry_def volumes_dir_def)
  obtain mi w1 w2 where 1: "run_state (os_Mkdir (imagePath (NewImageCloner ops store) (is_ID spec)) 0x1C0) w = (Inr (), w1)"
    and 2: "run_state (dr_CreateImage ops \<lparr>ds_BaseVolumeIDs = is_BaseVolumeIDs spec, ds_Mount = is_Mount spec,
               ds_ImagePath = imagePath (NewImageCloner ops store) (is_ID spec), ds_DiskLimit = is_DiskLimit spec,
               ds_ExclusiveDiskLimit = is_ExcludeBaseImageFromQuota spec\<rparr>) w1 = (Inr mi, w2)"
    and 3: "within (\<lambda>_. True) ({?e, ?e @ [''rootfs'']} \<union> {?e @ [''vol-'' @ sha256_hex v] | v. True}) w2 w'"
    by (rule Create_run [OF assms(1-4)]) blast
  note m = Mkdir_result [OF 1, unfolded entry]
  have "no_nested_subvolume ?v (w_fs w1)"
    using nested m apart unfolding no_nested_subvolume_def by (metis prefix_order.less_imp_le prefixE)
  with CreateImage_copies [OF 2 _ _ _ _ _ _ _ x] m E limit v new apart
  have "fs_get (w_fs w2) (?e @ root_name (is_Mount spec) # x) = fs_get (w_fs w) (?v @ x)"
    by (simp add: entry)
  moreover have "?e @ root_name (is_Mount spec) # x \<notin> {?e, ?e @ [''rootfs'']} \<union> {?e @ [''vol-'' @ sha256_hex v] | v. True}"
    using x by auto
  then have "fs_get (w_fs w') (?e @ root_name (is_Mount spec) # x) = fs_get (w_fs w2) (?e @ root_name (is_Mount spec) # x)"
    by (rule withinD [OF 3 TrueI])
  ultimately show ?thesis by simp
qed

end

section \<open>The creator of the command\<close>

definition command_creator ::
  "(SystemContext \<Rightarrow> image_service) \<Rightarrow> int \<Rightarrow> Driver \<Rightarrow> IDMappings \<Rightarrow> CommandIDMapper \<Rightarrow> SystemContext \<Rightarrow> CreateConfig \<Rightarrow>
     URL \<Rightarrow> Creator" where
  "command_creator service uid d ms im ctxt cfg url =
     (let imageCloner = NewImageCloner (btrfs_ops d) (storePath d);
          sm = NewStoreMeasurer (storePath d) (btrfs_ops d);
          cleaner = cleaner_of (commands_driver d ms im) sm imageCloner (storePath d)
      in IamCreator imageCloner (command_puller service uid d ms im ctxt cfg url)
           (file_locksmith (NewSharedFileSystem (storePath d))) (store_registry (storePath d)) cleaner)"

lemma command_creator_sel:
  "cr_cleaner (command_creator service uid d ms im ctxt cfg url) =
     cleaner_of (commands_driver d ms im) (NewStoreMeasurer (storePath d) (btrfs_ops d)) (NewImageCloner (btrfs_ops d) (storePath d)) (storePath d)"
  "cr_imageCloner (command_creator service uid d ms im ctxt cfg url) = NewImageCloner (btrfs_ops d) (storePath d)"
  "cr_baseImagePuller (command_creator service uid d ms im ctxt cfg url) = command_puller service uid d ms im ctxt cfg url"
  "lk_Lock (cr_locksmith (command_creator service uid d ms im ctxt cfg url)) = Lock (NewSharedFileSystem (storePath d))"
  "lk_Unlock (cr_locksmith (command_creator service uid d ms im ctxt cfg url)) = Unlock (NewSharedFileSystem (storePath d))"
  "cr_dependencyManager (command_creator service uid d ms im ctxt cfg url) = store_registry (storePath d)"
  by (simp_all add: command_creator_def IamCreator_def file_locksmith_def Let_def)

interpretation namespaced_gc: gc_parts "commands_driver d ms im" "storePath d" "userns_tools d im" "ImageIDs b" "Dependencies m"
    "fs_children (images_dir (ic_storePath b))" "registered m" for d ms im b m
  by unfold_locales (auto simp: commands_driver_simps dest: gc.Volumes_result)

interpretation namespaced_cleaning: cleaning "commands_driver d ms im" "storePath d" "userns_tools d im"
    "NewImageCloner (btrfs_ops d) (storePath d)" for d ms im
  using namespaced_gc.gc_parts_axioms [of d ms im "NewImageCloner (btrfs_ops d) (storePath d)" "store_registry (storePath d)"]
  by (simp add: cleaning_def NewImageCloner_def)

text \<open>The steps of a creation that succeeds.\<close>

lemma same_files_within: "within (\<lambda>_. True) {} w w' \<Longrightarrow> fs_get (w_fs w') = fs_get (w_fs w)"
  by (rule ext) (erule withinD, simp_all)

text \<open>\<open>Create\<close> fails before it makes anything, or it gets to \<open>create_image\<close>.\<close>

lemma Create_reaches:
  assumes "run_state (Creation.Create c spec) w = (r, w')"
  obtains (early) "isl r" and "(\<And>u. evolves (within (\<lambda>_. True) {}) (ft_BaseImageInfo (bp_fetcher (cr_baseImagePuller c)) u)) \<Longrightarrow>
       fs_get (w_fs w') = fs_get (w_fs w)"
  | (makes) bspec w0 info w1 w2 where "run_state (FetchBaseImageInfo (cr_baseImagePuller c) bspec) w0 = (Inr info, w1)"
    and "run_state (create_image c spec bspec info) w1 = (r, w2)" and "w_fs w' = w_fs w2"
    and "bs_DiskLimit bspec = cs_DiskLimit spec" and "bs_ExcludeBaseImageFromQuota bspec = cs_ExcludeBaseImageFromQuota spec"
    and "bs_BaseImageSrc bspec = cs_BaseImageURL spec" and "bs_UIDMappings bspec = cs_UIDMappings spec"
    and "bs_GIDMappings bspec = cs_GIDMappings spec" and "within (\<lambda>_. True) {} w w0"
proof -
  obtain w7 where fs: "w_fs w' = w_fs w7" and
    body: "run_state (if CHR ''/'' \<in> set (cs_ID spec)
     then fail (Plain (''id `'' @ cs_ID spec @ ''` contains invalid characters: `/`''))
     else
       or_return (Exists (cr_imageCloner c) (cs_ID spec)) (Wrap ''checking id exists'') (\<lambda>found.
       if found then fail (Plain (''image for id `'' @ cs_ID spec @ ''` already exists''))
       else do {
         (ownerUid, ownerGid) \<leftarrow> parseOwner (cs_UIDMappings spec) (cs_GIDMappings spec);
         let baseImageSpec = \<lparr>bs_DiskLimit = cs_DiskLimit spec,
               bs_ExcludeBaseImageFromQuota = cs_ExcludeBaseImageFromQuota spec,
               bs_BaseImageSrc = cs_BaseImageURL spec, bs_UIDMappings = cs_UIDMappings spec,
               bs_GIDMappings = cs_GIDMappings spec, bs_OwnerUID = ownerUid, bs_OwnerGID = ownerGid\<rparr>;
         or_return (FetchBaseImageInfo (cr_baseImagePuller c) baseImageSpec) id (\<lambda>baseImageInfo.
         create_image c spec baseImageSpec baseImageInfo)
       })) w = (r, w7)"
    using timed_run [OF assms(1) [unfolded Creation.Create_def]] by blast
  show thesis
  proof (cases "CHR ''/'' \<in> set (cs_ID spec)")
    case True
    with body fs show thesis by (intro early) auto
  next
    case False
    obtain found w0 where 0: "run_state (Exists (cr_imageCloner c) (cs_ID spec)) w = (found, w0)" by fastforce
    note e = evolvesD [OF Exists_evolves(1) 0]
    have same0: "fs_get (w_fs w0) = fs_get (w_fs w)" by (rule same_files_within [OF e])
    show thesis
    proof (cases "found = Inr False")
      case False
      with body \<open>CHR ''/'' \<notin> set (cs_ID spec)\<close> 0 fs same0 show thesis by (intro early) (cases found; auto)+
    next
      case True
      obtain o1 o2 where own: "run_state (parseOwner (cs_UIDMappings spec) (cs_GIDMappings spec)) w0 = ((o1, o2), w0)"
        by (auto simp: parseOwner_def os_Getuid_def os_Getgid_def)
      define bspec where "bspec = \<lparr>bs_DiskLimit = cs_DiskLimit spec,
               bs_ExcludeBaseImageFromQuota = cs_ExcludeBaseImageFromQuota spec,
               bs_BaseImageSrc = cs_BaseImageURL spec, bs_UIDMappings = cs_UIDMappings spec,
               bs_GIDMappings = cs_GIDMappings spec, bs_OwnerUID = o1, bs_OwnerGID = o2\<rparr>"
      obtain i w1 where 1: "run_state (FetchBaseImageInfo (cr_baseImagePuller c) bspec) w0 = (i, w1)" by fastforce
      have rest: "(case i of Inl e \<Rightarrow> (Inl e, w1) | Inr info \<Rightarrow> run_state (create_image c spec bspec info) w1) = (r, w7)"
        using body \<open>CHR ''/'' \<notin> set (cs_ID spec)\<close> 0 True own 1 by (cases i) (simp_all add: bspec_def Let_def)
      show thesis
      proof (cases i)
        case (Inl e)
        show thesis
        proof (rule early)
          show "isl r" using Inl rest by auto
          assume "\<And>u. evolves (within (\<lambda>_. True) {}) (ft_BaseImageInfo (bp_fetcher (cr_baseImagePuller c)) u)"
          from same_files_within [OF evolvesD [OF this 1 [unfolded FetchBaseImageInfo_def]]]
          show "fs_get (w_fs w') = fs_get (w_fs w)" using Inl rest fs same0 by auto
        qed
      next
        case (Inr info)
        with rest have "run_state (create_image c spec bspec info) w1 = (r, w7)" by simp
        from makes [OF 1 [unfolded Inr] this fs _ _ _ _ _ e] show thesis by (simp add: bspec_def)
      qed
    qed
  qed
qed

lemma Creation_steps:
  assumes "run_state (Creation.Create c spec) w = (Inr img, w')"
  obtains info bspec w0 w1 w2 w3 fd w4 w5 w6 w7 x ispec where
    "run_state (FetchBaseImageInfo (cr_baseImagePuller c) bspec) w0 = (Inr info, w1)"
    and "run_state (clean_on_create c spec (chainIDs (bi_LayerInfos info))) w1 = (Inr (), w2)"
    and "run_state (lk_Lock (cr_locksmith c) GlobalLockKey) w2 = (Inr fd, w3)"
    and "run_state (Pull (cr_baseImagePuller c) info bspec) w3 = (Inr (), w4)"
    and "run_state (ImageCloner.Create (cr_imageCloner c) ispec) w4 = (Inr img, w5)"
    and "run_state (Register (cr_dependencyManager c) (image_ref (cs_ID spec)) (chainIDs (bi_LayerInfos info))) w5 = (Inr (), w6)"
    and "run_state (lk_Unlock (cr_locksmith c) fd) w6 = (x, w7)"
    and "w_fs w' = w_fs w7" and "is_ID ispec = cs_ID spec" and "is_BaseVolumeIDs ispec = chainIDs (bi_LayerInfos info)"
    and "is_DiskLimit ispec = cs_DiskLimit spec" and "is_Mount ispec = cs_Mount spec"
    and "bs_BaseImageSrc bspec = cs_BaseImageURL spec" and "bs_UIDMappings bspec = cs_UIDMappings spec"
    and "bs_GIDMappings bspec = cs_GIDMappings spec" and "within (\<lambda>_. True) {} w w0"
proof -
  from assms obtain bspec w0 info w1 w7 where
    f: "run_state (FetchBaseImageInfo (cr_baseImagePuller c) bspec) w0 = (Inr info, w1)"
    and i: "run_state (create_image c spec bspec info) w1 = (Inr img, w7)" and fs: "w_fs w' = w_fs w7"
    and b: "bs_BaseImageSrc bspec = cs_BaseImageURL spec" "bs_UIDMappings bspec = cs_UIDMappings spec"
      "bs_GIDMappings bspec = cs_GIDMappings spec" and e: "within (\<lambda>_. True) {} w w0"
    by (rule Create_reaches) simp
  from i obtain w2 fd w3 w6 x where
    cl: "run_state (clean_on_create c spec (chainIDs (bi_LayerInfos info))) w1 = (Inr (), w2)"
    and l: "run_state (lk_Lock (cr_locksmith c) GlobalLockKey) w2 = (Inr fd, w3)"
    and cr: "run_state (create_locked c spec bspec info) w3 = (Inr img, w6)"
    and u: "run_state (lk_Unlock (cr_locksmith c) fd) w6 = (x, w7)"
    by (auto simp: create_image_def split: prod.splits sum.splits)
  from cr obtain w4 w5 ispec where
    p: "run_state (Pull (cr_baseImagePuller c) info bspec) w3 = (Inr (), w4)"
    and m: "run_state (ImageCloner.Create (cr_imageCloner c) ispec) w4 = (Inr img, w5)"
    and r: "run_state (Register (cr_dependencyManager c) (image_ref (cs_ID spec)) (chainIDs (bi_LayerInfos info))) w5 = (Inr (), w6)"
    and s: "is_ID ispec = cs_ID spec" "is_BaseVolumeIDs ispec = chainIDs (bi_LayerInfos info)"
      "is_DiskLimit ispec = cs_DiskLimit spec" "is_Mount ispec = cs_Mount spec"
    by (auto simp: create_locked_def Let_def split: prod.splits sum.splits)
  from that [OF f cl l p m r u fs s b e] show thesis .
qed

context pulling
begin

lemma Pull_same_env: "evolves same_env (Pull p info spec)"
proof -
  have base: "evolves same_env (ensureBaseDirectoryExists d c q)" for d c q
    unfolding ensureBaseDirectoryExists_def by (intro evolves_rules ensure_base_dirs_evolves)
  have "evolves same_env (buildLayer p n ls spec)" for n ls
    by (induction n)
      (auto simp: volumeExists_def downloadLayer_def unpackLayer_def createTemporaryVolumeDirectory_def Let_def
        unpackLayerToTemporaryDirectory_def unpack_and_handle_def finalizeVolume_def close_blob_def
        intro!: evolves_rules layer_env read_env change_env unpack_env fetcher_env lock_env unlock_env base)
  then show ?thesis unfolding Pull_def by (intro evolves_rules)
qed

end

lemma creator_parts_env:
  "evolves same_env (FetchBaseImageInfo (command_puller service uid d ms im ctxt cfg url) bspec)"
  "evolves same_env (clean_on_create (command_creator service uid d ms im ctxt cfg url) spec ids)"
  "evolves same_env (Pull (command_puller service uid d ms im ctxt cfg url) info bspec)"
proof -
  show "evolves same_env (FetchBaseImageInfo (command_puller service uid d ms im ctxt cfg url) bspec)"
    unfolding FetchBaseImageInfo_def command_puller_def create_puller_sel by (rule chosen_source.fetcher_env(2))
  show "evolves same_env (clean_on_create (command_creator service uid d ms im ctxt cfg url) spec ids)"
    unfolding clean_on_create_def command_creator_sel
    by (intro evolves_rules namespaced_cleaning.Clean_same_env)
  show "evolves same_env (Pull (command_puller service uid d ms im ctxt cfg url) info bspec)"
    unfolding command_puller_def by (rule pulls.Pull_same_env)
qed

lemma image_listed:
  assumes "plain_name i" and "fs_get fs (image_entry store i) \<noteq> None"
  shows "i \<in> set (store_images store fs)"
  using assms by (simp add: store_images_def set_fs_children image_entry_def)

text \<open>What \<open>Create\<close> is asked for: the base image of its URL, as it was when the command began.\<close>

definition fetched_for :: "BaseImagePuller \<Rightarrow> CreateSpec \<Rightarrow> world \<Rightarrow> BaseImageInfo \<Rightarrow> bool" where
  "fetched_for p spec w info \<longleftrightarrow>
     (\<exists>bspec w0 w1. run_state (FetchBaseImageInfo p bspec) w0 = (Inr info, w1) \<and> bs_BaseImageSrc bspec = cs_BaseImageURL spec \<and>
        w_env w0 = w_env w \<and> fs_get (w_fs w0) = fs_get (w_fs w))"

lemma fetched_forI:
  assumes "run_state (FetchBaseImageInfo p bspec) w0 = (Inr info, w1)" and "bs_BaseImageSrc bspec = cs_BaseImageURL spec"
    and "within (\<lambda>_. True) {} w w0"
  shows "fetched_for p spec w info"
proof -
  have "w_env w0 = w_env w" "fs_get (w_fs w0) = fs_get (w_fs w)" using assms(3) by (auto simp: within_def)
  with assms(1,2) show ?thesis unfolding fetched_for_def by blast
qed

lemma Create_done:
  assumes "run_state (Creation.Create (command_creator service uid d ms im ctxt cfg url) spec) w = (Inr img, w')"
    and "tools d (w_env w)" and "is_int64 (cs_DiskLimit spec)" and "plain_name (cs_ID spec)"
  shows "\<exists>info. fetched_for (command_puller service uid d ms im ctxt cfg url) spec w info \<and>
    fs_get (w_fs w') (image_entry (storePath d) (cs_ID spec)) \<noteq> None \<and>
    store_deps (storePath d) (w_fs w') (cs_ID spec) = Some (chainIDs (bi_LayerInfos info)) \<and>
    (\<forall>li\<in>set (bi_LayerInfos info). \<forall>preserve. needed (storePath d) (w_fs w') preserve (li_ChainID li))"
proof -
  obtain info bspec w0 w1 w2 w3 fd w4 w5 w6 w7 x ispec where
    f: "run_state (FetchBaseImageInfo (command_puller service uid d ms im ctxt cfg url) bspec) w0 = (Inr info, w1)"
    and c: "run_state (clean_on_create (command_creator service uid d ms im ctxt cfg url) spec (chainIDs (bi_LayerInfos info))) w1 = (Inr (), w2)"
    and l: "run_state (Lock (NewSharedFileSystem (storePath d)) GlobalLockKey) w2 = (Inr fd, w3)"
    and p: "run_state (Pull (command_puller service uid d ms im ctxt cfg url) info bspec) w3 = (Inr (), w4)"
    and m: "run_state (ImageCloner.Create (NewImageCloner (btrfs_ops d) (storePath d)) ispec) w4 = (Inr img, w5)"
    and r: "run_state (Register (store_registry (storePath d)) (image_ref (cs_ID spec)) (chainIDs (bi_LayerInfos info))) w5 = (Inr (), w6)"
    and u: "run_state (Unlock (NewSharedFileSystem (storePath d)) fd) w6 = (x, w7)"
    and fs: "w_fs w' = w_fs w7" and s: "is_ID ispec = cs_ID spec" "is_DiskLimit ispec = cs_DiskLimit spec" and e: "within (\<lambda>_. True) {} w w0"
    and src: "bs_BaseImageSrc bspec = cs_BaseImageURL spec"
    by (rule Creation_steps [OF assms(1), unfolded command_creator_sel]) blast
  have "w_env w4 = w_env w"
    using e evolvesD [OF creator_parts_env(1) f] evolvesD [OF creator_parts_env(2) c] evolvesD [OF locksmith.lock_env l]
      evolvesD [OF creator_parts_env(3) p] by (simp add: same_env_def within_def)
  with btrfs_images.Create_there [OF m] assms(2-4) s have there: "fs_get (w_fs w5) (image_entry (storePath d) (cs_ID spec)) \<noteq> None" by simp
  have "evolves grows (Register (store_registry (storePath d)) (image_ref (cs_ID spec)) (chainIDs (bi_LayerInfos info)))"
    unfolding Register_def by (intro evolves_rules)
  from evolvesD [OF this r] there have there6: "fs_get (w_fs w6) (image_entry (storePath d) (cs_ID spec)) \<noteq> None" by (simp add: grows_def)
  have unlocked: "fs_get (w_fs w7) q = fs_get (w_fs w6) q" for q
    by (rule withinD [where E = "\<lambda>_. True" and X = "{}", OF evolvesD [OF locksmith.unlock_frame u]]) simp_all
  have deps: "store_deps (storePath d) (w_fs w') (cs_ID spec) = Some (chainIDs (bi_LayerInfos info))"
    using Register_registered [OF r] registered_frame [OF unlocked] by (simp add: store_deps_def fs)
  have img: "fs_get (w_fs w') (image_entry (storePath d) (cs_ID spec)) \<noteq> None" using there6 unlocked fs by simp
  note listed = image_listed [OF assms(4) this]
  have "needed (storePath d) (w_fs w') preserve (li_ChainID li)" if "li \<in> set (bi_LayerInfos info)" for li preserve
    unfolding needed_iff
    by (rule disjI2, rule bexI [OF _ listed], rule exI [of _ "chainIDs (bi_LayerInfos info)"])
      (use deps that in \<open>simp add: chainIDs_def\<close>)
  with fetched_forI [OF f src e] deps img show ?thesis by blast
qed

section \<open>Properties\<close>

text \<open>C15. An image that was created is there, it is registered with exactly the layers that were fetched
  for it, and so each of its layers counts as needed: the clean-up will keep it.\<close>

theorem Create_registers:
  assumes "run_state (Creation.Create (command_creator service uid d ms im ctxt cfg url) spec) w = (Inr img, w')"
    and "tools d (w_env w)" and "is_int64 (cs_DiskLimit spec)" and "plain_name (cs_ID spec)"
  shows "\<exists>info. fetched_for (command_puller service uid d ms im ctxt cfg url) spec w info \<and>
    fs_get (w_fs w') (image_entry (storePath d) (cs_ID spec)) \<noteq> None \<and>
    store_deps (storePath d) (w_fs w') (cs_ID spec) = Some (chainIDs (bi_LayerInfos info)) \<and>
    (\<forall>li\<in>set (bi_LayerInfos info). \<forall>preserve. needed (storePath d) (w_fs w') preserve (li_ChainID li))"
  by (rule Create_done [OF assms])

text \<open>C4. The layers of an image that was created survive every later clean-up: whatever fails during it,
  the files of the volumes of the layers that were fetched for the image, and registered, stay as they are.\<close>

theorem Create_then_Clean:
  assumes "run_state (Creation.Create (command_creator service uid d ms im ctxt cfg url) spec) w = (Inr img, w1)"
    and "tools d (w_env w)" and "is_int64 (cs_DiskLimit spec)" and "plain_name (cs_ID spec)"
    and "run_state (Clean (cr_cleaner (command_creator service uid d ms im ctxt cfg url)) threshold preserve) w2 = (r, w3)"
    and "w_fs w2 = w_fs w1" and "clean_abs (storePath d)" and "userns_tools d im (w_env w2)" and "fair_order (w_env w2)"
    and "names_apart (storePath d) (w_fs w2)"
  shows "\<exists>info. fetched_for (command_puller service uid d ms im ctxt cfg url) spec w info \<and>
    store_deps (storePath d) (w_fs w1) (cs_ID spec) = Some (chainIDs (bi_LayerInfos info)) \<and>
    (\<forall>li\<in>set (bi_LayerInfos info). live (li_ChainID li) \<longrightarrow>
       (\<forall>x. fs_get (w_fs w3) (volume_entry (storePath d) (li_ChainID li) @ x) = fs_get (w_fs w1) (volume_entry (storePath d) (li_ChainID li) @ x)))"
proof -
  obtain info where info: "fetched_for (command_puller service uid d ms im ctxt cfg url) spec w info"
      "store_deps (storePath d) (w_fs w1) (cs_ID spec) = Some (chainIDs (bi_LayerInfos info))"
    and needed: "\<And>li. li \<in> set (bi_LayerInfos info) \<Longrightarrow> needed (storePath d) (w_fs w1) preserve (li_ChainID li)"
    using Create_done [OF assms(1-4)] by blast
  have "fs_get (w_fs w3) (volume_entry (storePath d) (li_ChainID li) @ x) = fs_get (w_fs w1) (volume_entry (storePath d) (li_ChainID li) @ x)"
    if "li \<in> set (bi_LayerInfos info)" "live (li_ChainID li)" for li x
  proof -
    have "volume_entry (storePath d) (li_ChainID li) @ x \<notin> clean_area (storePath d) (w_fs w2) preserve"
      using needed_outside [OF that(2) needed [OF that(1)], of "volume_entry (storePath d) (li_ChainID li) @ x"] assms(6) by simp
    from namespaced_cleaning.Clean_keeps [OF assms(7-10) this assms(5) [unfolded command_creator_sel]] assms(6) show ?thesis by simp
  qed
  with info show ?thesis by blast
qed

text \<open>C33. What is refused leaves no trace: for an ID with a slash, or one that an image has already, the creation fails
  and no file is changed.\<close>

theorem Create_refused:
  assumes "CHR ''/'' \<in> set (cs_ID spec) \<or> quiet w \<and> fs_get (w_fs w) (resolve (imagePath (cr_imageCloner c) (cs_ID spec))) \<noteq> None"
  shows "\<exists>e w'. run_state (Creation.Create c spec) w = (Inl e, w') \<and> w_fs w' = w_fs w"
proof (cases "CHR ''/'' \<in> set (cs_ID spec)")
  case True
  then show ?thesis by (auto simp: Creation.Create_def timed_def time_Now_def TryEmitDurationFrom_def emit_def split: prod.splits)
next
  case False
  with assms Exists_quiet [of w "cr_imageCloner c" "cs_ID spec"]
  obtain r where "run_state (Exists (cr_imageCloner c) (cs_ID spec)) w = (r, tick w)" "r = Inr True"
    by (cases "fst (run_state (Exists (cr_imageCloner c) (cs_ID spec)) w)") auto
  with False show ?thesis
    by (auto simp: Creation.Create_def timed_def time_Now_def TryEmitDurationFrom_def emit_def split: prod.splits)
qed

text \<open>C34. Creating an image gives back every lock it took: the global lock, those of the layers and that of
  the clean-up before it.\<close>

theorem Create_balances_locks:
  assumes "fresh_handles w"
  shows "w_locks (snd (run_state (Creation.Create (command_creator service uid d ms im ctxt cfg url) spec) w)) = w_locks w"
proof -
  let ?c = "command_creator service uid d ms im ctxt cfg url"
  note b = same_locks_balanced
  have pull: "evolves balanced (Pull (command_puller service uid d ms im ctxt cfg url) info bspec)" for info bspec
    unfolding command_puller_def by (rule pulls.Pull_balanced)
  have fetch: "evolves balanced (FetchBaseImageInfo (command_puller service uid d ms im ctxt cfg url) bspec)" for bspec
    unfolding FetchBaseImageInfo_def command_puller_def create_puller_sel by (rule b [OF chosen_source.fetcher_locks(2)])
  have locked: "evolves balanced (create_locked ?c spec bspec info)" for bspec info
    unfolding create_locked_def command_creator_sel Let_def
    by (intro evolves_rules pull b [OF btrfs_images.Create_same(2)] b [OF btrfs_images.Destroy_same(2)] b [OF Register_same(2)])
  have clean: "evolves balanced (clean_on_create ?c spec ids)" for ids
    unfolding clean_on_create_def command_creator_sel by (intro evolves_rules namespaced_cleaning.Clean_balanced)
  have make: "evolves balanced (create_image ?c spec bspec info)" for bspec info
    unfolding create_image_def command_creator_sel
    by (rule evolves_or_return [OF preorder_balanced clean]) 
      (unfold or_return_def, rule locksmith.bracket_balanced; intro evolves_return preorder_balanced locked)
  have "evolves balanced (Creation.Create ?c spec)"
    unfolding Creation.Create_def timed_def parseOwner_def Let_def command_creator_sel
    by (intro evolves_rules b [OF Exists_evolves(3)] b [OF TryEmitDurationFrom_evolves(3)] fetch make)
  from evolvesD [OF this, of w] assms show ?thesis by (metis balanced_def prod.collapse)
qed

text \<open>The root file system of an image is the volume of its topmost layer, entry by entry below the root directory.\<close>

lemma Create_copies_layer:
  assumes "run_state (ImageCloner.Create (NewImageCloner (btrfs_ops d) (storePath d)) spec) w = (Inr info, w')"
    and "tools d (w_env w)" and "is_int64 (is_DiskLimit spec)" and "plain_name (is_ID spec)"
    and "plain_name (last (is_BaseVolumeIDs spec))"
    and "no_nested_subvolume (volume_entry (storePath d) (last (is_BaseVolumeIDs spec))) (w_fs w)"
    and "fs_get (w_fs w) (image_entry (storePath d) (is_ID spec) @ [root_name (is_Mount spec)]) = None" and "x \<noteq> []"
  shows "fs_get (w_fs w') (image_entry (storePath d) (is_ID spec) @ root_name (is_Mount spec) # x) =
    fs_get (w_fs w) (volume_entry (storePath d) (last (is_BaseVolumeIDs spec)) @ x)"
  by (rule btrfs_images.Create_copies [OF assms(1,3,4,2,5-8)])

section \<open>Examples\<close>

definition registry_url :: URL where
  "registry_url = \<lparr>url_Scheme = ''docker'', url_Host = [], url_Path = ''/p'', url_String = ''docker:///p''\<rparr>"

text \<open>A registry with one image of one layer, which the sample store has already as volume \<^verbatim>\<open>v1\<close>.\<close>

definition sample_manifest :: manifest where
  "sample_manifest =
     \<lparr>mf_LayerInfos = [\<lparr>bi_Digest = ''sha256:b1'', bi_Size = 10, bi_URLs = [], bi_Annotations = [], bi_MediaType = []\<rparr>],
      mf_MimeType = Inr ''application/vnd.docker.distribution.manifest.v2+json'',
      mf_OCIConfig = Inr \<lparr>img_Volumes = [], img_Env = [''A=b''], img_DiffIDs = [''sha256:v1'']\<rparr>\<rparr>"

definition sample_registry :: "SystemContext \<Rightarrow> image_service" where
  "sample_registry ctxt = (no_registry ctxt)\<lparr>sv_ParseReference := (\<lambda>_. Some Inr),
     sv_NewImage := (\<lambda>_ _. Inr sample_manifest), sv_ConfigBlob := (\<lambda>_ _. Inr [])\<rparr>"

definition make_spec :: CreateSpec where
  "make_spec = \<lparr>cs_ID = ''j'', cs_BaseImageURL = registry_url, cs_DiskLimit = 0, cs_Mount = True, cs_ExcludeBaseImageFromQuota = False,
     cs_CleanOnCreate = False, cs_CleanOnCreateThresholdBytes = 0, cs_UIDMappings = [], cs_GIDMappings = []\<rparr>"

definition sample_creator :: Creator where
  "sample_creator = command_creator sample_registry 0 sample_driver \<lparr>im_UIDMappings = [], im_GIDMappings = []\<rparr> sample_mapper
     (createSystemContext registry_url empty_CreateConfig [] []) empty_CreateConfig registry_url"

definition made :: "(error + ImageInfo) \<times> world" where
  "made = run_state (Creation.Create sample_creator make_spec) pull_world"

lemma made_result:
  "(case made of (r, w') \<Rightarrow> \<not> isl r \<and> store_deps ''/s'' (w_fs w') ''j'' = Some [''v1''] \<and> names_apart ''/s'' (w_fs w') \<and>
      fs_get (w_fs w') [''s'', ''volumes'', ''v1'', ''a''] = Some (file_node ''x''))"
  by code_simp

lemma made_run: "run_state (Creation.Create sample_creator make_spec) pull_world = (Inr (projr (fst made)), snd made)"
  using made_result by (auto simp: made_def split: prod.splits)

lemma made_facts:
  "store_deps ''/s'' (w_fs (snd made)) ''j'' = Some [''v1'']" "names_apart ''/s'' (w_fs (snd made))"
  "fs_get (w_fs (snd made)) [''s'', ''volumes'', ''v1'', ''a''] = Some (file_node ''x'')"
  using made_result by (simp_all add: case_prod_unfold)

text \<open>Whatever is fetched, in whatever state, is the one image of the registry.\<close>

lemma retry_Inr: "run_state (retry n e m) w = (Inr x, w') \<Longrightarrow> \<exists>v v'. run_state m v = (Inr x, v')"
  by (induction n arbitrary: e w) (auto split: sum.splits prod.splits)

lemma sample_manifest_only:
  assumes "so_service s = sample_registry ctxt" and "run_state (Manifest s u) v = (Inr man, v')"
  shows "man = sample_manifest"
proof -
  from assms(2) obtain img v1 v2 where img: "run_state (getImageWithRetries s u) v = (Inr img, v1)"
    and man: "run_state (convertImage s img u) v1 = (Inr man, v2)"
    by (auto simp: Manifest_def split: sum.splits prod.splits)
  from img assms(1) have "img = sample_manifest"
    by (auto simp: getImageWithRetries_def sample_registry_def answer_def split: sum.splits prod.splits dest!: retry_Inr)
  with man show ?thesis
    by (auto simp: convertImage_def sample_manifest_def DockerV2Schema1MediaType_def DockerV2Schema1SignedMediaType_def)
qed

lemma sample_base_info:
  assumes "run_state (FetchBaseImageInfo (cr_baseImagePuller sample_creator) bspec) v = (Inr info, v')"
  shows "map (\<lambda>li. (li_ChainID li, li_BaseDirectory li, li_BlobID li, li_Size li)) (bi_LayerInfos info) = [(''v1'', [], ''sha256:b1'', 10)]"
proof -
  let ?s = "layer_source_for sample_registry (store_temp (storePath sample_driver)) registry_url
      (createSystemContext registry_url empty_CreateConfig [] []) empty_CreateConfig"
  let ?f = "map (\<lambda>li. (li_ChainID li, li_BaseDirectory li, li_BlobID li, li_Size li))"
  from assms have "run_state (layer_BaseImageInfo ?s (bs_BaseImageSrc bspec)) v = (Inr info, v')"
    by (simp add: sample_creator_def command_creator_sel command_puller_def FetchBaseImageInfo_def
        create_puller_sel createFetcher_def registry_url_def layer_fetcher_def)
  then obtain man v1 where man: "run_state (Manifest ?s (bs_BaseImageSrc bspec)) v = (Inr man, v1)" and oc: "mf_OCIConfig man = Inr (bi_Config info)"
    and infos: "createLayerInfos [] (mf_LayerInfos man) (img_DiffIDs (bi_Config info)) = Inr (bi_LayerInfos info)"
    by (auto simp: layer_BaseImageInfo_def split: sum.splits prod.splits)
  have "so_service ?s = sample_registry (createSystemContext registry_url empty_CreateConfig [] [])"
    by (simp add: layer_source_for_def NewLayerSource_def)
  from sample_manifest_only [OF this man] have m: "man = sample_manifest" .
  from oc have "img_DiffIDs (bi_Config info) = img_DiffIDs (projr (mf_OCIConfig man))" by simp
  then have "img_DiffIDs (bi_Config info) = [''sha256:v1'']" by (simp add: m sample_manifest_def)
  with infos m have "createLayerInfos [] (mf_LayerInfos sample_manifest) [''sha256:v1''] = Inr (bi_LayerInfos info)" by simp
  moreover have "map_sum id ?f (createLayerInfos [] (mf_LayerInfos sample_manifest) [''sha256:v1'']) = Inr [(''v1'', [], ''sha256:b1'', 10)]" by code_simp
  ultimately show ?thesis by simp
qed

lemma make_spec_ok: "is_int64 (cs_DiskLimit make_spec)" "plain_name (cs_ID make_spec)" "cs_ID make_spec = ''j''"
  by (simp_all add: make_spec_def is_int64_def plain_name_def)

lemma sample_host_ok: "tools sample_driver sample_host" "userns_tools sample_driver sample_mapper sample_host" "fair_order sample_host"
  using sample_host_tools sample_userns_tools sample_fair by (simp_all add: fair_order_def sample_host_def)

theorem Create_registers_witness:
  "fs_get (w_fs (snd made)) (image_entry ''/s'' ''j'') \<noteq> None \<and> needed ''/s'' (w_fs (snd made)) [] ''v1''"
proof -
  have "tools sample_driver (w_env pull_world)" by (simp add: sample_host_ok)
  from Create_registers [OF made_run [unfolded sample_creator_def] this make_spec_ok(1,2), unfolded make_spec_ok(3) sample_driver_sel]
  obtain info :: BaseImageInfo where
    "fs_get (w_fs (snd made)) (image_entry ''/s'' ''j'') \<noteq> None"
    "store_deps ''/s'' (w_fs (snd made)) ''j'' = Some (chainIDs (bi_LayerInfos info))"
    "\<forall>li\<in>set (bi_LayerInfos info). \<forall>preserve. needed ''/s'' (w_fs (snd made)) preserve (li_ChainID li)"
    by blast
  moreover from this(2) made_facts(1) have "''v1'' \<in> li_ChainID ` set (bi_LayerInfos info)"
    by (metis chainIDs_def list.set_intros(1) list.set_map option.inject)
  ultimately show ?thesis by auto
qed

definition later :: world where
  "later = pull_world\<lparr>w_fs := w_fs (snd made)\<rparr>"

theorem Create_then_Clean_witness:
  "fs_get (w_fs (snd (run_state (Clean (cr_cleaner sample_creator) 0 []) later))) [''s'', ''volumes'', ''v1'', ''a''] = Some (file_node ''x'')"
proof -
  obtain r w3 where run: "run_state (Clean (cr_cleaner sample_creator) 0 []) later = (r, w3)" by fastforce
  have "tools sample_driver (w_env pull_world)" "clean_abs (storePath sample_driver)" "userns_tools sample_driver sample_mapper (w_env later)"
      "fair_order (w_env later)" "names_apart (storePath sample_driver) (w_fs later)"
    by (simp_all add: later_def sample_host_ok made_facts)
  from Create_then_Clean [OF made_run [unfolded sample_creator_def] this(1) make_spec_ok(1,2) run [unfolded sample_creator_def] _ this(2-5)]
  obtain info :: BaseImageInfo where info: "store_deps ''/s'' (w_fs (snd made)) ''j'' = Some (chainIDs (bi_LayerInfos info))"
      "\<forall>li\<in>set (bi_LayerInfos info). live (li_ChainID li) \<longrightarrow>
         (\<forall>x. fs_get (w_fs w3) (volume_entry ''/s'' (li_ChainID li) @ x) = fs_get (w_fs (snd made)) (volume_entry ''/s'' (li_ChainID li) @ x))"
    by (auto simp: later_def make_spec_ok)
  obtain li where li: "li \<in> set (bi_LayerInfos info)" "li_ChainID li = ''v1''"
    using info(1) made_facts(1) by (auto simp: chainIDs_def)
  have "live ''v1''" by (simp add: live_def has_prefix_def gc_prefix_def)
  with info(2) li have "fs_get (w_fs w3) (volume_entry ''/s'' ''v1'' @ [''a'']) = fs_get (w_fs (snd made)) (volume_entry ''/s'' ''v1'' @ [''a''])"
    by metis
  with run made_facts(3) show ?thesis by (simp add: volume_entry_def volumes_dir_def VolumesDirName_def)
qed

theorem Create_refused_witness:
  "\<exists>e w'. run_state (Creation.Create sample_creator (make_spec\<lparr>cs_ID := ''a/b''\<rparr>)) pull_world = (Inl e, w') \<and> w_fs w' = w_fs pull_world"
  by (rule Create_refused) simp

theorem Create_balances_locks_witness: "w_locks (snd made) = []"
  using Create_balances_locks [of pull_world] unfolding made_def sample_creator_def by (simp add: fresh_handles_def)

definition root_spec :: ImageSpec where
  "root_spec = \<lparr>is_ID = ''k'', is_Mount = True, is_DiskLimit = 0, is_ExcludeBaseImageFromQuota = False,
     is_BaseVolumeIDs = [''v1''], is_BaseImage = empty_Image, is_OwnerUID = 0, is_OwnerGID = 0\<rparr>"

lemma root_made: "\<not> isl (fst (run_state (ImageCloner.Create (NewImageCloner (btrfs_ops sample_driver) ''/s'') root_spec) sample_world))"
  by code_simp

lemma Create_copies_layer_witness:
  "fs_get (w_fs (snd (run_state (ImageCloner.Create (NewImageCloner (btrfs_ops sample_driver) ''/s'') root_spec) sample_world)))
     [''s'', ''images'', ''k'', ''rootfs'', ''a''] = Some (file_node ''x'')"
proof -
  obtain info w' where run: "run_state (ImageCloner.Create (NewImageCloner (btrfs_ops sample_driver) ''/s'') root_spec) sample_world = (Inr info, w')"
    using root_made by (cases "fst (run_state (ImageCloner.Create (NewImageCloner (btrfs_ops sample_driver) ''/s'') root_spec) sample_world)")
      (auto simp: prod_eq_iff)
  have "no_nested_subvolume [''s'', ''volumes'', ''v1''] sample_fs"
    by (auto simp: no_nested_subvolume_def fs_get_def sample_fs_def file_node_def split: if_splits)
  with Create_copies_layer [of sample_driver root_spec sample_world info w' "[''a'']"] run
  show ?thesis
    by (simp add: root_spec_def sample_tools is_int64_def plain_name_def volume_entry_def volumes_dir_def image_entry_def images_dir_def
        dir_names root_name_def) (simp add: fs_get_def sample_fs_def)
qed

end
