(* ===== verification/IdFinder.thy ===== *)
theory IdFinder
  imports Creation StoreManager
begin

text \<open>
  \<open>commands/idfinder/idfinder.go\<close>: from what the user names, an ID or the path of an image, to the ID.
  A path is matched against the regular expression that the store's path and \<open>images/(.*)\<close> make. The
  expression is not anchored, and the store's path is not quoted in it: its full stops match any
  character. A store path with another metacharacter of the expression syntax is outside this model,
  where it counts as the panic of \<open>MustCompile\<close>. Texts are matched byte by byte.
\<close>

section \<open>The code\<close>

text \<open>The text of an expression that consists of characters, full stops and the group at its end.\<close>

definition group_text :: string where
  "group_text = ''(.*)''"

definition newline :: char where
  "newline = CHR 0x0A"

definition char_matches :: "char \<Rightarrow> char \<Rightarrow> bool" where
  "char_matches c d \<longleftrightarrow> (if c = CHR ''.'' then d \<noteq> newline else d = c)"

fun match_here :: "string \<Rightarrow> string \<Rightarrow> string option" where
  "match_here p [] = (if p = group_text then Some [] else None)"
| "match_here p (d # s) =
     (if p = group_text then Some (takeWhile (\<lambda>x. x \<noteq> newline) (d # s))
      else (case p of [] \<Rightarrow> None | c # p' \<Rightarrow> if char_matches c d then match_here p' s else None))"

text \<open>\<open>FindStringSubmatch\<close>: the leftmost match; the result is the text of the group.\<close>

fun find_submatch :: "string \<Rightarrow> string \<Rightarrow> string option" where
  "find_submatch p [] = match_here p []"
| "find_submatch p (d # s) =
     (case match_here p (d # s) of Some g \<Rightarrow> Some g | None \<Rightarrow> find_submatch p s)"

definition plain_pattern :: "string \<Rightarrow> bool" where
  "plain_pattern s \<longleftrightarrow> list_all (\<lambda>c. c \<notin> set (CHR 0x5C # ''+*?()|[]{}^$'')) s"

definition exists_path :: "string \<Rightarrow> bool io" where
  "exists_path image_path = do {
     st \<leftarrow> os_Stat image_path;
     State_Monad.return (case st of Inl err \<Rightarrow> \<not> IsNotExist err | Inr _ \<Rightarrow> True)
   }"

definition image_of :: "string \<Rightarrow> string \<Rightarrow> error + string \<times> string" where
  "image_of store pathOrID =
     (if \<not> has_prefix pathOrID ''/'' then Inr (pathOrID, Join [store, ImageDirName, pathOrID])
      else if \<not> plain_pattern (Join [store, ImageDirName]) then Inl (Panic ''regexp'')
      else (case find_submatch (Join [store, ImageDirName, group_text]) pathOrID of
              None \<Rightarrow> Inl (Plain (''path `'' @ pathOrID @ ''` is outside store path''))
            | Some imageID \<Rightarrow> Inr (imageID, pathOrID)))"

definition FindID :: "string \<Rightarrow> string \<Rightarrow> (error + string) io" where
  "FindID store pathOrID =
     or_return (State_Monad.return (image_of store pathOrID)) id (\<lambda>(imageID, image_path). do {
       found \<leftarrow> exists_path image_path;
       if \<not> found then fail (Plain (''Image `'' @ imageID @ ''` not found. Skipping delete.''))
       else ok imageID
     })"

section \<open>Matching\<close>

lemma match_prefix:
  "list_all2 char_matches p q \<Longrightarrow> CHR ''('' \<notin> set p \<Longrightarrow> match_here (p @ group_text) (q @ s) = Some (takeWhile (\<lambda>x. x \<noteq> newline) s)"
proof (induction rule: list_all2_induct)
  case Nil
  show ?case by (cases s) (simp_all add: group_text_def)
next
  case (Cons c p d q)
  then show ?case by (simp add: group_text_def)
qed

lemma match_start: "match_here p s = Some g \<Longrightarrow> find_submatch p s = Some g"
  by (cases s) simp_all

lemma char_matches_refl: "newline \<notin> set p \<Longrightarrow> list_all2 char_matches p p"
  by (induction p) (auto simp: char_matches_def)

lemma exists_path_evolves [evolves_rules]:
  "evolves (within E X) (exists_path p)" "evolves same_env (exists_path p)" "evolves same_locks (exists_path p)"
  unfolding exists_path_def by (intro evolves_rules)+

lemma FindID_evolves [evolves_rules]:
  "evolves (within E X) (FindID s p)" "evolves same_env (FindID s p)" "evolves same_locks (FindID s p)"
  unfolding FindID_def case_prod_beta by (intro evolves_rules)+

lemma FindID_run: "\<exists>r. run_state (FindID store p) w = (r, w) \<or> run_state (FindID store p) w = (r, tick w)"
  using Stat_tick [of "snd (projr (image_of store p))" w]
  by (auto simp: FindID_def exists_path_def split: sum.splits prod.splits)

lemma FindID_fs: "run_state (FindID store p) w = (r, w') \<Longrightarrow> w_fs w' = w_fs w \<and> w_env w' = w_env w"
  using FindID_run [of store p w] by auto

lemma FindID_Inr: "run_state (FindID store p) w = (Inr i, w') \<Longrightarrow> \<exists>q. image_of store p = Inr (i, q)"
  by (auto simp: FindID_def exists_path_def split: sum.splits prod.splits if_splits)

text \<open>The path that belongs to an ID gives the ID.\<close>

lemma image_of_path:
  assumes "clean_abs store" and "plain_pattern store" and "plain_name i" and "newline \<notin> set (store @ i)"
  shows "image_of store (Join [store, ImageDirName, i]) = Inr (i, Join [store, ImageDirName, i])"
proof -
  let ?p = "store @ ''/'' @ ImageDirName @ ''/''"
  have group: "plain_name group_text" by (simp add: plain_name_def group_text_def)
  have p: "Join [store, ImageDirName, i] = ?p @ i" "Join [store, ImageDirName, group_text] = ?p @ group_text"
    "Join [store, ImageDirName] = store @ ''/'' @ ImageDirName"
    using assms(1,3) group by (simp_all add: Join_plain2 Join_plain3)
  have pat: "plain_pattern (Join [store, ImageDirName])"
    using assms(2) p(3) by (auto simp: ImageDirName_def plain_pattern_def)
  have "newline \<notin> set ?p" "CHR ''('' \<notin> set ?p"
    using assms(2,4) p(3) by (auto simp: newline_def ImageDirName_def plain_pattern_def list_all_iff)
  with match_prefix [OF char_matches_refl, of ?p i]
  have "find_submatch (Join [store, ImageDirName, group_text]) (Join [store, ImageDirName, i]) = Some (takeWhile (\<lambda>x. x \<noteq> newline) i)"
    unfolding p by (intro match_start) simp
  moreover have "takeWhile (\<lambda>x. x \<noteq> newline) i = i" using assms(4) by (auto simp: takeWhile_eq_all_conv)
  moreover have "has_prefix (?p @ i) ''/''" using clean_abs_rooted [OF assms(1)] by (cases store) (auto simp: rooted_def has_prefix_def)
  ultimately show ?thesis using pat unfolding image_of_def p by simp
qed

section \<open>Properties\<close>

text \<open>C35. Every path that the command list prints is accepted by delete and stats as the image it names: the
  ID found for the path is the name of the image's directory.\<close>

theorem FindID_listed:
  assumes "run_state (Lister_List store) w = (Inr paths, w1)" and "p \<in> set paths" and "quiet w" and "fair_order (w_env w)"
    and "clean_abs store" and "plain_pattern store" and "newline \<notin> set store" and "newline \<notin> set p"
  shows "\<exists>i w2. p = Join [store, ImageDirName, i] \<and> has_image store w i \<and> run_state (FindID store p) w1 = (Inr i, w2)"
proof -
  have list: "run_state (file_Readdir (Join [store, ImageDirName])) (tick w) = (Inr (e_order (w_env w) (fs_children (images_dir store) (w_fs w))), w1)"
    and paths: "paths = map (\<lambda>f. Join [Join [store, ImageDirName], f]) (e_order (w_env w) (fs_children (images_dir store) (w_fs w)))"
    and w1: "w1 = tick (tick w)"
    using assms(1,3)
    by (auto simp: Lister_List_def listDirs_def os_Open_def file_Readdir_def syscall_def quiet_def k_read_dir_def images_dir_def
        split: sum.splits option.splits if_splits)
  from assms(2,4) paths obtain i where i: "plain_name i" "fs_get (w_fs w) (images_dir store @ [i]) \<noteq> None"
    "p = Join [Join [store, ImageDirName], i]"
    by (auto simp: fair_order_def set_fs_children)
  have p: "p = Join [store, ImageDirName, i]"
    using Join_plain2 [OF clean_abs_Join2 [OF assms(5)] i(1), of ImageDirName] i(3) assms(5) i(1)
    by (simp add: Join_plain2 Join_plain3)
  have "newline \<notin> set i" using assms(5,8) p i(1) by (simp add: Join_plain3)
  with image_of_path [OF assms(5,6) i(1)] assms(7) p have "image_of store p = Inr (i, p)" by simp
  moreover have "resolve p = images_dir store @ [i]" using i(1) by (simp add: p images_dir_def)
  ultimately have "run_state (FindID store p) w1 = (Inr i, tick w1)"
    using i(2) assms(3)
    by (auto simp: FindID_def exists_path_def os_Stat_def syscall_def quiet_def w1 k_stat_def k_lookup_def split: option.splits)
  then show ?thesis using p i(2) by (auto simp: has_image_def)
qed

theorem FindID_listed_witness:
  "\<exists>i w2. ''/s/images/i'' = Join [''/s'', ImageDirName, i] \<and> has_image ''/s'' sample_world i \<and>
     run_state (FindID ''/s'' ''/s/images/i'') (snd (run_state (Lister_List ''/s'') sample_world)) = (Inr i, w2)"
proof -
  have list: "fst (run_state (Lister_List ''/s'') sample_world) = Inr [''/s/images/i'']" by code_simp
  have "clean_abs ''/s''" "plain_pattern ''/s''" by code_simp+
  with FindID_listed [of "''/s''" sample_world "[''/s/images/i'']" _ "''/s/images/i''", OF _ _ _ sample_fair [folded sample_world_sel(1)]] list
  show ?thesis by (auto simp: prod_eq_iff newline_def)
qed

text \<open>Two paths that are accepted and should not be: the expression is not anchored, and the group takes
  everything. A path of another store names an image of this one, and the path of the directory of all images has an
  ID as well, the empty one.\<close>

lemma FindID_unanchored:
  "image_of ''/s'' ''/other/s/images/i'' = Inr (''i'', ''/other/s/images/i'')"
  "image_of ''/s'' ''/s/images/'' = Inr ([], ''/s/images/'')"
  "image_of ''/s'' ''/s/images/i/../..'' = Inr (''i/../..'', ''/s/images/i/../..'')"
  by code_simp+

end
