(* ===== verification/Commands.thy ===== *)
theory Commands
  imports ImageLaws IdFinder StoreManager
begin

text \<open>
  The commands of \<open>commands/\<close>: what each does with its arguments and flags, from the configuration it
  builds to the exit code. The library \<open>urfave/cli\<close> is a parameter: a command gets its context as a
  record of the parsed arguments and flags and returns how it ended. Logging is left out. Third-party
  parsers are parameters too: of URLs, of errors of the registry and of the user database.
\<close>

section \<open>Contexts and outcomes\<close>

record Context =
  ctx_Args :: "string list"
  ctx_Usage :: string                     \<comment> \<open>\<open>Command.Usage\<close>\<close>
  ctx_Int64 :: "string \<Rightarrow> int"
  ctx_Bool :: "string \<Rightarrow> bool"
  ctx_String :: "string \<Rightarrow> string"
  ctx_StringSlice :: "string \<Rightarrow> string list"
  ctx_IsSet :: "string \<Rightarrow> bool"

datatype outcome =
    Done
  | ExitError string int      \<comment> \<open>message and exit code\<close>
  | PlainError error          \<comment> \<open>an error that is not an exit error\<close>
  | Crash error               \<comment> \<open>the process panics\<close>

text \<open>\<open>newErrorHandler\<close>: the run is counted as failed after the error was emitted.\<close>

definition newErrorHandler :: "string \<Rightarrow> string \<Rightarrow> int \<Rightarrow> outcome io" where
  "newErrorHandler action message exitCode = do {
     let err = Plain message;
     _ \<leftarrow> TryEmitError action err exitCode;
     _ \<leftarrow> TryIncrementRunCount action (Some err);
     State_Monad.return (ExitError message exitCode)
   }"

definition NewExitError :: "string \<Rightarrow> int \<Rightarrow> outcome io" where
  "NewExitError message exitCode = State_Monad.return (ExitError message exitCode)"

text \<open>\<open>if err != nil { return handle(err) }\<close>; a panic is not an error and passes by.\<close>

definition or_exit :: "(error + 'a) io \<Rightarrow> (error \<Rightarrow> outcome io) \<Rightarrow> ('a \<Rightarrow> outcome io) \<Rightarrow> outcome io" where
  "or_exit m handle k = do {
     r \<leftarrow> m;
     (case r of
        Inl err \<Rightarrow> if is_panic (Cause err) then State_Monad.return (Crash err) else handle err
      | Inr x \<Rightarrow> k x)
   }"

definition println :: "string \<Rightarrow> unit io" where
  "println s = write_stdout (s @ [newline])"

section \<open>helpers.go\<close>

definition createImageDriver :: "Config \<Rightarrow> Driver \<Rightarrow> Driver" where
  "createImageDriver cfg fsDriver = fsDriver"

fun cmd_parseIDMappings :: "string list \<Rightarrow> error + IDMappingSpec list" where
  "cmd_parseIDMappings [] = Inr []"
| "cmd_parseIDMappings (v # args) =
     (case sscanf3 v of
        None \<Rightarrow> Inl (Plain ''input does not match format'')
      | Some (nsid, hostid, sz) \<Rightarrow>
          (case cmd_parseIDMappings args of
             Inl err \<Rightarrow> Inl err
           | Inr mappings \<Rightarrow> Inr (\<lparr>HostID = hostid, NamespaceID = nsid, Size = sz\<rparr> # mappings)))"

definition atoi_error :: "string \<Rightarrow> error" where
  "atoi_error s =
     (let ds = (case s of [] \<Rightarrow> [] | c # cs \<Rightarrow> if c = CHR ''-'' \<or> c = CHR ''+'' then cs else s) in
      Plain (''strconv.Atoi: parsing '' @ [quote_c] @ s @ [quote_c] @
        (if ds \<noteq> [] \<and> list_all is_digit ds then '': value out of range'' else '': invalid syntax'')))"

text \<open>The lines of \<open>/etc/subuid\<close>: an entry of the name with fewer than three parts is an index out of range.\<close>

fun sub_id_lines :: "string \<Rightarrow> string list \<Rightarrow> error + IDMappingSpec list" where
  "sub_id_lines name [] = Inr []"
| "sub_id_lines name (line # rest) =
     (let entry = split_on (CHR '':'') line in
      if hd entry \<noteq> name then sub_id_lines name rest
      else if length entry < 2 then Inl (Panic ''index out of range'')
      else (case atoi (entry ! 1) of
              None \<Rightarrow> Inl (atoi_error (entry ! 1))
            | Some hostID \<Rightarrow>
                if length entry < 3 then Inl (Panic ''index out of range'')
                else (case atoi (entry ! 2) of
                        None \<Rightarrow> Inl (atoi_error (entry ! 2))
                      | Some sz \<Rightarrow>
                          (case sub_id_lines name rest of
                             Inl err \<Rightarrow> Inl err
                           | Inr mappings \<Rightarrow> Inr (\<lparr>HostID = hostID, NamespaceID = 1, Size = sz\<rparr> # mappings)))))"

definition readSubIDMapping :: "string \<Rightarrow> int \<Rightarrow> string \<Rightarrow> (error + IDMappingSpec list) io" where
  "readSubIDMapping name i subidPath =
     or_return (ioutil_ReadFile subidPath) id (\<lambda>contents.
     or_return (State_Monad.return (sub_id_lines name (Go_Strings.fields contents))) id (\<lambda>mappings.
     ok (\<lparr>HostID = i, NamespaceID = 0, Size = 1\<rparr> # mappings)))"

definition readSubUIDMapping :: "(string \<Rightarrow> error + int) \<Rightarrow> string \<Rightarrow> (error + IDMappingSpec list) io" where
  "readSubUIDMapping lookupUser username =
     or_return (State_Monad.return (lookupUser username)) id (\<lambda>uid. readSubIDMapping username uid ''/etc/subuid'')"

definition readSubGIDMapping :: "(string \<Rightarrow> error + int) \<Rightarrow> string \<Rightarrow> (error + IDMappingSpec list) io" where
  "readSubGIDMapping lookupGroup groupname =
     or_return (State_Monad.return (lookupGroup groupname)) id (\<lambda>gid. readSubIDMapping groupname gid ''/etc/subgid'')"

section \<open>Shared parts of the commands\<close>

definition command_gc :: "driver_ops \<Rightarrow> Driver \<Rightarrow> GarbageCollector" where
  "command_gc ops d =
     NewGC ops (ImageIDs (NewImageCloner (btrfs_ops d) (storePath d))) (Dependencies (store_registry (storePath d)))"

text \<open>The deferred function of \<open>create\<close>, \<open>clean\<close> and \<open>delete\<close>.\<close>

definition emit_unused :: "GarbageCollector \<Rightarrow> StoreMeasurer \<Rightarrow> unit io" where
  "emit_unused gc sm = do {
     r \<leftarrow> UnusedVolumes gc [];
     (case r of
        Inl _ \<Rightarrow> State_Monad.return ()
      | Inr unusedVols \<Rightarrow> do {
          size \<leftarrow> CacheUsage sm unusedVols;
          TryEmitUsage ''UnusedLayersSize'' size ''bytes''
        })
   }"

definition deferring :: "unit io \<Rightarrow> outcome io \<Rightarrow> outcome io" where
  "deferring f m = do { r \<leftarrow> m; _ \<leftarrow> f; State_Monad.return r }"

definition no_store :: "string \<Rightarrow> bool io" where
  "no_store store = do {
     st \<leftarrow> os_Stat store;
     State_Monad.return (case st of Inl err \<Rightarrow> IsNotExist err | Inr _ \<Rightarrow> False)
   }"

section \<open>clean.go\<close>

text \<open>What follows the clean-up: the run is counted only when something was done.\<close>

definition clean_report :: "StoreMeasurer \<Rightarrow> bool \<Rightarrow> outcome io" where
  "clean_report sm noop =
     (if noop then do { _ \<leftarrow> println ''threshold not reached: skipping clean''; State_Monad.return Done }
      else do {
        _ \<leftarrow> println ''clean completed'';
        or_exit (Usage sm) (\<lambda>err. newErrorHandler ''clean'' (error_text err) 1) (\<lambda>usage. do {
          _ \<leftarrow> TryIncrementRunCount ''clean'' None;
          _ \<leftarrow> TryEmitUsage ''StoreUsage'' usage ''bytes'';
          State_Monad.return Done
        })
      })"

definition clean_store :: "Config \<Rightarrow> IDMappings \<Rightarrow> outcome io" where
  "clean_store cfg idMappings =
     (let d = createFileSystemDriver cfg;
          nsFsDriver = commands_driver d idMappings (NewIDMapper (cf_NewuidmapBin cfg) (cf_NewgidmapBin cfg));
          sm = NewStoreMeasurer (storePath d) (btrfs_ops d);
          cleaner = IamCleaner (file_locksmith (NewExclusiveFileSystem (storePath d))) sm (command_gc nsFsDriver d)
      in deferring (emit_unused (command_gc nsFsDriver d) sm) (do {
        (noop, err) \<leftarrow> Cleaner.Clean cleaner (cf_ThresholdBytes cfg) [];
        (case err of
           Some err \<Rightarrow> newErrorHandler ''clean'' (error_text err) 1
         | None \<Rightarrow> clean_report sm noop)
      }))"

definition clean_command :: "Config \<Rightarrow> Context \<Rightarrow> outcome io" where
  "clean_command builder ctxt =
     (case Build (WithCleanThresholdBytes (ctx_Int64 ctxt ''threshold-bytes'') (ctx_IsSet ctxt ''threshold-bytes'') builder) of
        Inl err \<Rightarrow> newErrorHandler ''clean'' (error_text err) 1
      | Inr cfg \<Rightarrow> do {
          missing \<leftarrow> no_store (cf_StorePath cfg);
          if missing then newErrorHandler ''clean'' (''no store found at '' @ cf_StorePath cfg) 0
          else or_exit (Read (NewStoreNamespacer (cf_StorePath cfg))) (\<lambda>err. newErrorHandler ''clean'' (error_text err) 1)
                 (clean_store cfg)
        })"

section \<open>delete.go\<close>

definition delete_image :: "Config \<Rightarrow> string \<Rightarrow> outcome io" where
  "delete_image cfg i =
     (let d = createFileSystemDriver cfg;
          imageCloner = NewImageCloner (btrfs_ops (createImageDriver cfg d)) (storePath d);
          deleter = IamDeleter imageCloner (store_registry (storePath d));
          sm = NewStoreMeasurer (storePath d) (btrfs_ops d)
      in deferring (emit_unused (command_gc (btrfs_ops d) d) sm)
        (or_exit (Delete deleter i) (\<lambda>err. newErrorHandler ''delete'' (error_text err) 1) (\<lambda>_. do {
           _ \<leftarrow> println (''Image '' @ i @ '' deleted'');
           _ \<leftarrow> TryIncrementRunCount ''delete'' None;
           State_Monad.return Done
         })))"

text \<open>An image that is not found is not an error.\<close>

definition delete_command :: "Config \<Rightarrow> Context \<Rightarrow> outcome io" where
  "delete_command builder ctxt =
     (case ctx_Args ctxt of
        [idOrPath] \<Rightarrow>
          (case Build builder of
             Inl err \<Rightarrow> newErrorHandler ''delete'' (error_text err) 1
           | Inr cfg \<Rightarrow>
               or_exit (FindID (cf_StorePath cfg) idOrPath)
                 (\<lambda>err. do { _ \<leftarrow> println (error_text err); State_Monad.return Done })
                 (delete_image cfg))
      | _ \<Rightarrow> newErrorHandler ''delete'' ''id was not specified'' 1)"

section \<open>delete_store.go and init_store.go\<close>

text \<open>The manager of \<open>delete-store\<close> gets no namespacer; calling it would be a nil dereference.\<close>

definition no_namespacer :: "IDMappingSpec list \<Rightarrow> IDMappingSpec list \<Rightarrow> (error + unit) io" where
  "no_namespacer us gs = fail (Panic ''nil pointer dereference'')"

definition command_manager ::
  "(IDMappingSpec list \<Rightarrow> IDMappingSpec list \<Rightarrow> (error + unit) io) \<Rightarrow> Config \<Rightarrow> Manager" where
  "command_manager namespacer cfg =
     (let d = createFileSystemDriver cfg in
      StoreManager.New (cf_StorePath cfg) namespacer (btrfs_ops d) (btrfs_ops d) (btrfs_store_ops d))"

definition delete_store_command :: "Config \<Rightarrow> Context \<Rightarrow> outcome io" where
  "delete_store_command builder ctxt =
     (case Build builder of
        Inl err \<Rightarrow> NewExitError (error_text err) 1
      | Inr cfg \<Rightarrow>
          or_exit (DeleteStore (command_manager no_namespacer cfg) (file_locksmith (NewSharedFileSystem (cf_StorePath cfg))))
            (\<lambda>err. NewExitError (error_text err) 1) (\<lambda>_. State_Monad.return Done))"

definition init_store :: "Config \<Rightarrow> IDMappingSpec list \<Rightarrow> IDMappingSpec list \<Rightarrow> outcome io" where
  "init_store cfg uidMappings gidMappings =
     (let spec = \<lparr>in_UIDMappings = uidMappings, in_GIDMappings = gidMappings, in_StoreSizeBytes = cf_StoreSizeBytes cfg\<rparr>;
          manager = command_manager (ApplyMappings (NewStoreNamespacer (cf_StorePath cfg))) cfg
      in or_exit (InitStore manager spec) (\<lambda>err. NewExitError (error_text (Cause err)) 1) (\<lambda>_. State_Monad.return Done))"

definition init_store_command :: "Config \<Rightarrow> Context \<Rightarrow> outcome io" where
  "init_store_command builder ctxt =
     (if ctx_Args ctxt \<noteq> [] then NewExitError (''invalid arguments - usage: '' @ ctx_Usage ctxt) 1
      else (case Build (WithStoreSizeBytes (ctx_Int64 ctxt ''store-size-bytes'') builder) of
        Inl err \<Rightarrow> NewExitError (error_text err) 1
      | Inr cfg \<Rightarrow> do {
          uid \<leftarrow> os_Getuid;
          if uid \<noteq> 0 then NewExitError (''store '' @ cf_StorePath cfg @ '' can only be initialized by Root user'') 1
          else (case cmd_parseIDMappings (ctx_StringSlice ctxt ''uid-mapping'') of
              Inl err \<Rightarrow> NewExitError (''parsing uid-mapping: '' @ error_text err) 1
            | Inr uidMappings \<Rightarrow>
                (case cmd_parseIDMappings (ctx_StringSlice ctxt ''gid-mapping'') of
                   Inl err \<Rightarrow> NewExitError (''parsing gid-mapping: '' @ error_text err) 1
                 | Inr gidMappings \<Rightarrow> init_store cfg uidMappings gidMappings))
        }))"

section \<open>list.go\<close>

fun print_lines :: "string list \<Rightarrow> unit io" where
  "print_lines [] = State_Monad.return ()"
| "print_lines (img # rest) = do { _ \<leftarrow> println img; print_lines rest }"

definition list_command :: "Config \<Rightarrow> Context \<Rightarrow> outcome io" where
  "list_command builder ctxt =
     (case Build builder of
        Inl err \<Rightarrow> NewExitError (error_text err) 1
      | Inr cfg \<Rightarrow> do {
          missing \<leftarrow> no_store (cf_StorePath cfg);
          if missing then NewExitError (''no store found at '' @ cf_StorePath cfg) 1
          else or_exit (Lister_List (cf_StorePath cfg))
            (\<lambda>err. NewExitError (''Failed to retrieve list of images: '' @ error_text err) 1) (\<lambda>images. do {
              _ \<leftarrow> (if images = [] then println ''Store empty'' else State_Monad.return ());
              _ \<leftarrow> print_lines images;
              State_Monad.return Done
            })
        })"

section \<open>stats.go\<close>

definition stats_json :: "VolumeStats \<Rightarrow> json" where
  "stats_json s = JObj [(''disk_usage'',
     JObj [(''total_bytes_used'', JNum (du_TotalBytesUsed (vs_DiskUsage s))),
           (''exclusive_bytes_used'', JNum (du_ExclusiveBytesUsed (vs_DiskUsage s)))])]"

definition stats_of :: "Config \<Rightarrow> string \<Rightarrow> outcome io" where
  "stats_of cfg i =
     (let d = createFileSystemDriver cfg in
      or_exit (Statser_Stats (NewImageCloner (btrfs_ops d) (cf_StorePath cfg)) i)
        (\<lambda>err. newErrorHandler ''stats'' (error_text err) 1) (\<lambda>stats. do {
          _ \<leftarrow> write_stdout (json_encode (stats_json stats));
          _ \<leftarrow> TryIncrementRunCount ''stats'' None;
          State_Monad.return Done
        }))"

definition stats_command :: "Config \<Rightarrow> Context \<Rightarrow> outcome io" where
  "stats_command builder ctxt =
     (case ctx_Args ctxt of
        [idOrPath] \<Rightarrow>
          (case Build builder of
             Inl err \<Rightarrow> newErrorHandler ''stats'' (error_text err) 1
           | Inr cfg \<Rightarrow>
               or_exit (FindID (cf_StorePath cfg) idOrPath) (\<lambda>err. newErrorHandler ''stats'' (error_text err) 1)
                 (stats_of cfg))
      | _ \<Rightarrow> newErrorHandler ''stats'' (''invalid arguments - usage: '' @ ctx_Usage ctxt) 1)"

section \<open>generate_metadata.go\<close>

text \<open>A volume whose size cannot be read for another reason than a missing file is passed over.\<close>

definition generate_meta :: "driver_ops \<Rightarrow> string \<Rightarrow> (error + unit) io" where
  "generate_meta driver volumeID = do {
     r \<leftarrow> dr_VolumeSize driver volumeID;
     (case (case r of Inl err \<Rightarrow> IsNotExist (Cause err) | Inr _ \<Rightarrow> False) of
        False \<Rightarrow> ok ()
      | True \<Rightarrow>
          or_return (dr_VolumePath driver volumeID) id (\<lambda>volumePath.
          or_return (CalculatePathSize volumePath) id (\<lambda>size.
          dr_WriteVolumeMeta driver volumeID \<lparr>vm_Size = size\<rparr>)))
   }"

fun generate_metas :: "driver_ops \<Rightarrow> string list \<Rightarrow> (error + unit) io" where
  "generate_metas driver [] = ok ()"
| "generate_metas driver (volumeID # rest) =
     or_return (generate_meta driver volumeID) id (\<lambda>_. generate_metas driver rest)"

definition generate_metadata_command :: "Config \<Rightarrow> Context \<Rightarrow> outcome io" where
  "generate_metadata_command builder ctxt =
     (if ctx_Args ctxt \<noteq> [] then NewExitError (''invalid arguments - usage: '' @ ctx_Usage ctxt) 1
      else (case Build builder of
        Inl err \<Rightarrow> State_Monad.return (PlainError err)
      | Inr cfg \<Rightarrow>
          (let driver = btrfs_ops (createFileSystemDriver cfg) in
           or_exit (or_return (dr_Volumes driver) id (generate_metas driver))
             (\<lambda>err. State_Monad.return (PlainError err)) (\<lambda>_. State_Monad.return Done))))"

section \<open>create.go\<close>

text \<open>
  The type switch on errors of the HTTP client and of the registry's protocol, whose types are
  not part of the program: which errors are a \<open>url.Error\<close> around an unknown authority, and which
  are a list of registry errors, by their codes.
\<close>

record error_kinds =
  ek_UnknownAuthority :: "error \<Rightarrow> bool"
  ek_DockerErrors :: "error \<Rightarrow> string list option"

definition ErrorCodeUnauthorized :: string where
  "ErrorCodeUnauthorized = ''UNAUTHORIZED''"

definition containsDockerError :: "string list \<Rightarrow> string \<Rightarrow> bool" where
  "containsDockerError errorsList errCode = list_ex (\<lambda>e. e = errCode) errorsList"

definition tryHumanizeDockerErrorsList :: "string list \<Rightarrow> error \<Rightarrow> CreateSpec \<Rightarrow> string" where
  "tryHumanizeDockerErrorsList codes err spec =
     (if containsDockerError codes ErrorCodeUnauthorized
      then url_String (cs_BaseImageURL spec) @ '' does not exist or you do not have permissions to see it.''
      else error_text err)"

text \<open>
  The unanchored expression \<^verbatim>\<open>fetching image reference: .*: no such file or directory\<close>; a full stop does
  not match a line feed.
\<close>

fun contains_then :: "string \<Rightarrow> string \<Rightarrow> string \<Rightarrow> bool" where
  "contains_then a b [] = (a = [] \<and> b = [])"
| "contains_then a b (c # cs) =
     (prefix a (c # cs) \<and> contains (drop (length a) (c # cs)) b \<or> contains_then a b cs)"

definition missing_reference :: "string \<Rightarrow> bool" where
  "missing_reference s =
     list_ex (contains_then ''fetching image reference: '' '': no such file or directory'') (split_on newline s)"

definition tryParsingErrorMessage :: "error \<Rightarrow> error" where
  "tryParsingErrorMessage err =
     (let newErr = Cause err in
      if error_text newErr = ''unable to retrieve auth token: 401 unauthorized''
      then Plain ''authorization failed: username and password are invalid''
      else if error_text newErr = ''directory provided instead of a tar file''
      then Plain (''invalid base image: '' @ error_text newErr)
      else if missing_reference (error_text err) then Plain (''Image source doesn'' @ [CHR 0x27] @ ''t exist'')
      else err)"

definition tryHumanize :: "error_kinds \<Rightarrow> error \<Rightarrow> CreateSpec \<Rightarrow> string" where
  "tryHumanize kinds err spec =
     (case ek_DockerErrors kinds (Cause err) of
        Some codes \<Rightarrow> tryHumanizeDockerErrorsList codes (Cause err) spec
      | None \<Rightarrow>
          if ek_UnknownAuthority kinds (Cause err)
          then ''This registry is insecure. To pull images from this registry, please use the --insecure-registry option.''
          else error_text (tryParsingErrorMessage err))"

definition validateOptions :: "Context \<Rightarrow> error option" where
  "validateOptions ctxt =
     (if ctx_IsSet ctxt ''with-clean'' \<and> ctx_IsSet ctxt ''without-clean''
      then Some (Plain ''with-clean and without-clean cannot be used together'') else None)"

definition create_flags :: "Context \<Rightarrow> Config \<Rightarrow> Config" where
  "create_flags ctxt =
     WithMount (ctx_IsSet ctxt ''with-mount'') (ctx_IsSet ctxt ''without-mount'') \<circ>
     WithClean (ctx_IsSet ctxt ''with-clean'') (ctx_IsSet ctxt ''without-clean'') \<circ>
     WithCleanThresholdBytes (ctx_Int64 ctxt ''threshold-bytes'') (ctx_IsSet ctxt ''threshold-bytes'') \<circ>
     WithSkipLayerValidation (ctx_Bool ctxt ''skip-layer-validation'') (ctx_IsSet ctxt ''skip-layer-validation'') \<circ>
     WithExcludeImageFromQuota (ctx_Bool ctxt ''exclude-image-from-quota'') (ctx_IsSet ctxt ''exclude-image-from-quota'') \<circ>
     WithDiskLimitSizeBytes (ctx_Int64 ctxt ''disk-limit-size-bytes'') (ctx_IsSet ctxt ''disk-limit-size-bytes'') \<circ>
     WithInsecureRegistries (ctx_StringSlice ctxt ''insecure-registry'')"

definition create_spec :: "Config \<Rightarrow> IDMappings \<Rightarrow> URL \<Rightarrow> string \<Rightarrow> CreateSpec" where
  "create_spec cfg idMappings baseImageURL i =
     \<lparr>cs_ID = i, cs_BaseImageURL = baseImageURL, cs_DiskLimit = cc_DiskLimitSizeBytes (cf_Create cfg),
      cs_Mount = \<not> cc_WithoutMount (cf_Create cfg),
      cs_ExcludeBaseImageFromQuota = cc_ExcludeImageFromQuota (cf_Create cfg),
      cs_CleanOnCreate = cc_WithClean (cf_Create cfg), cs_CleanOnCreateThresholdBytes = cf_ThresholdBytes cfg,
      cs_UIDMappings = im_UIDMappings idMappings, cs_GIDMappings = im_GIDMappings idMappings\<rparr>"

text \<open>The container specification as \<open>json.Marshal\<close> writes it: fields marked \<open>omitempty\<close> go when empty.\<close>

definition omit_empty :: "string \<Rightarrow> string \<Rightarrow> (string \<times> json) list" where
  "omit_empty k s = (if s = [] then [] else [(k, JStr s)])"

definition omit_empty_list :: "string \<Rightarrow> json list \<Rightarrow> (string \<times> json) list" where
  "omit_empty_list k js = (if js = [] then [] else [(k, JArr js)])"

definition mount_json :: "MountInfo \<Rightarrow> json" where
  "mount_json m = JObj ((''destination'', JStr (mi_Destination m)) # omit_empty ''type'' (mi_Type m) @
     omit_empty ''source'' (mi_Source m) @ omit_empty_list ''options'' (map JStr (mi_Options m)))"

definition container_spec :: "ImageInfo \<Rightarrow> json" where
  "container_spec img = JObj ([(''ociVersion'', JStr []),
      (''process'', JObj ((''user'', JObj [(''uid'', JNum 0), (''gid'', JNum 0)]) # (''args'', JNull) #
         omit_empty_list ''env'' (map JStr (img_Env (ii_Image img))) @ [(''cwd'', JStr [])])),
      (''root'', JObj [(''path'', JStr (ii_Rootfs img))])] @
      omit_empty_list ''mounts'' (map mount_json (ii_Mounts img)))"

definition create_report :: "StoreMeasurer \<Rightarrow> ImageInfo \<Rightarrow> outcome io" where
  "create_report sm img = do {
     _ \<leftarrow> println (json_print (container_spec img));
     or_exit (Usage sm) (\<lambda>err. newErrorHandler ''create'' (error_text err) 1) (\<lambda>usage. do {
       _ \<leftarrow> TryIncrementRunCount ''create'' None;
       _ \<leftarrow> TryEmitUsage ''StoreUsage'' usage ''bytes'';
       State_Monad.return Done
     })
   }"

text \<open>
  From the mappings on. The unpacker is chosen by the user ID; \<open>command_creator\<close> holds the choice, and
  a failure of the constructor ends the command before.
\<close>

definition create_in_store ::
  "(SystemContext \<Rightarrow> image_service) \<Rightarrow> error_kinds \<Rightarrow> Context \<Rightarrow> Config \<Rightarrow> URL \<Rightarrow> string \<Rightarrow> IDMappings \<Rightarrow> outcome io" where
  "create_in_store service kinds ctxt cfg baseImageURL i idMappings = do {
     uid \<leftarrow> os_Getuid;
     let d = createFileSystemDriver cfg;
     let idMapper = NewIDMapper (cf_NewuidmapBin cfg) (cf_NewgidmapBin cfg);
     or_exit (State_Monad.return (createUnpacker uid idMapper (unpacker_strategy (cf_StorePath cfg))))
       (\<lambda>err. newErrorHandler ''create'' (error_text err) 1) (\<lambda>_.
     let systemContext = createSystemContext baseImageURL (cf_Create cfg) (ctx_String ctxt ''username'') (ctx_String ctxt ''password'');
         sm = NewStoreMeasurer (storePath d) (btrfs_ops d);
         creator = command_creator service uid d idMappings idMapper systemContext (cf_Create cfg) baseImageURL;
         createSpec = create_spec cfg idMappings baseImageURL i
     in deferring (emit_unused (command_gc (commands_driver d idMappings idMapper) d) sm)
       (or_exit (Creation.Create creator createSpec)
          (\<lambda>err. newErrorHandler ''create'' (tryHumanize kinds err createSpec) 1) (create_report sm)))
   }"

definition create_command ::
  "(string \<Rightarrow> error + URL) \<Rightarrow> (SystemContext \<Rightarrow> image_service) \<Rightarrow> error_kinds \<Rightarrow> Config \<Rightarrow> Context \<Rightarrow> outcome io" where
  "create_command parse_url service kinds builder ctxt =
     (case ctx_Args ctxt of
        [baseImage, i] \<Rightarrow>
          (case Build (create_flags ctxt builder) of
             Inl err \<Rightarrow> newErrorHandler ''create'' (error_text err) 1
           | Inr cfg \<Rightarrow>
               (case validateOptions ctxt of
                  Some err \<Rightarrow> newErrorHandler ''create'' (error_text err) 1
                | None \<Rightarrow>
                    (case parse_url baseImage of
                       Inl err \<Rightarrow> newErrorHandler ''create'' (error_text err) 1
                     | Inr baseImageURL \<Rightarrow> do {
                         initialized \<leftarrow> IsStoreInitialized (command_manager (ApplyMappings (NewStoreNamespacer (cf_StorePath cfg))) cfg);
                         if \<not> initialized
                         then newErrorHandler ''create'' ''Store path is not initialized. Please run init-store.'' 1
                         else or_exit (Read (NewStoreNamespacer (cf_StorePath cfg)))
                           (\<lambda>err. newErrorHandler ''create'' (error_text err) 1)
                           (create_in_store service kinds ctxt cfg baseImageURL i)
                       })))
      | _ \<Rightarrow> newErrorHandler ''create'' (''invalid arguments - usage: '' @ ctx_Usage ctxt) 1)"

end
