(* ===== verification/GrootApp.thy ===== *)
theory GrootApp
  imports Commands
begin

text \<open>
  \<open>main.go\<close>: the global flags, the configuration that every command starts from, the logger and the
  list of commands. Flag parsing and the dispatch are the library's; \<open>run_app\<close> says which command
  belongs to which name. The sink of the metrics is not modelled.
\<close>

section \<open>The code\<close>

definition defaultDraxBin :: string where "defaultDraxBin = ''drax''"
definition defaultNewuidmapBin :: string where "defaultNewuidmapBin = ''newuidmap''"
definition defaultNewgidmapBin :: string where "defaultNewgidmapBin = ''newgidmap''"

text \<open>The values of the global flags that were not given.\<close>

definition flag_default :: "string \<Rightarrow> string" where
  "flag_default flag =
     (if flag = ''store'' then DefaultStorePath else if flag = ''log-level'' then ''fatal''
      else if flag = ''drax-bin'' then defaultDraxBin else if flag = ''newuidmap-bin'' then defaultNewuidmapBin
      else if flag = ''newgidmap-bin'' then defaultNewgidmapBin else [])"

datatype LogLevel = DEBUG | INFO | ERROR | FATAL

definition to_upper :: "char \<Rightarrow> char" where
  "to_upper c = (let n = of_char c in if (97::nat) \<le> n \<and> n \<le> 122 then char_of (n - 32) else c)"

definition translateLogLevel :: "string \<Rightarrow> LogLevel" where
  "translateLogLevel logLevel =
     (let u = map to_upper logLevel in
      if u = ''DEBUG'' then DEBUG else if u = ''INFO'' then INFO else if u = ''ERROR'' then ERROR else FATAL)"

text \<open>The level of the logger; a log file is opened, or made.\<close>

definition configureLogger :: "LogLevel \<Rightarrow> string \<Rightarrow> (error + LogLevel) io" where
  "configureLogger logLevel logFile =
     (if logFile = [] then ok logLevel
      else or_return (os_OpenCreate logFile 0x1A4) id (\<lambda>_. ok (if logLevel = FATAL then INFO else logLevel)))"

definition global_flags :: "Context \<Rightarrow> Config \<Rightarrow> Config" where
  "global_flags ctxt =
     WithNewgidmapBin (ctx_String ctxt ''newgidmap-bin'') (ctx_IsSet ctxt ''newgidmap-bin'') \<circ>
     WithNewuidmapBin (ctx_String ctxt ''newuidmap-bin'') (ctx_IsSet ctxt ''newuidmap-bin'') \<circ>
     WithBtrfsProgsPath (ctx_String ctxt ''btrfs-progs-path'') (ctx_IsSet ctxt ''btrfs-progs-path'') \<circ>
     WithLogFile (ctx_String ctxt ''log-file'') \<circ>
     WithLogLevel (ctx_String ctxt ''log-level'') (ctx_IsSet ctxt ''log-level'') \<circ>
     WithMetronEndpoint (ctx_String ctxt ''metron-endpoint'') \<circ>
     WithDraxBin (ctx_String ctxt ''drax-bin'') (ctx_IsSet ctxt ''drax-bin'') \<circ>
     WithStorePath (ctx_String ctxt ''store'') (ctx_IsSet ctxt ''store'')"

text \<open>
  \<open>grootfs.Before\<close>: the result is the builder that the commands go on with. The directory for
  temporary files is \<open>store_temp\<close> of the store path, where the fetchers have it from.
\<close>

definition Before :: "(string \<Rightarrow> error + Config) \<Rightarrow> Context \<Rightarrow> (error + Config) io" where
  "Before unmarshal ctxt =
     or_return (NewBuilder unmarshal (ctx_String ctxt ''config'')) id (\<lambda>cfgBuilder.
     let builder = global_flags ctxt cfgBuilder in
     or_return (State_Monad.return (Build builder)) id (\<lambda>cfg.
     or_return (configureLogger (translateLogLevel (cf_LogLevel cfg)) (cf_LogFile cfg)) id (\<lambda>_.
     ok builder)))"

definition run_command ::
  "(string \<Rightarrow> error + URL) \<Rightarrow> (SystemContext \<Rightarrow> image_service) \<Rightarrow> error_kinds \<Rightarrow> string \<Rightarrow> Config \<Rightarrow> Context \<Rightarrow> outcome io" where
  "run_command parse_url service kinds name builder ctxt =
     (if name = ''init-store'' then init_store_command builder ctxt
      else if name = ''delete-store'' then delete_store_command builder ctxt
      else if name = ''generate-volume-size-metadata'' then generate_metadata_command builder ctxt
      else if name = ''create'' then create_command parse_url service kinds builder ctxt
      else if name = ''delete'' then delete_command builder ctxt
      else if name = ''stats'' then stats_command builder ctxt
      else if name = ''clean'' then clean_command builder ctxt
      else list_command builder ctxt)"

definition run_app ::
  "(string \<Rightarrow> error + Config) \<Rightarrow> (string \<Rightarrow> error + URL) \<Rightarrow> (SystemContext \<Rightarrow> image_service) \<Rightarrow> error_kinds \<Rightarrow>
     Context \<Rightarrow> string \<Rightarrow> Context \<Rightarrow> outcome io" where
  "run_app unmarshal parse_url service kinds globals name ctxt =
     or_exit (Before unmarshal globals) (\<lambda>err. NewExitError (error_text err) 1) (\<lambda>builder.
     run_command parse_url service kinds name builder ctxt)"

text \<open>The exit status of the process: an error without a code of its own counts 1, a panic 2.\<close>

fun exit_status :: "outcome \<Rightarrow> int" where
  "exit_status Done = 0"
| "exit_status (ExitError message exitCode) = exitCode"
| "exit_status (PlainError err) = 1"
| "exit_status (Crash err) = 2"

end
