(* ===== verification/CommandLaws.thy ===== *)
theory CommandLaws
  imports GrootApp
begin

text \<open>What the commands guarantee, composed of what their parts do.\<close>

section \<open>Parts that change no file\<close>

lemma reports_evolve [evolves_rules]:
  "evolves (within E X) (newErrorHandler a m c)" "evolves same_env (newErrorHandler a m c)"
  "evolves (within E X) (NewExitError m c)" "evolves same_env (NewExitError m c)"
  "evolves (within E X) (println s)" "evolves same_env (println s)"
  unfolding newErrorHandler_def NewExitError_def println_def Let_def by (intro evolves_rules)+

lemma or_exit_evolves [evolves_rules]:
  "preorder_on_state R \<Longrightarrow> evolves R m \<Longrightarrow> (\<And>e. evolves R (h e)) \<Longrightarrow> (\<And>x. evolves R (k x)) \<Longrightarrow> evolves R (or_exit m h k)"
  unfolding or_exit_def by (intro evolves_rules)

lemma or_exit_Done:
  assumes "run_state (or_exit m h k) w = (Done, w')" and "\<And>e v. fst (run_state (h e) v) \<noteq> Done"
  obtains x w1 where "run_state m w = (Inr x, w1)" and "run_state (k x) w1 = (Done, w')"
  using assms by (auto simp: or_exit_def split: prod.splits sum.splits if_splits) (metis fst_conv)

lemma handlers_not_Done [simp]:
  "fst (run_state (newErrorHandler a m c) w) \<noteq> Done" "fst (run_state (NewExitError m c) w) \<noteq> Done"
  by (simp_all add: newErrorHandler_def NewExitError_def TryEmitError_def TryIncrementRunCount_def emit_def)

lemma handler_Done [simp]:
  "run_state (newErrorHandler a m c) w \<noteq> (Done, w')" "run_state (NewExitError m c) w \<noteq> (Done, w')"
  using handlers_not_Done(1) [of a m c w] handlers_not_Done(2) [of m c w] by (metis fst_conv)+

lemma deferring_run:
  assumes "run_state (deferring f m) w = (r, w')"
  obtains w1 where "run_state m w = (r, w1)" and "run_state f w1 = ((), w')"
  using assms by (auto simp: deferring_def split: prod.splits)

lemma CacheUsage_within [evolves_rules]: "evolves (within E X) (CacheUsage (NewStoreMeasurer s (btrfs_ops d)) vs)"
proof -
  have "evolves (within E X) (cache_usage_loop (NewStoreMeasurer s (btrfs_ops d)) vs n)" for n
    by (induction vs arbitrary: n) (auto simp: NewStoreMeasurer_def btrfs_ops_def intro!: evolves_rules split: sum.splits)
  then show ?thesis by (simp add: CacheUsage_def)
qed

lemma none_missing_evolves [evolves_rules]:
  "evolves (within E X) (none_missing m fs)" "evolves same_env (none_missing m fs)"
  by (induction fs) (auto intro!: evolves_rules split: sum.splits)

lemma IsStoreInitialized_evolves [evolves_rules]:
  "evolves (within E X) (IsStoreInitialized m)" "evolves same_env (IsStoreInitialized m)"
  unfolding IsStoreInitialized_def by (intro evolves_rules)+

lemma emit_unused_within:
  assumes pure: "\<And>w r w'. run_state (UnusedVolumes gc []) w = (r, w') \<Longrightarrow> w_fs w' = w_fs w"
    and env: "evolves same_env (UnusedVolumes gc [])"
  shows "evolves (within E X) (emit_unused gc (NewStoreMeasurer s (btrfs_ops d)))"
proof -
  have "evolves (within E X) (UnusedVolumes gc [])"
    by (rule evolvesI) (use pure evolvesD [OF env] in \<open>auto simp: within_def same_env_def\<close>)
  then show ?thesis unfolding emit_unused_def by (intro evolves_rules)
qed

lemma command_gc_within [evolves_rules]:
  "evolves (within E X) (emit_unused (command_gc (commands_driver d ms im) d') (NewStoreMeasurer s (btrfs_ops d')))"
  "evolves (within E X) (emit_unused (command_gc (btrfs_ops d) d') (NewStoreMeasurer s (btrfs_ops d')))"
  unfolding command_gc_def
  by (rule emit_unused_within; (erule namespaced_gc.UnusedVolumes_pure)?; (rule namespaced_gc.UnusedVolumes_same)?)
    (rule emit_unused_within; (erule gc.UnusedVolumes_pure)?; (rule gc.UnusedVolumes_same)?)

lemma create_report_within [evolves_rules]: "evolves (within E X) (create_report sm img)"
  unfolding create_report_def by (intro evolves_rules)

lemma same_files: "evolves (within (\<lambda>_. True) {}) m \<Longrightarrow> run_state m w = (r, w') \<Longrightarrow> fs_get (w_fs w') = fs_get (w_fs w)"
  by (rule ext) (drule (1) evolvesD, erule withinD, simp_all)

section \<open>create\<close>

text \<open>The steps of a command that ends well.\<close>

lemma create_in_store_Done:
  assumes "run_state (create_in_store service kinds ctxt cfg url i ms) w = (Done, w')"
  obtains w1 img where
    "run_state (Creation.Create (command_creator service (e_uid (w_env w)) (createFileSystemDriver cfg) ms
        (NewIDMapper (cf_NewuidmapBin cfg) (cf_NewgidmapBin cfg))
        (createSystemContext url (cf_Create cfg) (ctx_String ctxt ''username'') (ctx_String ctxt ''password''))
        (cf_Create cfg) url) (create_spec cfg ms url i)) w = (Inr img, w1)"
    and "fs_get (w_fs w') = fs_get (w_fs w1)"
proof -
  let ?d = "createFileSystemDriver cfg" and ?im = "NewIDMapper (cf_NewuidmapBin cfg) (cf_NewgidmapBin cfg)"
  let ?c = "command_creator service (e_uid (w_env w)) ?d ms ?im
        (createSystemContext url (cf_Create cfg) (ctx_String ctxt ''username'') (ctx_String ctxt ''password'')) (cf_Create cfg) url"
  let ?sm = "NewStoreMeasurer (storePath ?d) (btrfs_ops ?d)"
  have "run_state (deferring (emit_unused (command_gc (commands_driver ?d ms ?im) ?d) ?sm)
       (or_exit (Creation.Create ?c (create_spec cfg ms url i))
          (\<lambda>err. newErrorHandler ''create'' (tryHumanize kinds err (create_spec cfg ms url i)) 1) (create_report ?sm))) w = (Done, w')"
    using assms by (auto simp: create_in_store_def os_Getuid_def Let_def elim!: or_exit_Done)
  then obtain w2 where body: "run_state (or_exit (Creation.Create ?c (create_spec cfg ms url i))
          (\<lambda>err. newErrorHandler ''create'' (tryHumanize kinds err (create_spec cfg ms url i)) 1) (create_report ?sm)) w = (Done, w2)"
    and e: "run_state (emit_unused (command_gc (commands_driver ?d ms ?im) ?d) ?sm) w2 = ((), w')"
    by (rule deferring_run)
  from body obtain img w1 where c: "run_state (Creation.Create ?c (create_spec cfg ms url i)) w = (Inr img, w1)"
    and r: "run_state (create_report ?sm img) w1 = (Done, w2)"
    by (rule or_exit_Done) simp
  have "fs_get (w_fs w') = fs_get (w_fs w1)"
    using same_files [OF command_gc_within(1) e] same_files [OF create_report_within r] by simp
  with c show ?thesis by (rule that)
qed

lemma create_command_Done:
  assumes "run_state (create_command parse_url service kinds builder ctxt) w = (Done, w')"
  obtains baseImage i cfg url ms w1 where "ctx_Args ctxt = [baseImage, i]" and "Build (create_flags ctxt builder) = Inr cfg"
    and "parse_url baseImage = Inr url" and "w_env w1 = w_env w" and "fs_get (w_fs w1) = fs_get (w_fs w)"
    and "run_state (create_in_store service kinds ctxt cfg url i ms) w1 = (Done, w')"
proof -
  obtain baseImage i where args: "ctx_Args ctxt = [baseImage, i]"
    using assms by (auto simp: create_command_def split: list.splits)
  obtain cfg where cfg: "Build (create_flags ctxt builder) = Inr cfg"
    using assms by (auto simp: create_command_def args split: sum.splits)
  have v: "validateOptions ctxt = None" using assms by (auto simp: create_command_def args cfg split: option.splits)
  obtain url where url: "parse_url baseImage = Inr url"
    using assms by (auto simp: create_command_def args cfg v split: sum.splits)
  let ?init = "IsStoreInitialized (command_manager (ApplyMappings (NewStoreNamespacer (cf_StorePath cfg))) cfg)"
  obtain b w0 where init: "run_state ?init w = (b, w0)" by fastforce
  with assms have "b" by (cases b) (simp_all add: create_command_def args cfg v url)
  with assms init have "run_state (or_exit (Read (NewStoreNamespacer (cf_StorePath cfg)))
      (\<lambda>err. newErrorHandler ''create'' (error_text err) 1) (create_in_store service kinds ctxt cfg url i)) w0 = (Done, w')"
    by (simp add: create_command_def args cfg v url)
  then obtain ms w1 where r: "run_state (Read (NewStoreNamespacer (cf_StorePath cfg))) w0 = (Inr ms, w1)"
    and c: "run_state (create_in_store service kinds ctxt cfg url i ms) w1 = (Done, w')"
    by (rule or_exit_Done) simp
  have same: "w_env w1 = w_env w" "fs_get (w_fs w1) = fs_get (w_fs w)"
    using evolvesD [OF IsStoreInitialized_evolves(2) init] evolvesD [OF Read_evolves(2) r]
      same_files [OF IsStoreInitialized_evolves(1) init] same_files [OF Read_evolves(1) r] by (simp_all add: same_env_def)
  show ?thesis by (rule that [OF args cfg url same c])
qed

lemma created_store:
  assumes "store_deps store fs i = Some ids" and "fs_get fs' = fs_get fs"
  shows "store_deps store fs' i = Some ids"
  using assms by (simp add: store_deps_def registered_def)

section \<open>Properties\<close>

text \<open>C10. When the command create ends without an error, the image it was asked for is in the store, and registered with
  the volumes it needs; whatever it did after making it (the report, the measuring) changed no file.\<close>

theorem create_command_creates:
  assumes "run_state (create_command parse_url service kinds builder ctxt) w = (Done, w')"
    and "ctx_Args ctxt = [baseImage, i]" and "Build (create_flags ctxt builder) = Inr cfg"
    and "tools (createFileSystemDriver cfg) (w_env w)" and "is_int64 (cc_DiskLimitSizeBytes (cf_Create cfg))" and "plain_name i"
  shows "has_image (cf_StorePath cfg) w' i \<and> (\<exists>ids. store_deps (cf_StorePath cfg) (w_fs w') i = Some ids)"
proof -
  obtain url ms w1 where c: "run_state (create_in_store service kinds ctxt cfg url i ms) w1 = (Done, w')"
    and env: "w_env w1 = w_env w"
    using create_command_Done [OF assms(1)] assms(2,3) by (metis Inr_inject list.inject)
  obtain w2 img where run: "run_state (Creation.Create (command_creator service (e_uid (w_env w1)) (createFileSystemDriver cfg) ms
        (NewIDMapper (cf_NewuidmapBin cfg) (cf_NewgidmapBin cfg))
        (createSystemContext url (cf_Create cfg) (ctx_String ctxt ''username'') (ctx_String ctxt ''password''))
        (cf_Create cfg) url) (create_spec cfg ms url i)) w1 = (Inr img, w2)" and fs: "fs_get (w_fs w') = fs_get (w_fs w2)"
    using c by (rule create_in_store_Done)
  have d: "storePath (createFileSystemDriver cfg) = cf_StorePath cfg" by (simp add: createFileSystemDriver_def NewDriver_def)
  have s: "cs_ID (create_spec cfg ms url i) = i" "is_int64 (cs_DiskLimit (create_spec cfg ms url i))"
    using assms(5) by (simp_all add: create_spec_def)
  have "tools (createFileSystemDriver cfg) (w_env w1)" using assms(4) env by simp
  from Create_done [OF run this s(2)] assms(6) fs show ?thesis
    by (auto simp: s d has_image_def image_entry_def intro: created_store)
qed

text \<open>Only root may initialise a store.\<close>

lemma init_store_needs_root:
  assumes "e_uid (w_env w) \<noteq> 0"
  shows "\<exists>m. run_state (init_store_command builder ctxt) w = (ExitError m 1, w)"
  using assms by (auto simp: init_store_command_def NewExitError_def os_Getuid_def split: sum.splits)

lemma Stat_absent: "quiet w \<Longrightarrow> k_lookup (w_fs w) (resolve p) = Inl ENOENT \<Longrightarrow> \<exists>e. run_state (os_Stat p) w = (Inl e, tick w) \<and> IsNotExist e"
  by (simp add: os_Stat_def syscall_def k_stat_def quiet_def IsNotExist_def)

lemma none_missing_absent:
  "quiet w \<Longrightarrow> n \<in> set fs \<Longrightarrow> k_lookup (w_fs w) (resolve (Join [mg_storePath m, n])) = Inl ENOENT \<Longrightarrow>
     \<exists>w'. run_state (none_missing m fs) w = (False, w') \<and> w_fs w' = w_fs w"
proof (induction fs arbitrary: w)
  case (Cons f fs)
  obtain st where st: "run_state (os_Stat (Join [mg_storePath m, f])) w = (st, tick w)" using Stat_tick by blast
  show ?case
  proof (cases "case st of Inl e \<Rightarrow> IsNotExist e | Inr _ \<Rightarrow> False")
    case True
    with st show ?thesis by (auto split: sum.splits)
  next
    case False
    with Cons.prems Stat_absent [of w "Join [mg_storePath m, f]"] st have "n \<in> set fs" by auto
    with Cons.IH [of "tick w"] Cons.prems st False show ?thesis by (auto simp: quiet_def split: sum.splits)
  qed
qed simp

lemma none_missing_quiet: "\<exists>b w'. run_state (none_missing m fs) w = (b, w') \<and> w_fs w' = w_fs w \<and> w_env w' = w_env w"
proof (induction fs arbitrary: w)
  case (Cons f fs)
  obtain st where st: "run_state (os_Stat (Join [mg_storePath m, f])) w = (st, tick w)" using Stat_tick by blast
  with Cons.IH [of "tick w"] show ?case by (auto split: sum.splits)
qed auto

lemma IsStoreInitialized_absent:
  assumes "quiet w" and "k_lookup (w_fs w) (resolve p) = Inl ENOENT"
    and "p \<in> (\<lambda>n. Join [mg_storePath m, n]) ` set StoreFolders \<union> {Join [mg_storePath m, MetaDirName, NamespaceFilename]}"
  shows "\<exists>w'. run_state (IsStoreInitialized m) w = (False, w') \<and> w_fs w' = w_fs w"
proof -
  obtain b w1 where n: "run_state (none_missing m StoreFolders) w = (b, w1)" "w_fs w1 = w_fs w" "w_env w1 = w_env w"
    using none_missing_quiet by blast
  show ?thesis
  proof (cases b)
    case True
    with n none_missing_absent [OF assms(1), of _ StoreFolders m] assms(2,3) have "p = Join [mg_storePath m, MetaDirName, NamespaceFilename]"
      by auto
    with n True Stat_absent [of w1 p] assms(1,2) show ?thesis by (auto simp: IsStoreInitialized_def quiet_def)
  next
    case False
    with n show ?thesis by (simp add: IsStoreInitialized_def)
  qed
qed

text \<open>C36. In a store where one of the directories or the namespace file is missing, the command create refuses to
  work: exit code 1, and no file has changed.\<close>

theorem create_command_uninitialised:
  assumes "quiet w" and "k_lookup (w_fs w) (resolve p) = Inl ENOENT"
    and "p \<in> (\<lambda>n. Join [cf_StorePath cfg, n]) ` set StoreFolders \<union> {Join [cf_StorePath cfg, MetaDirName, NamespaceFilename]}"
    and "ctx_Args ctxt = [baseImage, i]" and "Build (create_flags ctxt builder) = Inr cfg"
    and "validateOptions ctxt = None" and "parse_url baseImage = Inr url"
  shows "\<exists>w'. run_state (create_command parse_url service kinds builder ctxt) w =
      (ExitError ''Store path is not initialized. Please run init-store.'' 1, w') \<and> w_fs w' = w_fs w"
proof -
  let ?m = "command_manager (ApplyMappings (NewStoreNamespacer (cf_StorePath cfg))) cfg"
  have "mg_storePath ?m = cf_StorePath cfg" by (simp add: command_manager_def StoreManager.New_def Let_def)
  with IsStoreInitialized_absent [OF assms(1,2), of ?m] assms(3)
  obtain w1 where "run_state (IsStoreInitialized ?m) w = (False, w1)" "w_fs w1 = w_fs w" by auto
  with assms(4-7) show ?thesis
    by (simp add: create_command_def newErrorHandler_def TryEmitError_def TryIncrementRunCount_def emit_def)
qed

section \<open>delete\<close>

lemma Stat_gone: "quiet w \<Longrightarrow> run_state (os_Stat p) w = (Inl e, w') \<Longrightarrow> fs_get (w_fs w) (resolve p) = None \<and> w_fs w' = w_fs w"
  by (auto simp: os_Stat_def syscall_def quiet_def k_stat_def split: sum.splits option.splits dest: k_lookup_Inl)

lemma Deregister_gone:
  assumes "quiet w" and "run_state (Deregister m r) w = (x, w')" and "\<And>e. x = Inl e \<Longrightarrow> IsNotExist (Cause e)"
  shows "registered m (w_fs w') r = None \<and> (\<forall>q. fs_get (w_fs w) q = None \<longrightarrow> fs_get (w_fs w') q = None)"
  using assms
  by (auto simp: Deregister_def os_Remove_def syscall_def quiet_def k_remove_def registered_def IsNotExist_def fs_simps
      split: sum.splits option.splits if_splits dest: k_lookup_Inl)

lemma Delete_gone:
  assumes "quiet w" and "plain_name i"
    and "run_state (Delete (IamDeleter (NewImageCloner (btrfs_ops d) store) (store_registry store)) i) w = (Inr (), w')"
  shows "\<not> has_image store w' i \<and> store_deps store (w_fs w') i = None"
proof -
  let ?c = "NewImageCloner (btrfs_ops d) store"
  obtain w0 where body: "run_state (or_return (ImageCloner.Destroy ?c i) id (\<lambda>_. do {
       r \<leftarrow> Deregister (store_registry store) (image_ref i);
       (case r of Inl err \<Rightarrow> if \<not> IsNotExist (Cause err) then fail err else ok () | Inr _ \<Rightarrow> ok ())})) w = (Inr (), w0)"
    and fs: "w_fs w' = w_fs w0"
    using timed_run [OF assms(3) [unfolded Delete_def IamDeleter_def Deleter.simps]] by blast
  obtain w1 x where d: "run_state (ImageCloner.Destroy ?c i) w = (Inr (), w1)"
    and r: "run_state (Deregister (store_registry store) (image_ref i)) w1 = (x, w0)"
    and x: "\<And>e. x = Inl e \<Longrightarrow> IsNotExist (Cause e)"
    using body by (auto split: prod.splits sum.splits if_splits)
  obtain w3 e where st: "run_state (os_Stat (imagePath ?c i)) w3 = (Inl e, w1)"
    and env: "w_env w3 = w_env w"
  proof -
    obtain w2 where ex: "run_state (Exists ?c i) w = (Inr True, w2)"
      and rest: "run_state (do { _ \<leftarrow> dr_DestroyImage (btrfs_ops d) (imagePath ?c i); st \<leftarrow> os_Stat (imagePath ?c i);
          (case st of Inr _ \<Rightarrow> fail (Plain ''deleting image path'') | Inl _ \<Rightarrow> ok ())}) w2 = (Inr (), w1)"
      using d by (auto simp: ImageCloner.Destroy_def NewImageCloner_def split: prod.splits sum.splits bool.splits)
    obtain y w3 where destroy: "run_state (dr_DestroyImage (btrfs_ops d) (imagePath ?c i)) w2 = (y, w3)" by fastforce
    then have "w_env w3 = w_env w"
      using evolvesD [OF Exists_evolves(2) ex] evolvesD [OF btrfs_images.image_env(2) destroy] by (simp add: same_env_def)
    moreover obtain e where "run_state (os_Stat (imagePath ?c i)) w3 = (Inl e, w1)"
      using rest destroy by (auto split: prod.splits sum.splits)
    ultimately show ?thesis using that by blast
  qed
  have quiet: "quiet w3" "quiet w1"
    using assms(1) env evolvesD [OF syscall_same_env st [unfolded os_Stat_def]] by (simp_all add: quiet_def same_env_def)
  from Stat_gone [OF quiet(1) st] have "fs_get (w_fs w1) (image_entry store i) = None"
    using assms(2) by (simp add: NewImageCloner_def)
  with Deregister_gone [OF quiet(2) r x] show ?thesis
    by (simp add: has_image_def image_entry_def store_deps_def fs)
qed

lemma FindID_found:
  assumes "quiet w" and "image_of store q = Inr (i, p)" and "fs_get (w_fs w) (resolve p) \<noteq> None"
  shows "run_state (FindID store q) w = (Inr i, tick w)"
  using assms by (auto simp: FindID_def exists_path_def os_Stat_def syscall_def quiet_def k_stat_def k_lookup_def)

lemma delete_image_Done:
  assumes "quiet w" and "plain_name i" and "run_state (delete_image cfg i) w = (Done, w')"
  shows "\<not> has_image (cf_StorePath cfg) w' i \<and> store_deps (cf_StorePath cfg) (w_fs w') i = None"
proof -
  let ?d = "createFileSystemDriver cfg"
  have d: "storePath ?d = cf_StorePath cfg" by (simp add: createFileSystemDriver_def NewDriver_def)
  let ?report = "do { _ \<leftarrow> println (''Image '' @ i @ '' deleted''); _ \<leftarrow> TryIncrementRunCount ''delete'' None; State_Monad.return Done }"
  obtain w2 where body: "run_state (or_exit (Delete (IamDeleter (NewImageCloner (btrfs_ops ?d) (storePath ?d)) (store_registry (storePath ?d))) i)
      (\<lambda>err. newErrorHandler ''delete'' (error_text err) 1) (\<lambda>_. ?report)) w = (Done, w2)"
    and e: "run_state (emit_unused (command_gc (btrfs_ops ?d) ?d) (NewStoreMeasurer (storePath ?d) (btrfs_ops ?d))) w2 = ((), w')"
    using assms(3) unfolding delete_image_def Let_def createImageDriver_def by (rule deferring_run)
  from body obtain x w1 where del: "run_state (Delete (IamDeleter (NewImageCloner (btrfs_ops ?d) (storePath ?d)) (store_registry (storePath ?d))) i) w = (Inr x, w1)"
    and r: "run_state ?report w1 = (Done, w2)"
    by (rule or_exit_Done) simp
  have "fs_get (w_fs w') = fs_get (w_fs w1)"
  proof -
    have "evolves (within (\<lambda>_. True) {}) ?report" by (intro evolves_rules)
    from same_files [OF this r] same_files [OF command_gc_within(2) e] show ?thesis by simp
  qed
  with Delete_gone [OF assms(1,2), of ?d "storePath ?d" w1] del show ?thesis
    by (simp add: d has_image_def store_deps_def registered_def)
qed


section \<open>Examples\<close>

definition sample_config :: Config where
  "sample_config = empty_Config\<lparr>cf_StorePath := ''/s'', cf_DraxBin := ''drax'', cf_NewuidmapBin := ''newuidmap'', cf_NewgidmapBin := ''newgidmap''\<rparr>"

lemma sample_config_driver: "createFileSystemDriver sample_config = sample_driver"
  by code_simp

definition sample_context :: "string list \<Rightarrow> Context" where
  "sample_context args = \<lparr>ctx_Args = args, ctx_Usage = [], ctx_Int64 = (\<lambda>_. 0), ctx_Bool = (\<lambda>_. False), ctx_String = (\<lambda>_. []),
     ctx_StringSlice = (\<lambda>_. []), ctx_IsSet = (\<lambda>_. False)\<rparr>"

definition ready_world :: world where
  "ready_world = pull_world\<lparr>w_fs := ([''s'', ''meta'', ''namespace.json''], file_node (json_print (mappings_json [] []))) # w_fs pull_world\<rparr>"

definition no_kinds :: error_kinds where
  "no_kinds = \<lparr>ek_UnknownAuthority = (\<lambda>_. False), ek_DockerErrors = (\<lambda>_. None)\<rparr>"

abbreviation sample_create_command :: "outcome io" where
  "sample_create_command \<equiv> create_command (\<lambda>_. Inr registry_url) sample_registry no_kinds sample_config (sample_context [''docker:///p'', ''j''])"

lemma created: "fst (run_state sample_create_command ready_world) = Done"
  by code_simp

lemma sample_built: "Build (create_flags (sample_context args) sample_config) = Inr sample_config" "Build sample_config = Inr sample_config"
  by (simp_all add: create_flags_def sample_context_def builder_defs Build_def sample_config_def empty_Config_def empty_CreateConfig_def)

theorem create_command_creates_witness:
  "has_image ''/s'' (snd (run_state sample_create_command ready_world)) ''j''"
proof -
  have "run_state sample_create_command ready_world = (Done, snd (run_state sample_create_command ready_world))"
    using created by (simp add: prod_eq_iff)
  moreover have "tools (createFileSystemDriver sample_config) (w_env ready_world)"
    by (simp add: sample_config_driver ready_world_def sample_host_ok)
  moreover have "is_int64 (cc_DiskLimitSizeBytes (cf_Create sample_config))" "plain_name ''j''" "cf_StorePath sample_config = ''/s''"
    by (simp_all add: sample_config_def empty_Config_def empty_CreateConfig_def is_int64_def plain_name_def)
  ultimately show ?thesis
    using create_command_creates [OF _ _ sample_built(1), of "\<lambda>_. Inr registry_url" sample_registry no_kinds "[''docker:///p'', ''j'']"]
    by (metis sample_context_def Context.select_convs(1))
qed

lemma init_store_needs_root_witness:
  "\<exists>m. run_state (init_store_command sample_config (sample_context [])) (sample_world\<lparr>w_env := sample_env\<lparr>e_uid := 1000\<rparr>\<rparr>) =
    (ExitError m 1, sample_world\<lparr>w_env := sample_env\<lparr>e_uid := 1000\<rparr>\<rparr>)"
  by (rule init_store_needs_root) simp

theorem create_command_uninitialised_witness:
  "\<exists>w'. run_state sample_create_command sample_world =
      (ExitError ''Store path is not initialized. Please run init-store.'' 1, w') \<and> w_fs w' = w_fs sample_world"
proof (rule create_command_uninitialised [OF quiet_sample])
  show "k_lookup (w_fs sample_world) (resolve ''/s/meta/namespace.json'') = Inl ENOENT" by code_simp
  show "''/s/meta/namespace.json'' \<in> (\<lambda>n. Join [cf_StorePath sample_config, n]) ` set StoreFolders \<union>
      {Join [cf_StorePath sample_config, MetaDirName, NamespaceFilename]}" by (rule UnI2) code_simp
qed (simp_all add: sample_built, simp_all add: sample_context_def validateOptions_def)


end
