(* ===== verification/Reclaim.thy ===== *)
theory Reclaim
  imports Cleaner
begin

text \<open>
  What a clean-up achieves. The abstract store is a set of volumes and, for every image, the volumes it
  depends on; a clean-up keeps the volumes that are needed and drops all others. The code gets there by
  renaming what is unused and destroying what is renamed; when nothing fails, the store afterwards is
  the abstract clean-up of the store before.
\<close>

section \<open>The abstract store\<close>

record abstract_store =
  as_volumes :: "string set"
  as_images :: "string \<Rightarrow> string list option"

definition store_abs :: "string \<Rightarrow> fsys \<Rightarrow> abstract_store" where
  "store_abs store fs =
     \<lparr>as_volumes = set (fs_children (volumes_dir store) fs),
      as_images = (\<lambda>i. if i \<in> set (store_images store fs) then store_deps store fs i else None)\<rparr>"

definition used_by :: "abstract_store \<Rightarrow> string set" where
  "used_by a = {v. \<exists>i cs. as_images a i = Some cs \<and> v \<in> set cs}"

text \<open>Names with the mark of the collector are not those of layers.\<close>

definition abs_clean :: "string list \<Rightarrow> abstract_store \<Rightarrow> abstract_store" where
  "abs_clean preserve a =
     a\<lparr>as_volumes := {v \<in> as_volumes a. live v \<and> (v \<in> set preserve \<or> v \<in> used_by a)}\<rparr>"

lemma needed_abs: "needed store fs preserve v \<longleftrightarrow> v \<in> set preserve \<or> v \<in> used_by (store_abs store fs)"
  by (auto simp: needed_iff used_by_def store_abs_def split: if_splits)

section \<open>Marking and collecting that succeed\<close>

text \<open>No volume is there twice, as itself and marked; then a marked one keeps its successor from being marked.\<close>

definition no_twins :: "string \<Rightarrow> fsys \<Rightarrow> bool" where
  "no_twins store fs \<longleftrightarrow>
     (\<forall>v\<in>set (fs_children (volumes_dir store) fs). live v \<longrightarrow> gc_prefix @ v \<notin> set (fs_children (volumes_dir store) fs))"

text \<open>A store that can be read: the directories are there and every image has its dependencies recorded.\<close>

definition readable_store :: "string \<Rightarrow> fsys \<Rightarrow> bool" where
  "readable_store store fs \<longleftrightarrow>
     dir_at fs (volumes_dir store) \<and> dir_at fs (images_dir store) \<and>
     (\<forall>i\<in>set (store_images store fs). store_deps store fs i \<noteq> None)"

locale reclaiming = cleaning ops store E ic
  for ops :: driver_ops and store :: string and E :: "env \<Rightarrow> bool" and ic :: ImageCloner +
  assumes Volumes_quiet: "\<And>w. quiet w \<Longrightarrow> dir_at (w_fs w) (volumes_dir store) \<Longrightarrow> \<not> isl (fst (run_state (dr_Volumes ops) w))"
    and ImageIDs_quiet: "\<And>w. quiet w \<Longrightarrow> dir_at (w_fs w) (images_dir store) \<Longrightarrow> \<not> isl (fst (run_state (ImageIDs ic) w))"
    and MoveVolume_leaves: "\<And>p q w r w'. run_state (dr_MoveVolume ops p q) w = (r, w') \<Longrightarrow> quiet w \<Longrightarrow>
        fs_get (w_fs w) (resolve p) \<noteq> None \<Longrightarrow> fs_get (w_fs w) (resolve q) = None \<Longrightarrow>
        dir_at (w_fs w) (butlast (resolve q)) \<Longrightarrow> \<not> prefix (resolve p) (resolve q) \<Longrightarrow> \<not> prefix (resolve q) (resolve p) \<Longrightarrow>
        fs_get (w_fs w') (resolve p) = None"
    and DestroyVolume_gone: "\<And>v w w'. run_state (dr_DestroyVolume ops v) w = (Inr (), w') \<Longrightarrow> E (w_env w) \<Longrightarrow>
        plain_name v \<Longrightarrow> fs_get (w_fs w') (volume_entry store v) = None"
begin

abbreviation collector :: GarbageCollector where
  "collector \<equiv> NewGC ops (ImageIDs ic) (Dependencies (store_registry store))"

lemma remove_used_quiet:
  assumes "quiet w" and "\<forall>i\<in>set ids. store_deps store (w_fs w) i \<noteq> None"
  shows "\<not> isl (fst (run_state (remove_used collector os ids) w))"
  using assms
proof (induction ids arbitrary: os w)
  case (Cons i ids)
  then obtain cs where cs: "registered (store_registry store) (w_fs w) (image_ref i) = Some cs" by (auto simp: store_deps_def)
  have "quiet (tick (tick w))" "\<forall>i\<in>set ids. store_deps store (w_fs (tick (tick w))) i \<noteq> None"
    using Cons.prems by (auto simp: quiet_def)
  from Cons.IH [OF this, of "removeDependencyFromOrphanList os cs"] Dependencies_quiet [OF Cons.prems(1) cs] show ?case by simp
qed simp

lemma UnusedVolumes_quiet:
  assumes "quiet w" and "readable_store store (w_fs w)" and "fair_order (w_env w)"
  obtains vs w' where "run_state (UnusedVolumes collector preserve) w = (Inr vs, w')"
    and "set vs = {v \<in> set (fs_children (volumes_dir store) (w_fs w)). live v \<and> \<not> needed store (w_fs w) preserve v}"
    and "w_fs w' = w_fs w" and "w_env w' = w_env w"
proof -
  obtain r w' where run: "run_state (UnusedVolumes collector preserve) w = (r, w')" by fastforce
  obtain vols w1 where 1: "run_state (dr_Volumes ops) w = (Inr vols, w1)"
    using Volumes_quiet [OF assms(1)] assms(2) by (cases "run_state (dr_Volumes ops) w"; cases "fst (run_state (dr_Volumes ops) w)")
      (auto simp: readable_store_def)
  then have fs1: "w_fs w1 = w_fs w" "quiet w1"
    using Volumes_listed [OF 1] evolvesD [OF read_env(2) 1] assms(1) by (auto simp: same_env_def quiet_def)
  obtain ids w2 where 2: "run_state (ImageIDs ic) w1 = (Inr ids, w2)"
    using ImageIDs_quiet [OF fs1(2)] assms(2) fs1(1) by (cases "run_state (ImageIDs ic) w1"; cases "fst (run_state (ImageIDs ic) w1)")
      (auto simp: readable_store_def)
  then have fs2: "w_fs w2 = w_fs w" "quiet w2" "ids = store_images store (w_fs w)"
    using registry_pure(1) [OF 2] imageIDs_result [OF 2] evolvesD [OF registry_env(1) 2] fs1
    by (auto simp: same_env_def quiet_def store_images_def)
  have "\<not> isl (fst (run_state (remove_used collector os ids) w2))" for os
    by (rule remove_used_quiet [OF fs2(2)]) (use assms(2) fs2(1,3) in \<open>simp add: readable_store_def\<close>)
  then obtain vs where r: "r = Inr vs"
    using run 1 2 by (auto simp: UnusedVolumes_def Let_def range_order_def split: prod.splits sum.splits)
      (metis fst_conv isl_def)
  have "\<And>xs. set (e_order (w_env w) xs) = set xs" using assms(3) by (simp add: fair_order_def)
  from UnusedVolumes_result [OF run [unfolded r] this]
  have "set vs = {v \<in> set (fs_children (volumes_dir store) (w_fs w)). live v \<and> \<not> needed store (w_fs w) preserve v}"
    by (auto simp: needed_iff store_images_def store_deps_def)
  moreover have "w_fs w' = w_fs w" "w_env w' = w_env w"
    using UnusedVolumes_pure [OF run] evolvesD [OF UnusedVolumes_same(1) run] by (simp_all add: same_env_def)
  ultimately show ?thesis using run r that by blast
qed

lemma mark_volumes_gone:
  assumes "clean_abs store" and "quiet w" and "dir_at (w_fs w) (volumes_dir store)"
    and "\<forall>v\<in>set vs. plain_name v \<and> live v \<and> \<not> contains (store @ ''/volumes/'') v"
    and "\<forall>v\<in>set vs. fs_get (w_fs w) (volume_entry store v) \<noteq> None \<longrightarrow> fs_get (w_fs w) (volume_entry store (gc_prefix @ v)) = None"
    and "run_state (mark_volumes collector vs) w = (m, w')" and "v \<in> set vs" and "E (w_env w)"
  shows "fs_get (w_fs w') (volume_entry store v) = None"
  using assms(2-8)
proof (induction vs arbitrary: w m v)
  case (Cons u vs)
  have u: "plain_name u" "live u" "\<not> contains (store @ ''/volumes/'') u" using Cons.prems(3) by simp_all
  obtain x w1 where x: "run_state (dr_VolumePath ops u) w = (x, w1)" by fastforce
  have s1: "w_env w1 = w_env w" "fs_get (w_fs w1) = fs_get (w_fs w)"
    using evolvesD [OF read_env(1) x] withinD [OF evolvesD [OF VolumePath_pure [where X = "{}"] x] Cons.prems(7)]
    by (auto simp: same_env_def)
  text \<open>After the first volume, it is gone, and the others are as they were.\<close>
  obtain w2 m2 where rest: "run_state (mark_volumes collector vs) w2 = (m2, w')" and env: "w_env w2 = w_env w"
    and gone: "fs_get (w_fs w2) (volume_entry store u) = None"
    and others: "\<And>q. \<not> prefix (volume_entry store u) q \<Longrightarrow> \<not> prefix (volume_entry store (gc_prefix @ u)) q \<Longrightarrow> fs_get (w_fs w2) q = fs_get (w_fs w) q"
  proof (cases x)
    case (Inl e)
    have "fs_get (w_fs w) (volume_entry store u) = None"
    proof (rule ccontr)
      assume "fs_get (w_fs w) (volume_entry store u) \<noteq> None"
      with VolumePath_quiet [OF Cons.prems(1), of u] x Inl u(1) show False by simp
    qed
    moreover obtain m2 where "run_state (mark_volumes collector vs) w1 = (m2, w')"
      using Inl x Cons.prems(5) by (auto split: prod.splits)
    ultimately show ?thesis using that [of w1 m2] s1 by simp
  next
    case (Inr p)
    let ?p = "volume_file store u" and ?q = "volume_file store (gc_prefix @ u)"
    have p: "p = ?p" "fs_get (w_fs w) (volume_entry store u) \<noteq> None"
      using VolumePath_found [of u w p w1] x Inr u(1) by simp_all
    obtain y w2 where mv: "run_state (dr_MoveVolume ops ?p ?q) w1 = (y, w2)" by fastforce
    with Inr x p(1) Cons.prems(5) gc_path [OF assms(1) u(1,3)]
    obtain m2 where rest: "run_state (mark_volumes collector vs) w2 = (m2, w')" by (auto split: prod.splits)
    have env: "w_env w2 = w_env w" using evolvesD [OF change_env(1) mv] s1(1) by (simp add: same_env_def)
    have E1: "E (w_env w1)" using Cons.prems(7) s1(1) by simp
    have fr: "evolves (within E (below (volume_entry store u) \<union> below (volume_entry store (gc_prefix @ u)))) (dr_MoveVolume ops ?p ?q)"
      by (rule MoveVolume_frame) (use u(1) in auto)
    have "quiet w1" using Cons.prems(1) s1(1) by (simp add: quiet_def)
    moreover have "u \<noteq> gc_prefix @ u" by (simp add: gc_prefix_def)
    ultimately have "fs_get (w_fs w2) (volume_entry store u) = None"
      using MoveVolume_leaves [OF mv] p(2) Cons.prems(2,4) u(1)
      by (simp add: s1(2) dir_at_def) (simp add: volume_entry_def)
    then show ?thesis using that [OF rest env] withinD [OF evolvesD [OF fr mv] E1] s1(2) by simp
  qed
  have quiet2: "quiet w2" "E (w_env w2)" using Cons.prems(1,7) env by (simp_all add: quiet_def)
  have entry: "fs_get (w_fs w2) (volume_entry store z) = fs_get (w_fs w) (volume_entry store z)" if "z \<noteq> u" "z \<noteq> gc_prefix @ u" for z
    using others [of "volume_entry store z"] that by (auto simp: volume_entry_def)
  have stays: "fs_get (w_fs w'') (volume_entry store u) = None" if "run_state (mark_volumes collector vs) w2 = (m'', w'')" "u \<notin> set vs" for m'' w''
  proof -
    have "volume_entry store u \<notin> mark_area store vs" using that(2) u(2) by (auto simp: mark_area_def volume_entry_def)
    with withinD [OF evolvesD [OF mark_volumes_frame [OF assms(1)] that(1)] quiet2(2), of "mark_area store vs"] Cons.prems(3) gone
    show ?thesis by simp
  qed
  have dir: "dir_at (w_fs w2) (volumes_dir store)"
    using Cons.prems(2) others [of "volumes_dir store"] by (simp add: dir_at_def volume_entry_def)
  show ?case
  proof (cases "v \<in> set vs")
    case True
    have "\<forall>z\<in>set vs. fs_get (w_fs w2) (volume_entry store z) \<noteq> None \<longrightarrow> fs_get (w_fs w2) (volume_entry store (gc_prefix @ z)) = None"
    proof (intro ballI impI)
      fix z assume z: "z \<in> set vs" "fs_get (w_fs w2) (volume_entry store z) \<noteq> None"
      with gone have "z \<noteq> u" by auto
      moreover have "live z" using Cons.prems(3) z(1) by simp
      then have "z \<noteq> gc_prefix @ u" by auto
      moreover have "gc_prefix @ z \<noteq> u" using u(2) by auto
      ultimately show "fs_get (w_fs w2) (volume_entry store (gc_prefix @ z)) = None"
        using entry [of z] entry [of "gc_prefix @ z"] z Cons.prems(4) by simp
    qed
    from Cons.IH [OF quiet2(1) dir _ this rest True quiet2(2)] Cons.prems(3) show ?thesis by simp
  next
    case False
    with Cons.prems(6) stays [OF rest] show ?thesis by simp
  qed
qed simp

lemma destroy_volumes_error: "run_state (destroy_volumes collector vs (Some e)) w = (r, w') \<Longrightarrow> r \<noteq> None"
  by (induction vs arbitrary: e w) (auto split: if_splits prod.splits sum.splits)

lemma destroy_volumes_other:
  assumes "\<forall>v\<in>set vs. plain_name v" and "E (w_env w)" and "v \<notin> set vs"
    and "run_state (destroy_volumes collector vs e) w = (r, w')"
  shows "fs_get (w_fs w') (volume_entry store v) = fs_get (w_fs w) (volume_entry store v)"
  using assms
proof (induction vs arbitrary: w e)
  case (Cons u vs)
  show ?case
  proof (cases "has_prefix u gc_prefix")
    case False
    with Cons show ?thesis by simp
  next
    case True
    obtain x w1 where x: "run_state (dr_DestroyVolume ops u) w = (x, w1)" by fastforce
    with True Cons.prems(4) obtain e1 where rest: "run_state (destroy_volumes collector vs e1) w1 = (r, w')" by auto
    have env: "E (w_env w1)" using Cons.prems(2) evolvesD [OF change_env(2) x] by (simp add: same_env_def)
    have fr: "evolves (within E (below (volume_entry store u) \<union> {meta_dir store @ [meta_entry u]})) (dr_DestroyVolume ops u)"
      by (rule DestroyVolume_frame) (use Cons.prems(1) in auto)
    have "volume_entry store v \<notin> below (volume_entry store u) \<union> {meta_dir store @ [meta_entry u]}"
      using Cons.prems(3) by (auto simp: volume_entry_def volumes_dir_def meta_dir_def)
    with withinD [OF evolvesD [OF fr x] Cons.prems(2)]
    have "fs_get (w_fs w1) (volume_entry store v) = fs_get (w_fs w) (volume_entry store v)" by blast
    with Cons.IH [OF _ env _ rest] Cons.prems(1,3) show ?thesis by simp
  qed
qed simp

lemma destroy_volumes_gone:
  assumes "\<forall>v\<in>set vs. plain_name v" and "E (w_env w)"
    and "run_state (destroy_volumes collector vs None) w = (None, w')" and "v \<in> set vs" and "has_prefix v gc_prefix"
  shows "fs_get (w_fs w') (volume_entry store v) = None"
  using assms
proof (induction vs arbitrary: w)
  case (Cons u vs)
  show ?case
  proof (cases "has_prefix u gc_prefix")
    case False
    with Cons show ?thesis by (auto simp: )
  next
    case True
    obtain r w1 where r: "run_state (dr_DestroyVolume ops u) w = (r, w1)" by fastforce
    with True Cons.prems(3) obtain x where x: "r = Inr x"
      by (cases r) (auto dest: destroy_volumes_error)
    with r True Cons.prems(3) have rest: "run_state (destroy_volumes collector vs None) w1 = (None, w')" by simp
    have env: "E (w_env w1)" using Cons.prems(2) evolvesD [OF change_env(2) r] by (simp add: same_env_def)
    have gone: "fs_get (w_fs w1) (volume_entry store u) = None"
      using DestroyVolume_gone [of u w w1] r x Cons.prems(1,2) by simp
    show ?thesis
    proof (cases "v \<in> set vs")
      case True
      with Cons.IH [OF _ env rest True] Cons.prems(1,5) show ?thesis by simp
    next
      case False
      with Cons.prems(4) have "v = u" by simp
      with destroy_volumes_other [OF _ env False rest] Cons.prems(1) gone show ?thesis by simp
    qed
  qed
qed simp

lemma same_children:
  assumes "\<And>c. fs_get fs' (p @ [c]) = fs_get fs (p @ [c])"
  shows "fs_children p fs' = fs_children p fs"
  by (rule sorted_distinct_set_unique) (simp_all add: sorted_fs_children distinct_fs_children set_fs_children assms)

lemma mark_and_collect_exact:
  assumes store: "clean_abs store" and quiet: "quiet w" and E: "E (w_env w)" and order: "fair_order (w_env w)"
    and apart: "names_apart store (w_fs w)" and readable: "readable_store store (w_fs w)" and twins: "no_twins store (w_fs w)"
    and run: "run_state (mark_and_collect (cleaner_of ops sm ic store) preserve) w = ((False, None), w')"
  shows "store_abs store (w_fs w') = abs_clean preserve (store_abs store (w_fs w))"
proof -
  let ?l = "NewExclusiveFileSystem store"
  obtain fd w1 where l: "run_state (Lock ?l GlobalLockKey) w = (Inr fd, w1)"
    using run unfolding mark_and_collect_def cleaner_of_sel by (auto split: prod.splits sum.splits)
  have s1: "within E (below (resolve store @ [LocksDirName])) w w1"
    by (rule evolvesD [OF locksmith.lock_frame l]) (simp add: lock_area)
  note keeps = lock_keeps [OF s1 E]
  have env1: "w_env w1 = w_env w" by (rule within_envD [OF s1 E])
  have get1: "fs_get (w_fs w1) p = fs_get (w_fs w) p" if "\<not> prefix (resolve store @ [LocksDirName]) p" for p
    using withinD [OF s1 E] that by simp
  have "readable_store store (w_fs w1)"
    using readable get1 [of "volumes_dir store"] get1 [of "images_dir store"]
    by (simp add: readable_store_def keeps dir_at_def) (simp add: volumes_dir_def images_dir_def)
  from UnusedVolumes_quiet [OF _ this, of preserve] quiet order env1 obtain vs w2
    where u: "run_state (UnusedVolumes collector preserve) w1 = (Inr vs, w2)"
      and "set vs = {v \<in> set (fs_children (volumes_dir store) (w_fs w1)). live v \<and> \<not> needed store (w_fs w1) preserve v}"
      and s2: "w_fs w2 = w_fs w1" "w_env w2 = w_env w1"
    by (auto simp: quiet_def)
  then have vs: "set vs = {v \<in> set (fs_children (volumes_dir store) (w_fs w)). live v \<and> \<not> needed store (w_fs w) preserve v}"
    by (simp add: keeps needed_iff)
  have get2: "fs_get (w_fs w2) (volume_entry store c) = fs_get (w_fs w) (volume_entry store c)" for c
    using get1 [of "volume_entry store c"] s2 by (simp add: volume_entry_def volumes_dir_def)
  obtain m w3 where mark: "run_state (MarkUnused collector vs) w2 = (m, w3)" by fastforce
  then obtain ms where mv: "run_state (mark_volumes collector vs) w2 = (ms, w3)"
    by (auto simp: MarkUnused_def split: prod.splits if_splits)
  obtain y w4 where un: "run_state (Unlock ?l fd) w3 = (y, w4)" by fastforce
  have env3: "w_env w3 = w_env w" using evolvesD [OF MarkUnused_same(1) mark] s2 env1 by (simp add: same_env_def)
  have "within (\<lambda>_. True) {} w3 w4" by (rule evolvesD [OF locksmith.unlock_frame un])
  then have s4: "w_env w4 = w_env w" "fs_get (w_fs w4) = fs_get (w_fs w3)" using env3 by (auto simp: within_def)
  obtain u5 where c: "run_state (Collect collector) w4 = (Inr u5, w')"
    using run l u mark un unfolding mark_and_collect_def cleaner_of_sel by (auto split: prod.splits sum.splits)
  obtain x w5 where x: "run_state (dr_Volumes ops) w4 = (x, w5)" by fastforce
  let ?marked = "filter (\<lambda>v. has_prefix v gc_prefix) (fs_children (volumes_dir store) (w_fs w4))"
  have s5: "w_fs w5 = w_fs w4" "w_env w5 = w_env w4"
    using Volumes_result [OF x] evolvesD [OF read_env(2) x] by (simp_all add: same_env_def)
  have d: "run_state (destroy_volumes collector ?marked None) w5 = (None, w')"
    using c x Volumes_listed [of w4 _ w5]
    by (cases x) (auto simp: Collect_def collectVolumes_def gcVolumes_def split: prod.splits option.splits)
  have names: "\<forall>v\<in>set vs. plain_name v \<and> live v \<and> \<not> contains (store @ ''/volumes/'') v"
    using apart by (auto simp: vs names_apart_def set_fs_children)
  have fresh: "\<forall>v\<in>set vs. fs_get (w_fs w2) (volume_entry store v) \<noteq> None \<longrightarrow> fs_get (w_fs w2) (volume_entry store (gc_prefix @ v)) = None"
    using twins by (auto simp: vs get2 no_twins_def set_fs_children simp flip: volume_entry_def)
  have E2: "E (w_env w2)" "quiet w2" "E (w_env w5)" "\<forall>v\<in>set ?marked. plain_name v"
    using E quiet env1 s2 s4 s5 by (simp_all add: quiet_def set_fs_children)
  have dir2: "dir_at (w_fs w2) (volumes_dir store)"
    using readable get1 [of "volumes_dir store"] s2 by (simp add: readable_store_def dir_at_def) (simp add: volumes_dir_def)
  have live_after: "fs_get (w_fs w') (volume_entry store v) = (if v \<in> set vs then None else fs_get (w_fs w) (volume_entry store v))"
    if "live v" for v
  proof -
    have "v \<notin> set ?marked" using that by (auto simp: live_def)
    from destroy_volumes_other [OF E2(4,3) this d]
    have 1: "fs_get (w_fs w') (volume_entry store v) = fs_get (w_fs w3) (volume_entry store v)" by (simp add: s4 s5)
    show ?thesis
    proof (cases "v \<in> set vs")
      case True
      with mark_volumes_gone [OF store E2(2) dir2 names fresh mv _ E2(1)] 1 show ?thesis by simp
    next
      case False
      with that have "volume_entry store v \<notin> mark_area store vs" by (auto simp: mark_area_def volume_entry_def)
      with withinD [OF evolvesD [OF mark_volumes_frame [OF store] mv] E2(1), of "mark_area store vs"] names 1 False get2
      show ?thesis by simp
    qed
  qed
  have marked_after: "fs_get (w_fs w') (volume_entry store v) = None" if "has_prefix v gc_prefix" "plain_name v" for v
  proof (cases "v \<in> set ?marked")
    case True
    with destroy_volumes_gone [OF E2(4,3) d] that show ?thesis by simp
  next
    case False
    with that have "fs_get (w_fs w5) (volume_entry store v) = None" by (auto simp: set_fs_children volume_entry_def s5)
    with destroy_volumes_other [OF E2(4,3) False d] show ?thesis by simp
  qed
  have "set (fs_children (volumes_dir store) (w_fs w')) =
      {v \<in> set (fs_children (volumes_dir store) (w_fs w)). live v \<and> needed store (w_fs w) preserve v}"
  proof (rule set_eqI)
    fix v
    show "v \<in> set (fs_children (volumes_dir store) (w_fs w')) \<longleftrightarrow>
        v \<in> {v \<in> set (fs_children (volumes_dir store) (w_fs w)). live v \<and> needed store (w_fs w) preserve v}"
    proof (cases "live v")
      case True
      from live_after [OF this] True show ?thesis by (auto simp: set_fs_children vs simp flip: volume_entry_def)
    next
      case False
      with marked_after [of v] show ?thesis by (auto simp: set_fs_children live_def simp flip: volume_entry_def)
    qed
  qed
  moreover have out: "fs_get (w_fs w') p = fs_get (w_fs w) p" if "p \<notin> clean_area store (w_fs w) preserve" for p
    using withinD [OF mark_and_collect_within [OF store E order apart run] E that] .
  have "store_images store (w_fs w') = store_images store (w_fs w)"
    unfolding store_images_def by (rule same_children) (rule out, rule images_outside, simp)
  moreover have "store_deps store (w_fs w') = store_deps store (w_fs w)"
  proof
    fix i show "store_deps store (w_fs w') i = store_deps store (w_fs w) i"
      unfolding store_deps_def
      by (rule registered_frame, rule out, rule deps_outside) (simp add: store_registry_def NewDependencyManager_def meta_dir_def)
  qed
  ultimately show ?thesis by (simp add: store_abs_def abs_clean_def needed_abs cong: if_cong)
qed

lemma Clean_exact:
  assumes "clean_abs store" and "quiet w" and "E (w_env w)" and "fair_order (w_env w)"
    and "names_apart store (w_fs w)" and "readable_store store (w_fs w)" and "no_twins store (w_fs w)"
    and "run_state (Cleaner.Clean (cleaner_of ops sm ic store) threshold preserve) w = ((False, None), w')"
  shows "store_abs store (w_fs w') = abs_clean preserve (store_abs store (w_fs w))"
proof -
  obtain w1 where body: "run_state (clean_body (cleaner_of ops sm ic store) threshold preserve) w = ((False, None), w1)"
    and fs: "w_fs w' = w_fs w1"
    using timed_run [OF assms(8) [unfolded Cleaner.Clean_def]] by blast
  show ?thesis
  proof (cases "threshold > 0")
    case True
    obtain u w2 where u: "run_state (Usage (cl_storeMeasurer (cleaner_of ops sm ic store))) w = (u, w2)" by fastforce
    have same: "w_fs w2 = w_fs w" "w_env w2 = w_env w"
      using Usage_pure [OF u] evolvesD [OF Usage_evolves(2) u] by (auto simp: same_env_def)
    from body True u have "run_state (mark_and_collect (cleaner_of ops sm ic store) preserve) w2 = ((False, None), w1)"
      by (auto simp: clean_body_def split: sum.splits if_splits)
    from mark_and_collect_exact [OF assms(1) _ _ _ _ _ _ this] assms(2-7) show ?thesis
      by (simp add: same fs quiet_def)
  next
    case False
    with body have "run_state (mark_and_collect (cleaner_of ops sm ic store) preserve) w = ((False, None), w1)"
      by (auto simp: clean_body_def split: if_splits)
    from mark_and_collect_exact [OF assms(1-7) this] show ?thesis by (simp add: fs)
  qed
qed

end

section \<open>The btrfs driver\<close>

lemma Volumes_isl: "quiet w \<Longrightarrow> dir_at (w_fs w) (volumes_dir (storePath d)) \<Longrightarrow> \<not> isl (fst (run_state (BtrfsDriver.Volumes d) w))"
  by (auto simp: Volumes_def ioutil_ReadDir_def syscall_def quiet_def k_read_dir_def dir_at_def volumes_dir_def k_lookup_def
      split: option.splits)

lemma ImageIDs_isl: "quiet w \<Longrightarrow> dir_at (w_fs w) (images_dir (ic_storePath b)) \<Longrightarrow> \<not> isl (fst (run_state (ImageIDs b) w))"
  by (auto simp: ImageIDs_def ioutil_ReadDir_def syscall_def quiet_def k_read_dir_def dir_at_def images_dir_def k_lookup_def
      split: option.splits)

lemma MoveVolume_source:
  assumes "run_state (MoveVolume d p q) w = (r, w')" and "quiet w"
    and "fs_get (w_fs w) (resolve p) \<noteq> None" and "fs_get (w_fs w) (resolve q) = None"
    and "dir_at (w_fs w) (butlast (resolve q))" and "\<not> prefix (resolve p) (resolve q)" and "\<not> prefix (resolve q) (resolve p)"
  shows "fs_get (w_fs w') (resolve p) = None"
  using assms
  by (auto simp: MoveVolume_def os_Rename_def syscall_def quiet_def k_rename_def k_parent_def dir_at_def k_lookup_def fs_simps
      split: option.splits sum.splits prod.splits if_splits)

lemma DestroyVolume_removed:
  assumes "run_state (BtrfsDriver.DestroyVolume d v) w = (Inr (), w')" and "tools d (w_env w)" and "plain_name v"
  shows "fs_get (w_fs w') (volume_entry (storePath d) v) = None"
proof -
  let ?p = "Join [storePath d, ''volumes'', v]"
  obtain a w1 where a: "run_state (os_Remove (VolumeMetaFilePath (storePath d) v)) w = (a, w1)" by fastforce
  have r: "run_state (destroyBtrfsVolume d ?p) w1 = (Inr (), w')" using assms(1) a by (simp add: DestroyVolume_def)
  obtain b w2 where b: "run_state (os_Stat_any ?p) w1 = (b, w2)" by fastforce
  obtain q w3 where q: "run_state (destroyQgroup d ?p) w2 = (q, w3)" by fastforce
  obtain c where del: "run_state (run_cmd (btrfsBinPath d) [''subvolume'', ''delete'', ?p]) w3 = (c, w')" and ok: "c_status c = None"
    using r b q by (auto simp: destroyBtrfsVolume_def split: sum.splits prod.splits option.splits)
  have "evolves same_env (os_Remove (VolumeMetaFilePath (storePath d) v))" "evolves same_env (os_Stat_any ?p)" "evolves same_env (destroyQgroup d ?p)"
    unfolding destroyQgroup_def by (intro evolves_rules)+
  from evolvesD [OF this(1) a] evolvesD [OF this(2) b] evolvesD [OF this(3) q] have "w_env w3 = w_env w" by (simp add: same_env_def)
  with assms(2) have "delete_effect (resolve ?p) c (w_fs w3) (w_fs w')"
    using del ok by (auto simp: tools_def btrfs_tool_def run_cmd_def split: option.splits prod.splits)
  with ok assms(3) show ?thesis by (simp add: delete_effect_def fs_simps)
qed

interpretation btrfs_reclaiming: reclaiming "btrfs_ops d" "storePath d" "tools d" "NewImageCloner (btrfs_ops d) (storePath d)" for d
  by unfold_locales
    (simp_all add: btrfs_ops_def NewImageCloner_def Volumes_isl ImageIDs_isl MoveVolume_source DestroyVolume_removed)

section \<open>Properties\<close>

text \<open>C3. When nothing fails, cleaning the store is the abstract clean-up: afterwards the volumes are exactly those that a
  registered image or the caller needs, none is left over and none is lost, and the images are as they were.\<close>

theorem Clean_refines:
  assumes "clean_abs (storePath d)" and "quiet w" and "tools d (w_env w)" and "fair_order (w_env w)"
    and "names_apart (storePath d) (w_fs w)" and "readable_store (storePath d) (w_fs w)" and "no_twins (storePath d) (w_fs w)"
    and "run_state (Cleaner.Clean (store_cleaner d) threshold preserve) w = ((False, None), w')"
  shows "store_abs (storePath d) (w_fs w') = abs_clean preserve (store_abs (storePath d) (w_fs w))"
  by (rule btrfs_reclaiming.Clean_exact [OF assms(1-7) assms(8) [unfolded store_cleaner_def]])

lemma sample_clean_run: "fst (run_state (Cleaner.Clean (store_cleaner sample_driver) 0 []) sample_world) = (False, None)"
  by code_simp

theorem Clean_refines_witness:
  "as_volumes (store_abs ''/s'' (w_fs (snd (run_state (Cleaner.Clean (store_cleaner sample_driver) 0 []) sample_world)))) = {''v1''}"
proof -
  let ?w' = "snd (run_state (Cleaner.Clean (store_cleaner sample_driver) 0 []) sample_world)"
  have run: "run_state (Cleaner.Clean (store_cleaner sample_driver) 0 []) sample_world = ((False, None), ?w')"
    using sample_clean_run by (simp add: prod_eq_iff)
  have ok: "readable_store ''/s'' sample_fs" "no_twins ''/s'' sample_fs" by code_simp+
  have "store_abs (storePath sample_driver) (w_fs ?w') = abs_clean [] (store_abs (storePath sample_driver) (w_fs sample_world))"
    by (rule Clean_refines [OF _ quiet_sample _ _ _ _ _ run]) (simp_all add: sample_tools sample_fair sample_apart ok)
  then have "as_volumes (store_abs ''/s'' (w_fs ?w')) = {v \<in> as_volumes (store_abs ''/s'' sample_fs). live v \<and> v \<in> used_by (store_abs ''/s'' sample_fs)}"
    by (simp add: abs_clean_def)
  moreover have "as_volumes (store_abs ''/s'' sample_fs) = {''v1'', ''v2''}"
  proof -
    have "fs_children (volumes_dir ''/s'') sample_fs = [''v1'', ''v2'']" by code_simp
    then show ?thesis by (simp add: store_abs_def)
  qed
  moreover have "used_by (store_abs ''/s'' sample_fs) = {''v1''}"
  proof -
    have "store_images ''/s'' sample_fs = [''i'']" "store_deps ''/s'' sample_fs ''i'' = Some [''v1'']" by code_simp+
    then show ?thesis by (auto simp: used_by_def store_abs_def split: if_splits)
  qed
  moreover have "live ''v1''" by (simp add: live_def has_prefix_def gc_prefix_def)
  ultimately show ?thesis by auto
qed

end
