(* ===== verification/Lock_Protocol.thy ===== *)
theory Lock_Protocol
  imports Locksmith
begin

text \<open>
  Several processes of the program at one store. Each takes and gives back its advisory locks in the order
  of the code: the lock of the whole store first, and then, while a layer is being built, the lock of the
  layer before that of the layer below it (theory \<open>LockTraces\<close> shows that the code does). A system is a
  list of processes, each with the actions it still has to do and the locks it holds. \<open>flock\<close> blocks
  while another open file has the lock in a mode that excludes it; a process that dies gives up all
  its locks, as the kernel sees to.
\<close>

section \<open>The protocol\<close>

datatype lock_name = Global | Layer string

datatype action = Acquire lock_name lock_mode | Release lock_name

record proc =
  todo :: "action list"
  held :: "(lock_name \<times> lock_mode) list"

definition free :: "proc list \<Rightarrow> lock_name \<Rightarrow> lock_mode \<Rightarrow> bool" where
  "free s l m \<longleftrightarrow> (\<forall>p\<in>set s. \<forall>(l', m')\<in>set (held p). l' = l \<longrightarrow> m = LOCK_SH \<and> m' = LOCK_SH)"

definition drop_lock :: "lock_name \<Rightarrow> (lock_name \<times> lock_mode) list \<Rightarrow> (lock_name \<times> lock_mode) list" where
  "drop_lock l hs = filter (\<lambda>h. fst h \<noteq> l) hs"

inductive step :: "proc list \<Rightarrow> proc list \<Rightarrow> bool" where
  acquire: "i < length s \<Longrightarrow> todo (s ! i) = Acquire l m # t \<Longrightarrow> free s l m \<Longrightarrow>
     step s (s[i := \<lparr>todo = t, held = (l, m) # held (s ! i)\<rparr>])"
| release: "i < length s \<Longrightarrow> todo (s ! i) = Release l # t \<Longrightarrow>
     step s (s[i := \<lparr>todo = t, held = drop_lock l (held (s ! i))\<rparr>])"

inductive die :: "proc list \<Rightarrow> proc list \<Rightarrow> bool" where
  "i < length s \<Longrightarrow> die s (s[i := \<lparr>todo = [], held = []\<rparr>])"

inductive_cases stepE: "step s s'"
inductive_cases dieE: "die s s'"

definition start :: "action list list \<Rightarrow> proc list" where
  "start ts = map (\<lambda>t. \<lparr>todo = t, held = []\<rparr>) ts"

definition moves :: "proc list \<Rightarrow> proc list \<Rightarrow> bool" where
  "moves s s' \<longleftrightarrow> step s s' \<or> die s s'"

abbreviation reachable :: "action list list \<Rightarrow> proc list \<Rightarrow> bool" where
  "reachable ts \<equiv> moves\<^sup>*\<^sup>* (start ts)"

definition finished :: "proc list \<Rightarrow> bool" where
  "finished s \<longleftrightarrow> (\<forall>p\<in>set s. todo p = [])"

section \<open>What the commands do with locks\<close>

text \<open>
  \<open>pull_trace cs t\<close>: pulling the layers \<open>cs\<close>, topmost first, may do \<open>t\<close>. It takes no lock where the layer is there
  already or the lock cannot be had, and gives a lock back after all below it.
\<close>

inductive pull_trace :: "string list \<Rightarrow> action list \<Rightarrow> bool" where
  nothing: "pull_trace cs []"
| build: "pull_trace cs t \<Longrightarrow> pull_trace (c # cs) (Acquire (Layer c) LOCK_EX # t @ [Release (Layer c)])"

inductive clean_trace :: "action list \<Rightarrow> bool" where
  "clean_trace []"
| "clean_trace [Acquire Global LOCK_EX, Release Global]"

inductive create_trace :: "string list \<Rightarrow> action list \<Rightarrow> bool" where
  "clean_trace t \<Longrightarrow> create_trace cs t"
| "clean_trace t \<Longrightarrow> pull_trace cs u \<Longrightarrow> create_trace cs (t @ Acquire Global LOCK_SH # u @ [Release Global])"

inductive delete_store_trace :: "action list \<Rightarrow> bool" where
  "delete_store_trace []"
| "delete_store_trace [Acquire Global LOCK_SH, Release Global]"

text \<open>The traces can be enumerated.\<close>

code_pred pull_trace .
code_pred clean_trace .
code_pred create_trace .
code_pred delete_store_trace .

text \<open>A process of the program, where the layers of an image get deeper as \<open>depth\<close> counts.\<close>

definition process_trace :: "(string \<Rightarrow> nat) \<Rightarrow> action list \<Rightarrow> bool" where
  "process_trace depth t \<longleftrightarrow>
     clean_trace t \<or> delete_store_trace t \<or> (\<exists>cs. create_trace cs t \<and> sorted_wrt (\<lambda>c d. depth d < depth c) cs)"

section \<open>Locks are taken in order\<close>

fun below_lock :: "(string \<Rightarrow> nat) \<Rightarrow> lock_name \<Rightarrow> lock_name \<Rightarrow> bool" where
  "below_lock depth (Layer c) Global = True"
| "below_lock depth (Layer c) (Layer d) = (depth c < depth d)"
| "below_lock depth Global l = False"

fun in_order :: "(string \<Rightarrow> nat) \<Rightarrow> (lock_name \<times> lock_mode) list \<Rightarrow> action list \<Rightarrow> bool" where
  "in_order depth hs [] = (hs = [])"
| "in_order depth hs (Acquire l m # t) = ((\<forall>h\<in>set hs. below_lock depth l (fst h)) \<and> in_order depth ((l, m) # hs) t)"
| "in_order depth hs (Release l # t) = (\<exists>m hs'. hs = (l, m) # hs' \<and> l \<notin> fst ` set hs' \<and> in_order depth hs' t)"

lemma pull_in_order:
  "pull_trace cs u \<Longrightarrow> sorted_wrt (\<lambda>c d. depth d < depth c) cs \<Longrightarrow>
     \<forall>h\<in>set hs. \<forall>c\<in>set cs. below_lock depth (Layer c) (fst h) \<Longrightarrow> in_order depth hs rest \<Longrightarrow> in_order depth hs (u @ rest)"
proof (induction arbitrary: hs rest rule: pull_trace.induct)
  case (build cs t c)
  have "in_order depth ((Layer c, LOCK_EX) # hs) (Release (Layer c) # rest)" using build.prems by force
  from build.IH [OF _ _ this] build.prems show ?case by auto
qed simp

lemma clean_in_order: "clean_trace t \<Longrightarrow> in_order depth [] rest \<Longrightarrow> in_order depth [] (t @ rest)"
  by (auto elim!: clean_trace.cases)

lemma process_in_order:
  assumes "process_trace depth t"
  shows "in_order depth [] t"
  using assms unfolding process_trace_def
proof (elim disjE exE conjE)
  assume "clean_trace t"
  from clean_in_order [OF this, of depth "[]"] show ?thesis by simp
next
  assume "delete_store_trace t"
  then show ?thesis by (auto elim!: delete_store_trace.cases)
next
  fix cs assume "create_trace cs t" and cs: "sorted_wrt (\<lambda>c d. depth d < depth c) cs"
  then show ?thesis
  proof (cases rule: create_trace.cases)
    case 1
    from clean_in_order [OF this, of depth "[]"] show ?thesis by simp
  next
    case (2 v u)
    from pull_in_order [OF 2(3) cs, of "[(Global, LOCK_SH)]" "[Release Global]"]
    have "in_order depth [] (Acquire Global LOCK_SH # u @ [Release Global])" by simp
    from clean_in_order [OF 2(2) this] show ?thesis by (simp add: 2(1))
  qed
qed

section \<open>Invariants\<close>

definition orderly :: "(string \<Rightarrow> nat) \<Rightarrow> proc list \<Rightarrow> bool" where
  "orderly depth s \<longleftrightarrow> (\<forall>p\<in>set s. in_order depth (held p) (todo p))"

definition exclusive :: "proc list \<Rightarrow> bool" where
  "exclusive s \<longleftrightarrow> (\<forall>i<length s. \<forall>j<length s. \<forall>l m m'. i \<noteq> j \<longrightarrow> (l, m) \<in> set (held (s ! i)) \<longrightarrow>
     (l, m') \<in> set (held (s ! j)) \<longrightarrow> m = LOCK_SH \<and> m' = LOCK_SH)"

lemma set_update: "p \<in> set (s[i := q]) \<Longrightarrow> p = q \<or> p \<in> set s"
  by (metis insertE set_update_subset_insert subsetD)

lemma drop_lock_head: "l \<notin> fst ` set hs \<Longrightarrow> drop_lock l ((l, m) # hs) = hs"
  by (auto simp: drop_lock_def filter_id_conv)

lemma step_orderly: "step s s' \<Longrightarrow> orderly depth s \<Longrightarrow> orderly depth s'"
proof (induction rule: step.induct)
  case (acquire i s l m t)
  then have "in_order depth (held (s ! i)) (Acquire l m # t)" by (metis nth_mem orderly_def)
  with acquire.prems show ?case by (auto simp: orderly_def dest!: set_update)
next
  case (release i s l t)
  then have "in_order depth (held (s ! i)) (Release l # t)" by (metis nth_mem orderly_def)
  with release.prems show ?case by (auto simp: orderly_def drop_lock_head dest!: set_update)
qed

lemma die_orderly: "die s s' \<Longrightarrow> orderly depth s \<Longrightarrow> orderly depth s'"
  by (auto elim!: dieE simp: orderly_def dest!: set_update)

lemma exclusive_update:
  assumes "exclusive s" and "\<And>l m j m'. (l, m) \<in> set (held q) \<Longrightarrow> j < length s \<Longrightarrow> j \<noteq> i \<Longrightarrow> (l, m') \<in> set (held (s ! j)) \<Longrightarrow>
      m = LOCK_SH \<and> m' = LOCK_SH"
  shows "exclusive (s[i := q])"
  unfolding exclusive_def
proof (intro allI impI)
  fix j k l m m' assume *: "j < length (s[i := q])" "k < length (s[i := q])" "j \<noteq> k"
    "(l, m) \<in> set (held (s[i := q] ! j))" "(l, m') \<in> set (held (s[i := q] ! k))"
  show "m = LOCK_SH \<and> m' = LOCK_SH"
  proof (cases "i = j")
    case True
    with * assms(2) [of l m k m'] show ?thesis by simp
  next
    case False
    show ?thesis
    proof (cases "i = k")
      case True
      with * assms(2) [of l m' j m] show ?thesis by simp
    next
      case False
      with \<open>i \<noteq> j\<close> * assms(1) show ?thesis by (simp add: exclusive_def)
    qed
  qed
qed

lemma moves_exclusive: "moves s s' \<Longrightarrow> exclusive s \<Longrightarrow> exclusive s'"
  unfolding moves_def
proof (elim disjE)
  assume "step s s'" and "exclusive s"
  then show "exclusive s'"
  proof (induction rule: step.induct)
    case (acquire i s l m t)
    show ?case
    proof (rule exclusive_update [OF acquire.prems])
      fix l' m1 j m2 assume *: "(l', m1) \<in> set (held \<lparr>todo = t, held = (l, m) # held (s ! i)\<rparr>)" "j < length s" "j \<noteq> i" "(l', m2) \<in> set (held (s ! j))"
      show "m1 = LOCK_SH \<and> m2 = LOCK_SH"
      proof (cases "(l', m1) = (l, m)")
        case True
        with * acquire.hyps(3) show ?thesis unfolding free_def by (metis (mono_tags, lifting) case_prodD nth_mem prod.inject)
      next
        case False
        with * acquire.hyps(1) acquire.prems show ?thesis by (auto simp: exclusive_def)
      qed
    qed
  next
    case (release i s l t)
    show ?case
      by (rule exclusive_update [OF release.prems]) (use release in \<open>auto simp: drop_lock_def exclusive_def\<close>)
  qed
next
  assume "die s s'" and "exclusive s"
  then show "exclusive s'" by (auto elim!: dieE intro: exclusive_update)
qed

lemma reachable_inv:
  assumes "reachable ts s" and "\<And>s s'. moves s s' \<Longrightarrow> P s \<Longrightarrow> P s'" and "P (start ts)"
  shows "P s"
  using assms(1) by (induction rule: rtranclp_induct) (auto intro: assms(2,3))

lemma reachable_orderly: "reachable ts s \<Longrightarrow> \<forall>t\<in>set ts. process_trace depth t \<Longrightarrow> orderly depth s"
  by (erule reachable_inv)
    (auto simp: moves_def start_def orderly_def [of _ "map _ _"] intro: step_orderly die_orderly process_in_order)

lemma reachable_exclusive: "reachable ts s \<Longrightarrow> exclusive s"
  by (erule reachable_inv, erule (1) moves_exclusive) (simp add: exclusive_def start_def)

section \<open>Progress\<close>

definition lock_rank :: "(string \<Rightarrow> nat) \<Rightarrow> lock_name \<Rightarrow> nat \<times> nat" where
  "lock_rank depth l = (case l of Global \<Rightarrow> (1, 0) | Layer c \<Rightarrow> (0, depth c))"

lemma below_lock_rank: "below_lock depth l l' \<Longrightarrow> (lock_rank depth l, lock_rank depth l') \<in> less_than <*lex*> less_than"
  by (cases "(depth, l, l')" rule: below_lock.cases) (auto simp: lock_rank_def)

lemma progress:
  assumes "orderly depth s" and "\<not> finished s"
  shows "\<exists>s'. step s s'"
proof (rule ccontr)
  assume stuck: "\<nexists>s'. step s s'"
  have waits: "\<exists>l m. \<exists>t. todo p = Acquire l m # t \<and> \<not> free s l m" if p: "p \<in> set s" "todo p \<noteq> []" for p
  proof -
    obtain i where i: "i < length s" "p = s ! i" using p(1) by (auto simp: in_set_conv_nth)
    obtain a t where a: "todo p = a # t" using p(2) by (cases "todo p") auto
    show ?thesis
    proof (cases a)
      case (Acquire l m)
      with stuck step.acquire [OF i(1), of l m t] a i(2) show ?thesis by auto
    next
      case (Release l)
      with stuck step.release [OF i(1), of l t] a i(2) show ?thesis by auto
    qed
  qed
  define W where "W = {l. \<exists>p\<in>set s. \<exists>m t. todo p = Acquire l m # t}"
  obtain p0 where p0: "p0 \<in> set s" "todo p0 \<noteq> []" using assms(2) by (auto simp: finished_def)
  from waits [OF this] p0(1) obtain l0 where l0: "l0 \<in> W" by (auto simp: W_def)
  let ?R = "inv_image (less_than <*lex*> less_than) (lock_rank depth)"
  have "wf ?R" by (intro wf_inv_image wf_lex_prod wf_less_than)
  then obtain l where l: "l \<in> W" "\<And>l'. (l', l) \<in> ?R \<Longrightarrow> l' \<notin> W" using l0 by (rule wfE_min) (rule that)
  then obtain p m t where p: "p \<in> set s" "todo p = Acquire l m # t" "\<not> free s l m" using waits by (force simp: W_def)
  then obtain q m' where q: "q \<in> set s" "(l, m') \<in> set (held q)" by (auto simp: free_def)
  with assms(1) have o: "in_order depth (held q) (todo q)" by (simp add: orderly_def)
  with q(2) have "todo q \<noteq> []" by auto
  with waits q(1) obtain l' m2 t2 where w: "todo q = Acquire l' m2 # t2" by blast
  with o q(2) have "below_lock depth l' l" by auto
  then have "l' \<notin> W" using below_lock_rank [of depth l' l] by (intro l(2)) simp
  with q(1) w show False by (auto simp: W_def)
qed

definition work :: "proc list \<Rightarrow> nat" where
  "work s = sum_list (map (length \<circ> todo) s)"

lemma work_update: "i < length s \<Longrightarrow> length (todo q) < length (todo (s ! i)) \<Longrightarrow> work (s[i := q]) < work s"
proof (induction s arbitrary: i)
  case (Cons p s)
  then show ?case by (cases i) (auto simp: work_def)
qed simp

lemma step_work: "step s s' \<Longrightarrow> work s' < work s"
  by (erule stepE) (auto intro: work_update)

lemma finishes: "orderly depth s \<Longrightarrow> \<exists>s'. step\<^sup>*\<^sup>* s s' \<and> finished s'"
proof (induction "work s" arbitrary: s rule: less_induct)
  case less
  show ?case
  proof (cases "finished s")
    case False
    with progress less.prems obtain s1 where s1: "step s s1" by blast
    with less.hyps [OF step_work [OF s1] step_orderly [OF s1 less.prems]] show ?thesis
      by (meson converse_rtranclp_into_rtranclp)
  qed auto
qed

section \<open>Properties\<close>

text \<open>C9. No deadlock: however many processes create images, clean and delete at one store, and whichever of them die on the
  way, in every state that they can reach the remaining ones can go on until all have finished.\<close>

theorem locks_never_deadlock:
  assumes "\<forall>t\<in>set ts. process_trace depth t" and "reachable ts s"
  shows "\<exists>s'. step\<^sup>*\<^sup>* s s' \<and> finished s'"
  by (rule finishes [OF reachable_orderly [OF assms(2,1)]])


section \<open>Examples\<close>

text \<open>Two images over a common layer, and a clean-up.\<close>

definition two_creates :: "action list list" where
  "two_creates =
     [[Acquire Global LOCK_SH, Acquire (Layer ''b'') LOCK_EX, Acquire (Layer ''a'') LOCK_EX, Release (Layer ''a''), Release (Layer ''b''), Release Global],
      [Acquire Global LOCK_SH, Acquire (Layer ''c'') LOCK_EX, Acquire (Layer ''a'') LOCK_EX, Release (Layer ''a''), Release (Layer ''c''), Release Global],
      [Acquire Global LOCK_EX, Release Global]]"

definition sample_depth :: "string \<Rightarrow> nat" where
  "sample_depth c = (if c = ''a'' then 0 else 1)"

lemma two_layers: "create_trace [c, d] [Acquire Global LOCK_SH, Acquire (Layer c) LOCK_EX, Acquire (Layer d) LOCK_EX, Release (Layer d), Release (Layer c), Release Global]"
proof -
  have "pull_trace [c, d] [Acquire (Layer c) LOCK_EX, Acquire (Layer d) LOCK_EX, Release (Layer d), Release (Layer c)]"
    using pull_trace.build [OF pull_trace.build [OF pull_trace.nothing [of "[]"], of d], of c] by simp
  from create_trace.intros(2) [OF clean_trace.intros(1) this] show ?thesis by simp
qed

lemma two_creates_traces: "\<forall>t\<in>set two_creates. process_trace sample_depth t"
proof -
  have "process_trace sample_depth [Acquire Global LOCK_EX, Release Global]"
    by (simp add: process_trace_def clean_trace.intros)
  moreover have "process_trace sample_depth [Acquire Global LOCK_SH, Acquire (Layer c) LOCK_EX, Acquire (Layer ''a'') LOCK_EX,
      Release (Layer ''a''), Release (Layer c), Release Global]" if "c \<noteq> ''a''" for c
    unfolding process_trace_def
    by (rule disjI2, rule disjI2, rule exI [of _ "[c, ''a'']"]) (simp add: two_layers sample_depth_def that)
  ultimately show ?thesis by (simp add: two_creates_def)
qed

theorem locks_never_deadlock_witness: "\<exists>s'. step\<^sup>*\<^sup>* (start two_creates) s' \<and> finished s'"
  by (rule locks_never_deadlock [OF two_creates_traces rtranclp.rtrancl_refl])

text \<open>After the clean-up took the lock of the store, no other process has it.\<close>

lemma one_step: "reachable two_creates ((start two_creates)[2 := \<lparr>todo = [Release Global], held = [(Global, LOCK_EX)]\<rparr>])"
proof -
  have "step (start two_creates) ((start two_creates)[2 := \<lparr>todo = [Release Global], held = (Global, LOCK_EX) # held (start two_creates ! 2)\<rparr>])"
    by (rule step.acquire) (simp_all add: start_def two_creates_def free_def)
  then have "moves (start two_creates) ((start two_creates)[2 := \<lparr>todo = [Release Global], held = [(Global, LOCK_EX)]\<rparr>])"
    by (simp add: moves_def start_def two_creates_def)
  then show ?thesis by (rule r_into_rtranclp)
qed


text \<open>Deleting the store takes its lock in shared mode, as creating an image does, so the two can run at the same time.\<close>

lemma delete_store_overlaps:
  assumes "create_trace cs (Acquire Global LOCK_SH # t)"
  shows "\<exists>s. reachable [[Acquire Global LOCK_SH, Release Global], Acquire Global LOCK_SH # t] s \<and>
    (Global, LOCK_SH) \<in> set (held (s ! 0)) \<and> (Global, LOCK_SH) \<in> set (held (s ! 1))"
proof -
  let ?p = "\<lparr>todo = [Release Global], held = [(Global, LOCK_SH)]\<rparr>" and ?q = "\<lparr>todo = t, held = [(Global, LOCK_SH)]\<rparr>"
  let ?s = "start [[Acquire Global LOCK_SH, Release Global], Acquire Global LOCK_SH # t]"
  have "moves ?s (?s[0 := ?p])" unfolding moves_def
    using step.acquire [of 0 ?s Global LOCK_SH "[Release Global]"] by (simp add: start_def free_def)
  moreover have "moves (?s[0 := ?p]) (?s[0 := ?p, 1 := ?q])" unfolding moves_def
    using step.acquire [of 1 "?s[0 := ?p]" Global LOCK_SH t] by (simp add: start_def free_def)
  ultimately have "reachable [[Acquire Global LOCK_SH, Release Global], Acquire Global LOCK_SH # t] (?s[0 := ?p, 1 := ?q])"
    by (rule converse_rtranclp_into_rtranclp [OF _ r_into_rtranclp])
  moreover have "(Global, LOCK_SH) \<in> set (held (?s[0 := ?p, 1 := ?q] ! 0))" "(Global, LOCK_SH) \<in> set (held (?s[0 := ?p, 1 := ?q] ! 1))"
    by (simp_all add: start_def)
  ultimately show ?thesis by blast
qed

end
