(* ===== verification/LockTraces.thy ===== *)
theory LockTraces
  imports Lock_Protocol ImageLaws
begin

text \<open>
  The locks that the code takes, and their order. The operations get their locksmith as an argument; here it
  is one that writes down every call, in the list of the locks held, which nothing else touches. The
  calls of \<open>Pull\<close>, \<open>Clean\<close> and \<open>Create\<close> are then what the protocol of theory \<open>Lock_Protocol\<close> allows, on every
  path through the code and whatever fails.
\<close>

section \<open>A locksmith that writes down its calls\<close>

definition tracing :: "lock_mode \<Rightarrow> locksmith_ops" where
  "tracing m = \<lparr>
     lk_Lock = (\<lambda>k. State (\<lambda>w. case e_faults (w_env w) (w_clock w) of
        Some e \<Rightarrow> (Inl (SysError e), tick w)
      | None \<Rightarrow> (Inr (length (w_locks w)), (tick w)\<lparr>w_locks := w_locks w @ [(length (w_locks w), [k], m)]\<rparr>))),
     lk_Unlock = (\<lambda>fd. State (\<lambda>w. (Inr (), w\<lparr>w_locks := w_locks w @ [(fd, [], m)]\<rparr>)))\<rparr>"

definition lock_of_key :: "string \<Rightarrow> lock_name" where
  "lock_of_key k = (if k = GlobalLockKey then Global else Layer k)"

text \<open>What an entry of the log stands for: a call of \<open>Unlock\<close> has the number of the call of \<open>Lock\<close> it answers.\<close>

definition logged_action :: "(nat \<times> path \<times> lock_mode) list \<Rightarrow> nat \<times> path \<times> lock_mode \<Rightarrow> action" where
  "logged_action L e =
     (case e of (fd, p, m) \<Rightarrow>
        (case p of [] \<Rightarrow> Release (lock_of_key (hd (fst (snd (L ! fd))))) | k # _ \<Rightarrow> Acquire (lock_of_key k) m))"

definition actions_of :: "world \<Rightarrow> action list" where
  "actions_of w = map (logged_action (w_locks w)) (w_locks w)"

text \<open>Every run of \<open>m\<close> adds to the log what stands for one of \<open>T\<close>.\<close>

definition traces :: "'a io \<Rightarrow> (action list \<Rightarrow> bool) \<Rightarrow> bool" where
  "traces m T \<longleftrightarrow>
     (\<forall>w r w'. run_state m w = (r, w') \<longrightarrow>
        (\<exists>new t. w_locks w' = w_locks w @ new \<and> T t \<and> (\<forall>more. map (logged_action (w_locks w' @ more)) new = t)))"

definition silent :: "action list \<Rightarrow> bool" where
  "silent t \<longleftrightarrow> t = []"

definition after_trace :: "(action list \<Rightarrow> bool) \<Rightarrow> (action list \<Rightarrow> bool) \<Rightarrow> action list \<Rightarrow> bool" where
  "after_trace T U v \<longleftrightarrow> (\<exists>t u. v = t @ u \<and> T t \<and> U u)"

definition locked_trace :: "lock_name \<Rightarrow> lock_mode \<Rightarrow> (action list \<Rightarrow> bool) \<Rightarrow> action list \<Rightarrow> bool" where
  "locked_trace l m T v \<longleftrightarrow> v = [] \<or> (\<exists>t. v = Acquire l m # t @ [Release l] \<and> T t)"

lemma tracesD:
  assumes "traces m T" and "run_state m w = (r, w')"
  obtains new t where "w_locks w' = w_locks w @ new" and "T t" and "\<And>more. map (logged_action (w_locks w' @ more)) new = t"
proof -
  from assms have "\<exists>new t. w_locks w' = w_locks w @ new \<and> T t \<and> (\<forall>more. map (logged_action (w_locks w' @ more)) new = t)"
    by (simp add: traces_def)
  then show ?thesis using that by blast
qed

lemma tracesI:
  "(\<And>w r w'. run_state m w = (r, w') \<Longrightarrow>
      \<exists>new t. w_locks w' = w_locks w @ new \<and> T t \<and> (\<forall>more. map (logged_action (w_locks w' @ more)) new = t)) \<Longrightarrow> traces m T"
  by (simp add: traces_def)

lemma traces_mono: "traces m T \<Longrightarrow> (\<And>t. T t \<Longrightarrow> U t) \<Longrightarrow> traces m U"
  unfolding traces_def by metis

lemma traces_same: "evolves same_locks m \<Longrightarrow> traces m silent"
  by (rule tracesI) (auto simp: silent_def same_locks_def dest!: evolvesD)

lemma traces_none: "evolves same_locks m \<Longrightarrow> T [] \<Longrightarrow> traces m T"
  by (rule traces_mono [OF traces_same]) (simp_all add: silent_def)

lemma traces_bind:
  assumes m: "traces m T" and k: "\<And>w x w'. run_state m w = (x, w') \<Longrightarrow> traces (k x) U"
  shows "traces (m \<bind> k) (after_trace T U)"
proof (rule tracesI)
  fix w r w'
  assume "run_state (m \<bind> k) w = (r, w')"
  then obtain x w1 where 1: "run_state m w = (x, w1)" and 2: "run_state (k x) w1 = (r, w')" by (auto split: prod.splits)
  from m 1 obtain n1 t1 where a: "w_locks w1 = w_locks w @ n1" "T t1" "\<And>more. map (logged_action (w_locks w1 @ more)) n1 = t1"
    by (rule tracesD) (rule that)
  from k [OF 1] 2 obtain n2 t2 where b: "w_locks w' = w_locks w1 @ n2" "U t2" "\<And>more. map (logged_action (w_locks w' @ more)) n2 = t2"
    by (rule tracesD) (rule that)
  have "map (logged_action (w_locks w' @ more)) (n1 @ n2) = t1 @ t2" for more
    using a(3) [of "n2 @ more"] b(3) [of more] by (simp add: b(1))
  with a(1,2) b(1,2) show "\<exists>new t. w_locks w' = w_locks w @ new \<and> after_trace T U t \<and> (\<forall>more. map (logged_action (w_locks w' @ more)) new = t)"
    by (intro exI [of _ "n1 @ n2"] exI [of _ "t1 @ t2"]) (auto simp: after_trace_def)
qed

lemma silent_after [simp]: "after_trace silent U = U" "after_trace T silent = T"
  by (auto simp: after_trace_def silent_def fun_eq_iff)

lemma traces_then: "evolves same_locks m \<Longrightarrow> (\<And>w x w'. run_state m w = (x, w') \<Longrightarrow> traces (k x) U) \<Longrightarrow> traces (m \<bind> k) U"
  using traces_bind [OF traces_same] by fastforce

lemma traces_last: "traces m T \<Longrightarrow> (\<And>x. evolves same_locks (k x)) \<Longrightarrow> traces (m \<bind> k) T"
  using traces_bind [OF _ traces_same] by fastforce

lemma traces_or_return:
  assumes "traces m T" and "\<And>w x w'. run_state m w = (Inr x, w') \<Longrightarrow> traces (k x) U" and "U []"
  shows "traces (or_return m h k) (after_trace T U)"
  unfolding or_return_def
proof (rule traces_bind [OF assms(1)])
  fix w x w' assume run: "run_state m w = (x, w')"
  show "traces (case x of Inl e \<Rightarrow> State_Monad.return (Inl (h e)) | Inr x \<Rightarrow> k x) U"
  proof (cases x)
    case (Inl e)
    then show ?thesis by (simp add: traces_none [OF evolves_return] assms(3))
  next
    case (Inr y)
    with assms(2) run show ?thesis by simp
  qed
qed

lemma traces_or_return_then:
  "evolves same_locks m \<Longrightarrow> (\<And>w x w'. run_state m w = (Inr x, w') \<Longrightarrow> traces (k x) U) \<Longrightarrow> U [] \<Longrightarrow> traces (or_return m h k) U"
  using traces_or_return [OF traces_same] by fastforce

lemma traces_or_return_last: "traces m T \<Longrightarrow> (\<And>x. evolves same_locks (k x)) \<Longrightarrow> traces (or_return m h k) T"
  unfolding or_return_def by (erule traces_last) (intro evolves_rules)

lemma traces_if: "(b \<Longrightarrow> traces m T) \<Longrightarrow> (\<not> b \<Longrightarrow> traces n T) \<Longrightarrow> traces (if b then m else n) T"
  by simp

lemma traces_timed: "traces m T \<Longrightarrow> traces (timed n m) T"
  unfolding timed_def time_Now_def by (intro traces_then traces_last evolves_rules)

lemma traces_case_prod: "(\<And>x y. r = (x, y) \<Longrightarrow> traces (f x y) T) \<Longrightarrow> traces (case r of (x, y) \<Rightarrow> f x y) T"
  by (simp split: prod.splits)

text \<open>The bracket: take the lock, work, give it back.\<close>

lemma traces_locked:
  assumes body: "\<And>fd. traces (body fd) T" and rest: "\<And>e. evolves same_locks (h e)" "\<And>fd r. evolves same_locks (k fd r)"
  shows "traces (do { l \<leftarrow> lk_Lock (tracing m) key;
      (case l of Inl e \<Rightarrow> h e | Inr fd \<Rightarrow> do { r \<leftarrow> body fd; _ \<leftarrow> lk_Unlock (tracing m) fd; k fd r }) }) (locked_trace (lock_of_key key) m T)"
    (is "traces ?m ?T")
proof (rule tracesI)
  fix w r w' assume run: "run_state ?m w = (r, w')"
  show "\<exists>new t. w_locks w' = w_locks w @ new \<and> ?T t \<and> (\<forall>more. map (logged_action (w_locks w' @ more)) new = t)"
  proof (cases "e_faults (w_env w) (w_clock w)")
    case (Some e)
    with run have "run_state (h (SysError e)) (tick w) = (r, w')" by (simp add: tracing_def)
    with evolvesD [OF rest(1)] have "w_locks w' = w_locks w" by (fastforce simp: same_locks_def)
    then show ?thesis by (intro exI [of _ "[]"]) (simp add: locked_trace_def)
  next
    case None
    let ?n = "length (w_locks w)"
    define w1 where "w1 = (tick w)\<lparr>w_locks := w_locks w @ [(?n, [key], m)]\<rparr>"
    obtain x w2 where b: "run_state (body ?n) w1 = (x, w2)" by fastforce
    let ?w3 = "w2\<lparr>w_locks := w_locks w2 @ [(?n, [], m)]\<rparr>"
    from run None b have "run_state (k ?n x) ?w3 = (r, w')" by (simp add: tracing_def w1_def)
    with evolvesD [OF rest(2)] have w': "w_locks w' = w_locks w2 @ [(?n, [], m)]" by (fastforce simp: same_locks_def)
    from body b obtain nb tb where nb: "w_locks w2 = w_locks w1 @ nb" "T tb" "\<And>more. map (logged_action (w_locks w2 @ more)) nb = tb"
      by (rule tracesD) (rule that)
    have "map (logged_action (w_locks w' @ more)) ((?n, [key], m) # nb @ [(?n, [], m)]) = Acquire (lock_of_key key) m # tb @ [Release (lock_of_key key)]" for more
      using nb(3) [of "(?n, [], m) # more"] by (simp add: w' nb(1) w1_def logged_action_def)
    then show ?thesis
      using w' nb(1,2) by (intro exI [of _ "(?n, [key], m) # nb @ [(?n, [], m)]"]) (auto simp: locked_trace_def w1_def)
  qed
qed

section \<open>The code\<close>

lemma other_locksmith:
  "volumeExists (p\<lparr>bp_locksmith := l\<rparr>) = volumeExists p" "downloadLayer (p\<lparr>bp_locksmith := l\<rparr>) = downloadLayer p"
  "unpackLayer (p\<lparr>bp_locksmith := l\<rparr>) = unpackLayer p" "FetchBaseImageInfo (p\<lparr>bp_locksmith := l\<rparr>) = FetchBaseImageInfo p"
  "bp_locksmith (p\<lparr>bp_locksmith := l\<rparr>) = l"
  by (simp_all add: fun_eq_iff volumeExists_def downloadLayer_def unpackLayer_def createTemporaryVolumeDirectory_def
      unpackLayerToTemporaryDirectory_def unpack_and_handle_def finalizeVolume_def FetchBaseImageInfo_def Let_def
      cong: if_cong sum.case_cong)

context pulling
begin

lemma buildLayer_traces:
  "n \<le> length ls \<Longrightarrow> GlobalLockKey \<notin> li_ChainID ` set ls \<Longrightarrow>
     traces (buildLayer (p\<lparr>bp_locksmith := tracing LOCK_EX\<rparr>) n ls spec) (pull_trace (rev (map li_ChainID (take n ls))))"
proof (induction n)
  case 0
  then show ?case by (simp add: traces_none evolves_ok pull_trace.nothing)
next
  case (Suc n)
  let ?c = "li_ChainID (ls ! n)" and ?cs = "rev (map li_ChainID (take n ls))"
  let ?T = "pull_trace ?cs" and ?p = "p\<lparr>bp_locksmith := tracing LOCK_EX\<rparr>"
  have cs: "rev (map li_ChainID (take (Suc n) ls)) = ?c # ?cs" using Suc.prems(1) by (simp add: take_Suc_conv_app_nth)
  have key: "lock_of_key ?c = Layer ?c" using Suc.prems by (metis Suc_le_eq imageI lock_of_key_def nth_mem)
  have locked: "pull_trace (?c # ?cs) t" if "locked_trace (lock_of_key ?c) LOCK_EX ?T t" for t
    using that by (auto simp: locked_trace_def key intro: pull_trace.intros)
  have vol: "evolves same_locks (volumeExists p c)" for c unfolding volumeExists_def by (intro evolves_rules layer_ops_same_locks)
  have below: "traces (buildLayer ?p n ls spec) ?T" using Suc by simp
  have rest: "evolves same_locks (case d of Inl err \<Rightarrow> fail err | Inr stream \<Rightarrow> do {
       r \<leftarrow> unpackLayer p (ls ! n) (parent_layer ls n) spec stream;
       _ \<leftarrow> close_blob stream;
       State_Monad.return r })" for d
    by (intro evolves_rules layer_ops_same_locks)
  have work: "traces (do {
       exists \<leftarrow> volumeExists p ?c;
       if exists then ok ()
       else do {
         download \<leftarrow> downloadLayer p spec (ls ! n);
         or_return (buildLayer ?p n ls spec) id (\<lambda>_.
         (case download of
            Inl err \<Rightarrow> fail err
          | Inr stream \<Rightarrow> do {
              r \<leftarrow> unpackLayer p (ls ! n) (parent_layer ls n) spec stream;
              _ \<leftarrow> close_blob stream;
              State_Monad.return r
            })) } }) ?T"
    by (intro traces_then [OF vol] traces_if traces_none [OF evolves_ok] pull_trace.nothing preorder_same_locks
        traces_then [OF layer_ops_same_locks(3)] traces_or_return_last [OF below] rest)
  show ?case
    unfolding cs buildLayer.simps Let_def other_locksmith
    by (intro traces_then [OF vol] traces_if traces_none [OF evolves_ok] pull_trace.nothing preorder_same_locks
        traces_mono [OF traces_locked [OF work] locked] evolves_fail evolves_return)
qed

lemma Pull_traces:
  assumes "GlobalLockKey \<notin> set (chainIDs (bi_LayerInfos info))"
  shows "traces (Pull (p\<lparr>bp_locksmith := tracing LOCK_EX\<rparr>) info spec) (pull_trace (rev (chainIDs (bi_LayerInfos info))))"
  unfolding Pull_def
  by (rule traces_or_return_then) (use buildLayer_traces [of "length (bi_LayerInfos info)" "bi_LayerInfos info" spec] assms
      in \<open>auto simp: chainIDs_def intro: evolves_rules pull_trace.nothing\<close>)

end

context cleaning
begin

lemma Clean_traces:
  "traces (Cleaner.Clean ((cleaner_of ops sm ic store)\<lparr>cl_locksmith := tracing LOCK_EX\<rparr>) threshold preserve) clean_trace"
proof -
  let ?c = "(cleaner_of ops sm ic store)\<lparr>cl_locksmith := tracing LOCK_EX\<rparr>"
  have gc: "cl_garbageCollector ?c = NewGC ops (ImageIDs ic) (Dependencies (store_registry store))"
    by (simp add: cleaner_of_def IamCleaner_def)
  have *: "mark_and_collect ?c preserve = do {
      l \<leftarrow> lk_Lock (tracing LOCK_EX) GlobalLockKey;
      (case l of
         Inl err \<Rightarrow> State_Monad.return (False, Some (Wrap ''garbage collector acquiring lock'' err))
       | Inr fd \<Rightarrow> do {
           r \<leftarrow> do { unused \<leftarrow> UnusedVolumes (cl_garbageCollector ?c) preserve;
                   MarkUnused (cl_garbageCollector ?c) (case unused of Inl _ \<Rightarrow> [] | Inr vs \<Rightarrow> vs) };
           _ \<leftarrow> lk_Unlock (tracing LOCK_EX) fd;
           r \<leftarrow> Collect (cl_garbageCollector ?c);
           State_Monad.return (False, case r of Inl err \<Rightarrow> Some err | Inr _ \<Rightarrow> None)
         })}"
    by (simp add: mark_and_collect_def cong: sum.case_cong)
  have locked: "clean_trace t" if "locked_trace (lock_of_key GlobalLockKey) LOCK_EX silent t" for t
    using that by (auto simp: locked_trace_def lock_of_key_def silent_def intro: clean_trace.intros)
  have mark: "traces (mark_and_collect ?c preserve) clean_trace"
    unfolding * gc
    by (rule traces_mono [OF traces_locked [where T = silent] locked])
      (intro evolves_rules traces_same UnusedVolumes_same MarkUnused_same Collect_same)+
  have sm: "cl_storeMeasurer ?c = sm" by (simp add: cleaner_of_def IamCleaner_def)
  have none: "traces (State_Monad.return x) clean_trace" for x :: "bool \<times> error option"
    by (intro traces_none evolves_rules clean_trace.intros(1))
  have checked: "traces (case u of Inl err \<Rightarrow> State_Monad.return (True, Some (Wrap ''measuring store usage'' err))
      | Inr storeUsage \<Rightarrow> if storeUsage < threshold then State_Monad.return (True, None) else mark_and_collect ?c preserve) clean_trace" for u
    by (cases u) (auto intro: none mark)
  have "traces (clean_body ?c threshold preserve) clean_trace"
    unfolding clean_body_def sm
    by (intro traces_if traces_then [OF Usage_evolves(3)] checked none mark)
  then show ?thesis
    unfolding Cleaner.Clean_def by (rule traces_timed)
qed

end

text \<open>The layers that a puller may fetch, topmost first.\<close>

definition fetched_layers :: "BaseImagePuller \<Rightarrow> string list \<Rightarrow> bool" where
  "fetched_layers p cs \<longleftrightarrow>
     (\<exists>spec v info v'. run_state (FetchBaseImageInfo p spec) v = (Inr info, v') \<and> cs = rev (chainIDs (bi_LayerInfos info)))"

definition traces_of_create :: "BaseImagePuller \<Rightarrow> action list \<Rightarrow> bool" where
  "traces_of_create p t \<longleftrightarrow> (\<exists>cs. create_trace cs t \<and> (cs = [] \<or> fetched_layers p cs))"

text \<open>The creator with locksmiths that write down their calls, of the modes of the code.\<close>

definition traced :: "Creator \<Rightarrow> Creator" where
  "traced c = c\<lparr>cr_locksmith := tracing LOCK_SH, cr_cleaner := (cr_cleaner c)\<lparr>cl_locksmith := tracing LOCK_EX\<rparr>,
     cr_baseImagePuller := (cr_baseImagePuller c)\<lparr>bp_locksmith := tracing LOCK_EX\<rparr>\<rparr>"

lemma traced_sel:
  "cr_locksmith (traced c) = tracing LOCK_SH" "cr_cleaner (traced c) = (cr_cleaner c)\<lparr>cl_locksmith := tracing LOCK_EX\<rparr>"
  "cr_baseImagePuller (traced c) = (cr_baseImagePuller c)\<lparr>bp_locksmith := tracing LOCK_EX\<rparr>"
  "cr_imageCloner (traced c) = cr_imageCloner c" "cr_dependencyManager (traced c) = cr_dependencyManager c"
  by (simp_all add: traced_def)

lemma Create_traces:
  fixes service uid d ms im ctxt cfg url
  defines "c \<equiv> command_creator service uid d ms im ctxt cfg url"
  assumes "\<And>cs. fetched_layers (cr_baseImagePuller c) cs \<Longrightarrow> GlobalLockKey \<notin> set cs"
  shows "traces (Creation.Create (traced c) spec) (traces_of_create (cr_baseImagePuller c))"
    (is "traces _ ?T")
proof -
  note sel = traced_sel command_creator_sel other_locksmith
  have none: "?T []" unfolding traces_of_create_def by (rule exI [of _ "[]"]) (simp add: create_trace.intros(1) clean_trace.intros)
  have failing: "traces (fail e) ?T" for e :: error by (intro traces_none evolves_fail none preorder_same_locks)
  have fetch: "evolves same_locks (FetchBaseImageInfo (command_puller service uid d ms im ctxt cfg url) bspec)" for bspec
    unfolding FetchBaseImageInfo_def command_puller_def create_puller_sel by (rule chosen_source.fetcher_locks(2))
  have make: "traces (create_image (traced c) spec bspec info) ?T"
    if run: "run_state (FetchBaseImageInfo (command_puller service uid d ms im ctxt cfg url) bspec) v = (Inr info, v')" for bspec info v v'
  proof -
    let ?cs = "rev (chainIDs (bi_LayerInfos info))"
    have info: "fetched_layers (cr_baseImagePuller c) ?cs" using run by (auto simp: fetched_layers_def c_def command_creator_sel)
    have "traces (create_locked (traced c) spec bspec info) (pull_trace ?cs)"
      unfolding create_locked_def c_def sel Let_def command_puller_def
      by (rule traces_or_return_last [OF pulls.Pull_traces])
        (use assms(2) [OF info] in simp, intro evolves_rules btrfs_images.Create_same(2) btrfs_images.Destroy_same(2) Register_same(2))
    then have locked: "traces (or_return (lk_Lock (tracing LOCK_SH) GlobalLockKey) id (\<lambda>lockFile. do {
         r \<leftarrow> create_locked (traced c) spec bspec info;
         _ \<leftarrow> lk_Unlock (tracing LOCK_SH) lockFile;
         State_Monad.return r })) (locked_trace (lock_of_key GlobalLockKey) LOCK_SH (pull_trace ?cs))"
      unfolding or_return_def by (rule traces_locked) (intro evolves_rules)+
    have clean: "traces (clean_on_create (traced c) spec ids) clean_trace" for ids
      unfolding clean_on_create_def c_def sel
      by (intro traces_if traces_last [OF namespaced_cleaning.Clean_traces] traces_none [OF evolves_ok] clean_trace.intros(1) evolves_rules)
    have all: "?T t" if "after_trace clean_trace (locked_trace (lock_of_key GlobalLockKey) LOCK_SH (pull_trace ?cs)) t" for t
    proof -
      from that have "create_trace ?cs t"
        by (auto simp: after_trace_def locked_trace_def lock_of_key_def intro: create_trace.intros)
      with info show ?thesis by (auto simp: traces_of_create_def)
    qed
    show ?thesis
      unfolding create_image_def traced_sel
      by (rule traces_mono [OF traces_or_return [OF clean locked] all]) (simp_all add: locked_trace_def)
  qed
  show ?thesis
    unfolding Creation.Create_def Let_def parseOwner_def traced_sel
    unfolding c_def command_creator_sel other_locksmith
    by (intro traces_timed traces_if traces_or_return_then traces_then traces_case_prod failing [unfolded c_def command_creator_sel]
        none [unfolded c_def command_creator_sel] fetch make [unfolded c_def command_creator_sel] Exists_evolves evolves_rules)
qed

section \<open>Property\<close>

text \<open>C8. Creating an image takes its locks in the order of the protocol, on every path through the code and whatever
  fails: the global lock exclusively for the clean-up, given back before it is taken again in shared mode, and under it the
  lock of each layer before that of the layer below, each given back in the reverse order.\<close>

theorem Create_follows_protocol:
  assumes "run_state (Creation.Create (traced (command_creator service uid d ms im ctxt cfg url)) spec) w = (r, w')"
    and "w_locks w = []"
    and "\<And>cs. fetched_layers (cr_baseImagePuller (command_creator service uid d ms im ctxt cfg url)) cs \<Longrightarrow> GlobalLockKey \<notin> set cs"
  shows "traces_of_create (cr_baseImagePuller (command_creator service uid d ms im ctxt cfg url)) (actions_of w')"
proof -
  have "traces (Creation.Create (traced (command_creator service uid d ms im ctxt cfg url)) spec)
      (traces_of_create (cr_baseImagePuller (command_creator service uid d ms im ctxt cfg url)))"
    by (rule Create_traces [OF assms(3)])
  from this assms(1) obtain new t where "w_locks w' = w_locks w @ new"
    "traces_of_create (cr_baseImagePuller (command_creator service uid d ms im ctxt cfg url)) t"
    and new: "\<And>more. map (logged_action (w_locks w' @ more)) new = t"
    by (rule tracesD) (rule that)
  with new [of "[]"] assms(2) show ?thesis by (simp add: actions_of_def)
qed

text \<open>The processes of the protocol are then what the commands do, where the layers of all images get deeper as \<open>depth\<close> counts.\<close>

lemma create_process:
  assumes "traces_of_create p t" and "\<And>cs. fetched_layers p cs \<Longrightarrow> sorted_wrt (\<lambda>c d. depth d < depth c) cs"
  shows "process_trace depth t"
  using assms unfolding traces_of_create_def process_trace_def by (metis sorted_wrt.simps(1))

section \<open>Example\<close>

lemma sample_fetched:
  assumes "fetched_layers (cr_baseImagePuller sample_creator) cs"
  shows "cs = [''v1'']"
proof -
  from assms obtain bspec v info v' where "run_state (FetchBaseImageInfo (cr_baseImagePuller sample_creator) bspec) v = (Inr info, v')"
    and cs: "cs = rev (chainIDs (bi_LayerInfos info))" by (auto simp: fetched_layers_def)
  from sample_base_info [OF this(1)] cs show ?thesis by (auto simp: chainIDs_def)
qed

theorem Create_follows_protocol_witness:
  "traces_of_create (cr_baseImagePuller sample_creator) (actions_of (snd (run_state (Creation.Create (traced sample_creator) make_spec) pull_world)))"
  unfolding sample_creator_def
proof (rule Create_follows_protocol [OF prod.collapse [symmetric]])
  show "w_locks pull_world = []" by simp
  fix cs assume "fetched_layers (cr_baseImagePuller (command_creator sample_registry 0 sample_driver \<lparr>im_UIDMappings = [], im_GIDMappings = []\<rparr> sample_mapper
     (createSystemContext registry_url empty_CreateConfig [] []) empty_CreateConfig registry_url)) cs"
  from sample_fetched [unfolded sample_creator_def, OF this] show "GlobalLockKey \<notin> set cs" by (simp add: GlobalLockKey_def)
qed

end
