(* ===== verification/TreeTypes.thy ===== *)
theory TreeTypes
  imports Untar
begin

text \<open>
  What makes a \<open>tree\<close> of theory \<open>Chroot\<close> a file system: every name leads to an inode, lies in a
  directory and is a plain one, a directory has one name only, and the inode number that comes next is free. Unpacking
  (theory \<open>Untar\<close>) keeps it so, whatever the archive is and whatever fails.
\<close>

section \<open>Well-formed trees\<close>

definition well_formed :: "tree \<Rightarrow> bool" where
  "well_formed t \<longleftrightarrow>
     (\<forall>p i. ino t p = Some i \<longrightarrow> inode t i \<noteq> None \<and> (p \<noteq> [] \<longrightarrow> plain_name (last p) \<and> dir_in t (butlast p))) \<and>
     (\<forall>p q i. ino t p = Some i \<longrightarrow> ino t q = Some i \<longrightarrow> dir_in t p \<longrightarrow> p = q) \<and>
     (\<forall>i. inode t i \<noteq> None \<longrightarrow> i < t_next t)"

text \<open>The root directory of the process is there, and its working directory is at or below it.\<close>

definition in_place :: "tree \<Rightarrow> bool" where
  "in_place t \<longleftrightarrow> well_formed t \<and> dir_in t (t_root t) \<and> dir_in t (t_cwd t) \<and> prefix (t_root t) (t_cwd t)"

definition keeps_form :: "tree \<Rightarrow> tree \<Rightarrow> bool" where
  "keeps_form s t \<longleftrightarrow> (in_place s \<and> t_cwd s = t_root s \<longrightarrow> in_place t \<and> t_cwd t = t_root t)"

lemma preorder_keeps_form [simp, evolves_rules]: "preorder_on_state keeps_form"
  by (simp add: preorder_on_state_def keeps_form_def)

lemma well_formedD:
  assumes "well_formed t" and "ino t p = Some i"
  shows "inode t i \<noteq> None" and "p \<noteq> [] \<Longrightarrow> plain_name (last p)" and "p \<noteq> [] \<Longrightarrow> dir_in t (butlast p)"
    and "ino t q = Some i \<Longrightarrow> dir_in t p \<Longrightarrow> p = q" and "i < t_next t"
  using assms unfolding well_formed_def by blast+

lemma well_formed_next: "well_formed t \<Longrightarrow> inode t i \<noteq> None \<Longrightarrow> i < t_next t"
  by (simp add: well_formed_def)

lemma dir_in_iff: "dir_in t p \<longleftrightarrow> (\<exists>i nd. ino t p = Some i \<and> inode t i = Some nd \<and> is_dir nd)"
  by (auto simp: dir_in_def entry_at_def split: option.splits Option.bind_splits)

lemma form_simps [simp]:
  "dir_in (t\<lparr>t_clock := c\<rparr>) p = dir_in t p" "dir_in (t\<lparr>t_files := l\<rparr>) p = dir_in t p" "dir_in (t\<lparr>t_root := r\<rparr>) p = dir_in t p"
  "dir_in (t\<lparr>t_cwd := r\<rparr>) p = dir_in t p" "dir_in (t\<lparr>t_printed := x\<rparr>) p = dir_in t p"
  "well_formed (t\<lparr>t_clock := c\<rparr>) = well_formed t" "well_formed (t\<lparr>t_files := l\<rparr>) = well_formed t"
  "well_formed (t\<lparr>t_root := r\<rparr>) = well_formed t" "well_formed (t\<lparr>t_cwd := r\<rparr>) = well_formed t"
  "well_formed (t\<lparr>t_printed := x\<rparr>) = well_formed t"
  by (simp_all add: dir_in_def well_formed_def)

lemma in_place_simps [simp]: "in_place (t\<lparr>t_clock := c\<rparr>) = in_place t" "in_place (t\<lparr>t_files := l\<rparr>) = in_place t"
  "in_place (t\<lparr>t_printed := x\<rparr>) = in_place t"
  by (simp_all add: in_place_def)

section \<open>Changes that keep it\<close>

lemma dir_in_after_drop: "dir_in (drop_names P t) p \<longleftrightarrow> \<not> P p \<and> dir_in t p"
  by (auto simp: dir_in_iff)

lemma well_formed_drop:
  assumes "well_formed t" and "\<And>p i. ino t p = Some i \<Longrightarrow> p \<noteq> [] \<Longrightarrow> P (butlast p) \<Longrightarrow> P p"
  shows "well_formed (drop_names P t)"
  using assms(1) unfolding well_formed_def
  by (auto simp: dir_in_after_drop dest: assms(2) split: if_splits)

lemma dir_in_set_inode:
  assumes "inode t i = Some nd" and "is_dir nd' = is_dir nd"
  shows "dir_in (set_inode i nd' t) p = dir_in t p"
  using assms by (auto simp: dir_in_iff)

lemma well_formed_set_inode:
  assumes "well_formed t" and "inode t i = Some nd" and "is_dir nd' = is_dir nd"
  shows "well_formed (set_inode i nd' t)"
  using assms(1,2) unfolding well_formed_def by (auto simp: dir_in_set_inode [OF assms(2,3)])

lemma dir_in_new:
  assumes "well_formed t" and "ino t q = None" and "dir_in t p"
  shows "dir_in (new_entry q nd t) p" and "inode t i = Some n \<Longrightarrow> dir_in (set_name q i t) p"
  using assms well_formed_next [OF assms(1)] by (auto simp: dir_in_iff) fastforce+

lemma well_formed_new_entry:
  assumes t: "well_formed t" and q: "ino t q = None" "q \<noteq> []" "plain_name (last q)" "dir_in t (butlast q)"
  shows "well_formed (new_entry q nd t)"
proof -
  have fresh: "ino t p \<noteq> Some (t_next t)" for p using well_formedD(5) [OF t] by blast
  have dir: "dir_in t p" if "dir_in (new_entry q nd t) p" "p \<noteq> q" for p
    using that fresh by (auto simp: dir_in_iff split: if_splits)
  note old = well_formedD [OF t] and kept = dir_in_new(1) [OF t q(1)]
  show ?thesis
    unfolding well_formed_def
  proof (intro conjI allI impI)
    fix p i assume "ino (new_entry q nd t) p = Some i"
    then have "p = q \<and> i = t_next t \<or> p \<noteq> q \<and> ino t p = Some i" by (auto split: if_splits)
    then show "inode (new_entry q nd t) i \<noteq> None" "p \<noteq> [] \<Longrightarrow> plain_name (last p)" "p \<noteq> [] \<Longrightarrow> dir_in (new_entry q nd t) (butlast p)"
      using q old(1-3) kept by auto
  next
    fix p p' i assume *: "ino (new_entry q nd t) p = Some i" "ino (new_entry q nd t) p' = Some i" "dir_in (new_entry q nd t) p"
    show "p = p'"
    proof (cases "p = q \<or> p' = q")
      case True
      with *(1,2) fresh show ?thesis by (auto split: if_splits)
    next
      case False
      with * show ?thesis using old(4) [of p i p'] dir [of p] by (simp split: if_splits)
    qed
  next
    fix i assume "inode (new_entry q nd t) i \<noteq> None"
    then show "i < t_next (new_entry q nd t)" using well_formed_next [OF t, of i] by (cases "i = t_next t") auto
  qed
qed

lemma well_formed_link:
  assumes t: "well_formed t" and q: "ino t q = None" "q \<noteq> []" "plain_name (last q)" "dir_in t (butlast q)"
    and i: "inode t i = Some nd" "\<not> is_dir nd"
  shows "well_formed (set_name q i t)"
proof -
  have dir: "dir_in (set_name q i t) p \<longleftrightarrow> dir_in t p" for p using q(1) i by (auto simp: dir_in_iff)
  note old = well_formedD [OF t]
  show ?thesis
    unfolding well_formed_def dir
  proof (intro conjI allI impI)
    fix p j assume "ino (set_name q i t) p = Some j"
    then have "p = q \<and> j = i \<or> p \<noteq> q \<and> ino t p = Some j" by (auto split: if_splits)
    then show "inode (set_name q i t) j \<noteq> None" "p \<noteq> [] \<Longrightarrow> plain_name (last p)" "p \<noteq> [] \<Longrightarrow> dir_in t (butlast p)"
      using q i old(1-3) by auto
  next
    fix p p' j assume *: "ino (set_name q i t) p = Some j" "ino (set_name q i t) p' = Some j" "dir_in t p"
    then have "p \<noteq> q" "ino t p = Some j" "j \<noteq> i" using q(1) i by (auto simp: dir_in_iff split: if_splits)
    with * old(4) [of p j p'] show "p = p'" by (auto split: if_splits)
  next
    fix j assume "inode (set_name q i t) j \<noteq> None"
    then show "j < t_next (set_name q i t)" using well_formed_next [OF t, of j] by simp
  qed
qed

section \<open>Where a walk ends\<close>

text \<open>A walk ends at something that is there, or at a free name in a directory that is there.\<close>

definition landing :: "tree \<Rightarrow> path \<Rightarrow> bool" where
  "landing t p \<longleftrightarrow> prefix (t_root t) p \<and> (ino t p = None \<longrightarrow> p \<noteq> [] \<and> plain_name (last p) \<and> dir_in t (butlast p))"

lemma path_comps_ok: "c \<in> set (path_comps s) \<Longrightarrow> comp_ok c"
  by (auto simp: path_comps_def comp_ok_def dest: split_on_no_sep)

lemma dir_in_up:
  assumes "well_formed t" and "dir_in t cur" and "cur \<noteq> []"
  shows "dir_in t (butlast cur)"
proof -
  obtain i where "ino t cur = Some i" using assms(2) by (auto simp: dir_in_iff)
  from well_formedD(3) [OF assms(1) this assms(3)] show ?thesis .
qed

lemma walk_landing:
  "well_formed t \<Longrightarrow> dir_in t cur \<Longrightarrow> dir_in t (t_root t) \<Longrightarrow> prefix (t_root t) cur \<Longrightarrow> \<forall>c\<in>set cs. comp_ok c \<Longrightarrow>
     walk n t follow cur cs = Inr p \<Longrightarrow> landing t p"
proof (induction n t follow cur cs rule: walk.induct)
  case (1 n t follow cur)
  then show ?case by (auto simp: landing_def dir_in_iff)
next
  case (2 n t follow cur c cs)
  have ok: "\<forall>c\<in>set cs. comp_ok c" "comp_ok c" using 2(9) by simp_all
  show ?case
  proof (cases "c = ''..''")
    case True
    have "dir_in t (if cur = t_root t then cur else butlast cur)"
      using 2(6,8) dir_in_up [OF 2(5,6)] by (cases "cur = []") auto
    moreover have "prefix (t_root t) (if cur = t_root t then cur else butlast cur)"
      using 2(8) by (auto intro: prefix_up)
    ultimately show ?thesis using 2(1) [OF True 2(5) _ 2(7) _ ok(1)] 2(10) True by simp
  next
    case c: False
    have plain: "plain_name c" using ok(2) c by (simp add: plain_name_def comp_ok_def)
    show ?thesis
    proof (cases "entry_at t (cur @ [c])")
      case None
      with 2(10) c have "p = cur @ [c]" by (auto split: if_splits)
      with 2(6,8) plain show ?thesis by (auto simp: landing_def)
    next
      case (Some nd)
      then have ino: "ino t (cur @ [c]) \<noteq> None" by (auto simp: entry_at_def split: Option.bind_splits)
      have below: "prefix (t_root t) (cur @ [c])" using 2(8) by (rule prefix_prefix)
      then have here: "landing t (cur @ [c])" unfolding landing_def using ino by blast
      show ?thesis
      proof (cases "nd_kind nd")
        case (Symlink target)
        have "\<forall>c\<in>set (path_comps target @ cs). comp_ok c" using ok(1) path_comps_ok by auto
        with 2(4) [OF c Some Symlink] 2(5-8,10) c Some Symlink here show ?thesis by (auto split: if_splits)
      next
        case (File x)
        with 2(10) c Some here show ?thesis by (auto split: if_splits)
      next
        case Directory
        have "dir_in t (cur @ [c])" using Some Directory by (simp add: dir_in_def is_dir_def)
        with 2(2) [OF c Some Directory 2(5) _ 2(7) below ok(1)] 2(10) c Some Directory show ?thesis by simp
      next
        case Subvolume
        have "dir_in t (cur @ [c])" using Some Subvolume by (simp add: dir_in_def is_dir_def)
        with 2(3) [OF c Some Subvolume 2(5) _ 2(7) below ok(1)] 2(10) c Some Subvolume show ?thesis by simp
      qed
    qed
  qed
qed

lemma t_walk_landing:
  assumes "in_place t" and "t_walk t follow s = Inr p"
  shows "landing t p"
proof -
  have "\<forall>c\<in>set (path_comps s). comp_ok c" using path_comps_ok by blast
  from walk_landing [OF _ _ _ _ this] assms show ?thesis
    by (auto simp: t_walk_def in_place_def split: if_splits)
qed

lemma landing_free:
  "landing t p \<Longrightarrow> ino t p = None \<Longrightarrow> p \<noteq> [] \<and> plain_name (last p) \<and> dir_in t (butlast p)"
  by (simp add: landing_def)

lemma entry_free: "well_formed t \<Longrightarrow> entry_at t p = None \<Longrightarrow> ino t p = None"
  by (cases "ino t p") (auto simp: entry_at_def dest: well_formedD(1))

section \<open>The calls keep it\<close>

lemma tcall_form:
  assumes "\<And>t x t'. in_place t \<Longrightarrow> t_cwd t = t_root t \<Longrightarrow> f t = Inr (x, t') \<Longrightarrow> in_place t' \<and> t_cwd t' = t_root t'"
  shows "evolves keeps_form (tcall mk f)"
proof (rule evolvesI)
  fix s r s' assume "run_state (tcall mk f) s = (r, s')"
  from tcall_cases [OF this] show "keeps_form s s'"
    using assms [of "s\<lparr>t_clock := Suc (t_clock s)\<rparr>"] by (auto simp: keeps_form_def)
qed

lemma create_form:
  assumes "in_place t" and "t_create s mk t = Inr (x, t')"
  shows "in_place t' \<and> t_root t' = t_root t \<and> t_cwd t' = t_cwd t"
proof -
  obtain p where p: "t_walk t False s = Inr p" "entry_at t p = None" "t' = new_entry p (mk t) t"
    using assms(2) by (auto simp: t_create_def split: sum.splits if_splits)
  have wf: "well_formed t" using assms(1) by (simp add: in_place_def)
  note free = entry_free [OF wf p(2)]
  with landing_free [OF t_walk_landing [OF assms(1) p(1)]] have "well_formed t'"
    unfolding p(3) by (intro well_formed_new_entry [OF wf]) auto
  with assms(1) dir_in_new(1) [OF wf free] show ?thesis by (simp add: in_place_def p(3))
qed

lemma update_form:
  assumes "in_place t" and "t_update follow s g t = Inr (x, t')" and "\<And>nd. is_dir (g nd) = is_dir nd"
  shows "in_place t' \<and> t_root t' = t_root t \<and> t_cwd t' = t_cwd t"
proof -
  obtain i nd where i: "inode t i = Some nd" "t' = set_inode i (g nd) t"
    using assms(2) by (auto simp: t_update_def t_stat_def split: sum.splits option.splits)
  with assms(1) dir_in_set_inode [OF i(1) assms(3)] show ?thesis
    by (auto simp: in_place_def intro: well_formed_set_inode [OF _ i(1) assms(3)])
qed

lemma calls_form [evolves_rules]:
  "evolves keeps_form (t_Stat s)" "evolves keeps_form (t_Lstat s)" "evolves keeps_form (t_ReadDir s)" "evolves keeps_form (t_Close i)"
  "evolves keeps_form (t_Mkdir s m)" "evolves keeps_form (t_Symlink l s)"
  unfolding t_Stat_def t_Lstat_def t_ReadDir_def t_Close_def t_Mkdir_def t_Symlink_def
  by (rule tcall_form; auto simp: map_sum_def split: sum.splits if_splits dest: create_form)+

lemma updates_form [evolves_rules]:
  "evolves keeps_form (t_Chown s u g)" "evolves keeps_form (t_Lchown s u g)" "evolves keeps_form (t_Chmod s m)"
  "evolves keeps_form (t_utimensat s mt)" "evolves keeps_form (t_Chtimes s mt)"
  unfolding t_Chown_def t_Lchown_def t_Chmod_def t_utimensat_def t_Chtimes_def
  by (rule tcall_form; drule (1) update_form; simp add: chowned_def is_dir_def)+

lemma in_place_drop:
  assumes t: "in_place t" and "t_cwd t = t_root t" and "\<not> P (t_root t)"
    and "\<And>p i. ino t p = Some i \<Longrightarrow> p \<noteq> [] \<Longrightarrow> P (butlast p) \<Longrightarrow> P p"
  shows "in_place (drop_names P t)"
  using assms(1-3) well_formed_drop [OF _ assms(4)] by (auto simp: in_place_def dir_in_after_drop)

lemma removes_form [evolves_rules]: "evolves keeps_form (t_RemoveAll s)" "evolves keeps_form (t_Remove s)"
proof -
  have below: "strict_prefix (t_root t) p" if "in_place t" "t_walk t False s = Inr p" "ends_in_name s" for t p
    using walk_below [of t "if rooted s then t_root t else t_cwd t" "path_comps s" max_symlinks p] that
    by (auto simp: in_place_def t_walk_def ends_in_name_def split: if_splits)
  have "evolves keeps_form (tcall (PathError ''unlinkat'' s) (t_remove_all s))"
  proof (rule tcall_form)
    fix t x t'
    assume t: "in_place t" "t_cwd t = t_root t" and "t_remove_all s t = Inr (x, t')"
    then consider "t' = t" | p where "t_walk t False s = Inr p" "ends_in_name s" "t' = drop_names (prefix p) t"
      | p where "t_walk t False s = Inr p" "t' = drop_names (strict_prefix p) t"
      by (auto simp: t_remove_all_def split: sum.splits if_splits)
    then show "in_place t' \<and> t_cwd t' = t_root t'"
    proof cases
      case 2
      have up: "prefix p q" if "prefix p (butlast q)" for q
        using that by (metis prefix_order.trans prefixeq_butlast)
      from below [OF t(1) 2(1,2)] have "\<not> prefix p (t_root t)" by auto
      from in_place_drop [where P = "prefix p", OF t this] up show ?thesis by (simp add: 2 t(2))
    next
      case 3
      have up: "strict_prefix p q" if "strict_prefix p (butlast q)" for q
        using that by (metis prefix_order.less_le_trans prefixeq_butlast)
      have "\<not> strict_prefix p (t_root t)"
        using t_walk_landing [OF t(1) 3(1)] by (auto simp: landing_def)
      from in_place_drop [where P = "strict_prefix p", OF t this] up show ?thesis by (simp add: 3 t(2))
    qed (simp add: t)
  qed
  then show "evolves keeps_form (t_RemoveAll s)" unfolding t_RemoveAll_def by (intro evolves_rules)
  show "evolves keeps_form (t_Remove s)"
    unfolding t_Remove_def
  proof (rule tcall_form)
    fix t x t'
    assume t: "in_place t" "t_cwd t = t_root t"
      and "(case t_stat False s t of
          Inl e \<Rightarrow> Inl e
        | Inr (p, _, nd) \<Rightarrow>
            if \<not> ends_in_name s then Inl EINVAL
            else if is_dir nd \<and> t_children p t \<noteq> [] then Inl ENOTEMPTY
            else Inr ((), drop_names (\<lambda>q. q = p) t)) = Inr (x, t')"
    then obtain p i nd where p: "t_walk t False s = Inr p" "ends_in_name s" "t' = drop_names (\<lambda>q. q = p) t"
      and nd: "ino t p = Some i" "inode t i = Some nd" "is_dir nd \<Longrightarrow> t_children p t = []"
      by (auto simp: t_stat_def split: sum.splits option.splits if_splits)
    have up: "q = p" if "ino t q = Some j" "q \<noteq> []" "butlast q = p" for q j
    proof -
      have "dir_in t p" using well_formedD(3) [OF _ that(1,2)] t(1) that(3) by (simp add: in_place_def)
      then have "t_children p t = []" using nd by (auto simp: dir_in_iff)
      moreover have "last q \<in> set (t_children p t)" using that set_t_children [of "last q" p t] by force
      ultimately show ?thesis by simp
    qed
    have "t_root t \<noteq> p" using below [OF t(1) p(1,2)] by auto
    with in_place_drop [OF t, of "\<lambda>q. q = p"] up show "in_place t' \<and> t_cwd t' = t_root t'" by (simp add: p(3) t(2))
  qed
qed

lemma Link_form [evolves_rules]: "evolves keeps_form (t_Link old new)"
  unfolding t_Link_def
proof (rule tcall_form)
  fix t x t'
  assume t: "in_place t" "t_cwd t = t_root t"
    and "(case t_stat False old t of
      Inl e \<Rightarrow> Inl e
    | Inr (_, i, nd) \<Rightarrow>
        (case t_walk t False new of
           Inl e \<Rightarrow> Inl e
         | Inr q \<Rightarrow> if entry_at t q \<noteq> None then Inl EEXIST
                    else if is_dir nd then Inl EPERM
                    else Inr ((), set_name q i t))) = Inr (x, t')"
  then obtain i nd q where i: "inode t i = Some nd" "\<not> is_dir nd" and q: "t_walk t False new = Inr q" "entry_at t q = None"
    and t': "t' = set_name q i t"
    by (auto simp: t_stat_def split: sum.splits option.splits if_splits)
  have wf: "well_formed t" using t(1) by (simp add: in_place_def)
  note free = entry_free [OF wf q(2)]
  with landing_free [OF t_walk_landing [OF t(1) q(1)]] have "well_formed t'"
    unfolding t' by (intro well_formed_link [OF wf _ _ _ _ i]) auto
  with t dir_in_new(2) [OF wf free _ i(1)] show "in_place t' \<and> t_cwd t' = t_root t'" by (simp add: in_place_def t')
qed

lemma OpenTrunc_form [evolves_rules]: "evolves keeps_form (t_OpenTrunc s m)"
  unfolding t_OpenTrunc_def
proof (rule tcall_form)
  fix t x t'
  assume t: "in_place t" "t_cwd t = t_root t"
    and "(case t_walk t True s of
      Inl e \<Rightarrow> Inl e
    | Inr p \<Rightarrow>
        (case ino t p of
           Some i \<Rightarrow>
             (case inode t i of
                Some nd \<Rightarrow> (case nd_kind nd of
                    File _ \<Rightarrow> Inr (i, (set_inode i (nd\<lparr>nd_kind := File []\<rparr>) t)\<lparr>t_files := i # t_files t\<rparr>)
                  | Symlink _ \<Rightarrow> Inl ELOOP
                  | _ \<Rightarrow> Inl EISDIR)
              | None \<Rightarrow> Inl ENOENT)
         | None \<Rightarrow> Inr (t_next t, (new_entry p (t_new_node t (File []) m) t)\<lparr>t_files := t_next t # t_files t\<rparr>))) = Inr (x, t')"
  then obtain p where p: "t_walk t True s = Inr p"
    and c: "(case ino t p of
           Some i \<Rightarrow>
             (case inode t i of
                Some nd \<Rightarrow> (case nd_kind nd of
                    File _ \<Rightarrow> Inr (i, (set_inode i (nd\<lparr>nd_kind := File []\<rparr>) t)\<lparr>t_files := i # t_files t\<rparr>)
                  | Symlink _ \<Rightarrow> Inl ELOOP
                  | _ \<Rightarrow> Inl EISDIR)
              | None \<Rightarrow> Inl ENOENT)
         | None \<Rightarrow> Inr (t_next t, (new_entry p (t_new_node t (File []) m) t)\<lparr>t_files := t_next t # t_files t\<rparr>)) = Inr (x, t')"
    by (auto split: sum.splits)
  have or: "(\<exists>i nd c l. inode t i = Some nd \<and> nd_kind nd = File c \<and> t' = (set_inode i (nd\<lparr>nd_kind := File []\<rparr>) t)\<lparr>t_files := l\<rparr>) \<or>
      (\<exists>nd l. ino t p = None \<and> t' = (new_entry p nd t)\<lparr>t_files := l\<rparr>)"
  proof (cases "ino t p")
    case None
    with c show ?thesis by auto
  next
    case (Some i)
    with c obtain nd f where "inode t i = Some nd" "nd_kind nd = File f"
      "t' = (set_inode i (nd\<lparr>nd_kind := File []\<rparr>) t)\<lparr>t_files := i # t_files t\<rparr>"
      by (auto split: option.splits kind.splits)
    then show ?thesis by blast
  qed
  have wf: "well_formed t" using t(1) by (simp add: in_place_def)
  from or show "in_place t' \<and> t_cwd t' = t_root t'"
  proof (elim disjE exE conjE)
    fix i nd c l
    assume i: "inode t i = Some nd" "nd_kind nd = File c" and t': "t' = (set_inode i (nd\<lparr>nd_kind := File []\<rparr>) t)\<lparr>t_files := l\<rparr>"
    have "is_dir (nd\<lparr>nd_kind := File []\<rparr>) = is_dir nd" using i(2) by (simp add: is_dir_def)
    from dir_in_set_inode [OF i(1) this] well_formed_set_inode [OF wf i(1) this] t
    show ?thesis by (simp add: t' in_place_def)
  next
    fix nd l assume free: "ino t p = None" and t': "t' = (new_entry p nd t)\<lparr>t_files := l\<rparr>"
    from landing_free [OF t_walk_landing [OF t(1) p] free] have "well_formed (new_entry p nd t)"
      by (intro well_formed_new_entry [OF wf free]) auto
    with t dir_in_new(1) [OF wf free] show ?thesis by (simp add: in_place_def t')
  qed
qed

lemma Write_form [evolves_rules]: "evolves keeps_form (t_Write i s)"
  unfolding t_Write_def
proof (rule tcall_form)
  fix t x t'
  assume t: "in_place t" "t_cwd t = t_root t"
    and "(case inode t i of
        Some nd \<Rightarrow> (case nd_kind nd of
            File c \<Rightarrow> if i \<in> set (t_files t) then Inr ((), set_inode i (nd\<lparr>nd_kind := File (c @ s)\<rparr>) t) else Inl EINVAL
          | _ \<Rightarrow> Inl EINVAL)
      | None \<Rightarrow> Inl EINVAL) = Inr (x, t')"
  then obtain nd c where i: "inode t i = Some nd" "nd_kind nd = File c" and t': "t' = set_inode i (nd\<lparr>nd_kind := File (c @ s)\<rparr>) t"
    by (auto split: option.splits kind.splits if_splits)
  have "is_dir (nd\<lparr>nd_kind := File (c @ s)\<rparr>) = is_dir nd" using i(2) by (simp add: is_dir_def)
  from dir_in_set_inode [OF i(1) this] well_formed_set_inode [OF _ i(1) this] t
  show "in_place t' \<and> t_cwd t' = t_root t'" by (simp add: t' in_place_def)
qed

lemma Getuid_form [evolves_rules]: "evolves keeps_form t_Getuid"
  unfolding t_Getuid_def by (intro evolves_rules)

section \<open>Unpacking keeps it\<close>

lemma unpack_loop_form: "evolves keeps_form (unpack_loop spec items n)"
proof -
  have contents: "evolves keeps_form (tar_clean_contents p cs)" for p cs
    by (induction cs) (auto intro!: evolves_rules)
  have time [evolves_rules]: "evolves keeps_form (changeModTime p m)" for p m
    unfolding changeModTime_def by (intro evolves_rules)
  have entry [evolves_rules]: "evolves keeps_form (unpack_entry sp h c broken)" for sp h c broken
    unfolding unpack_entry_def tar_cleanWhiteoutDir_def removeWhiteout_def handleEntry_def createDirectory_def
      createSymlink_def createLink_def createRegularFile_def write_file_def io_Copy_def chown_if_root_def
    by (cases "th_Typeflag h"; simp only: typeflag.case; intro evolves_rules contents)
  show ?thesis
  proof (induction spec items n rule: unpack_loop.induct)
    case (3 spec h c broken rest n)
    then show ?case by (cases broken) (auto intro!: evolves_rules entry)
  qed (auto intro!: evolves_rules)
qed

lemma safeMkdir_form:
  assumes "in_place t" and "run_state (safeMkdir p m) t = (r, t')"
  shows "in_place t'"
proof -
  obtain st t1 where st: "run_state (t_Stat p) t = (st, t1)" by fastforce
  then obtain c where t1: "t1 = t\<lparr>t_clock := c\<rparr>" using t_Stat_unmoved unfolding unmoved_def by blast
  have "in_place t2" if "run_state (t_Mkdir p m) t1 = (x, t2)" for x t2
    using tcall_cases [OF that [unfolded t_Mkdir_def]] assms(1) create_form [of "t1\<lparr>t_clock := Suc (t_clock t1)\<rparr>"]
    by (auto simp: t1)
  with assms st show ?thesis by (auto simp: safeMkdir_def t1 split: sum.splits prod.splits)
qed

lemma stat_dir:
  assumes "(case t_stat True s t of Inl e \<Rightarrow> Inl e | Inr (p, _, nd) \<Rightarrow> if is_dir nd then Inr ((), g p) else Inl ENOTDIR) = Inr (x, t')"
  shows "\<exists>p. t_walk t True s = Inr p \<and> dir_in t p \<and> t' = g p"
proof (cases "t_stat True s t")
  case (Inr r)
  obtain p i nd where r: "r = (p, i, nd)" by (cases r)
  from Inr have "t_walk t True s = Inr p" "ino t p = Some i" "inode t i = Some nd"
    unfolding r t_stat_def by (simp_all split: sum.splits option.splits)
  with assms Inr show ?thesis by (auto simp: r dir_in_iff split: if_splits)
qed (use assms in simp)

lemma chroot_form:
  assumes "in_place t" and "run_state (chroot p) t = (r, t')"
  shows "well_formed t' \<and> (\<forall>x. r = Inr x \<longrightarrow> in_place t' \<and> t_cwd t' = t_root t')"
proof -
  have wf: "well_formed t" using assms(1) by (simp add: in_place_def)
  have walk: "t_walk v True ''/'' = Inr (t_root v)" for v by (simp add: t_walk_def path_comps_def rooted_def)
  obtain x t1 where 1: "run_state (t_Chroot p) t = (x, t1)" by fastforce
  from tcall_cases [OF 1 [unfolded t_Chroot_def]] have t1: "well_formed t1 \<and> (\<not> isl x \<longrightarrow> dir_in t1 (t_root t1))"
  proof (elim disjE exE conjE)
    fix z assume "(case t_stat True p (t\<lparr>t_clock := Suc (t_clock t)\<rparr>) of Inl e \<Rightarrow> Inl e
        | Inr (q, _, nd) \<Rightarrow> if is_dir nd then Inr ((), t\<lparr>t_clock := Suc (t_clock t), t_root := q\<rparr>) else Inl ENOTDIR) = Inr (z, t1)"
    from stat_dir [OF this] wf show ?thesis by auto
  qed (simp add: wf)
  obtain y t2 where 2: "run_state (t_Chdir ''/'') t1 = (y, t2)" by fastforce
  from tcall_cases [OF 2 [unfolded t_Chdir_def]]
  have "(\<exists>c. t2 = t1\<lparr>t_clock := c\<rparr> \<and> isl y) \<or> (\<exists>c. t2 = t1\<lparr>t_clock := c, t_cwd := t_root t1\<rparr>)"
  proof (elim disjE exE conjE)
    fix z assume "(case t_stat True ''/'' (t1\<lparr>t_clock := Suc (t_clock t1)\<rparr>) of Inl e \<Rightarrow> Inl e
        | Inr (q, _, nd) \<Rightarrow> if is_dir nd then Inr ((), t1\<lparr>t_clock := Suc (t_clock t1), t_cwd := q\<rparr>) else Inl ENOTDIR) = Inr (z, t2)"
    from stat_dir [OF this] show ?thesis by (auto simp: walk)
  qed (rule disjI1, rule exI, simp)
  with t1 have t2: "well_formed t2 \<and> t_root t2 = t_root t1 \<and> (\<forall>p. dir_in t2 p = dir_in t1 p) \<and> (\<not> isl y \<longrightarrow> t_cwd t2 = t_root t2)"
    by auto
  show ?thesis
  proof (cases x)
    case (Inl e)
    with assms(2) 1 t1 show ?thesis by (auto simp: chroot_def)
  next
    case (Inr u)
    with assms(2) 1 2 have "t' = t2 \<and> isl r = isl y" by (cases y) (auto simp: chroot_def)
    with t1 t2 Inr show ?thesis by (cases r; cases y) (simp_all add: in_place_def)
  qed
qed


section \<open>Example\<close>

definition sample_paths :: "path list" where
  "sample_paths = [[], [''etc''], [''etc'', ''passwd''], [''v''], [''v'', ''etc''], [''v'', ''etc'', ''passwd'']]"

lemma sample_inodes: "inode sample_tree i \<noteq> None \<Longrightarrow> i \<in> {0, 1, 2, 3, 4, 5}"
  by (simp add: inode_def sample_tree_def split: if_splits)

lemma sample_names: "ino sample_tree p = Some i \<Longrightarrow> i \<in> {0, 1, 2, 3, 4, 5} \<and> p = sample_paths ! i"
  by (simp add: ino_def sample_tree_def sample_paths_def split: if_splits)

lemma sample_in_place: "in_place sample_tree"
proof -
  have names: "plain_name ''etc''" "plain_name ''passwd''" "plain_name ''v''" by (simp_all add: plain_name_def)
  have dirs: "dir_in sample_tree []" "dir_in sample_tree [''etc'']" "dir_in sample_tree [''v'']" "dir_in sample_tree [''v'', ''etc'']"
    by (simp_all add: dir_in_iff ino_def inode_def sample_tree_def tree_dir_def is_dir_def)
  have "well_formed sample_tree"
    unfolding well_formed_def
  proof (intro conjI allI impI)
    fix p i assume "ino sample_tree p = Some i"
    from sample_names [OF this] have i: "i \<in> {0, 1, 2, 3, 4, 5}" and p: "p = sample_paths ! i" by blast+
    show "inode sample_tree i \<noteq> None" using i by (auto simp: inode_def sample_tree_def)
    show "p \<noteq> [] \<Longrightarrow> plain_name (last p)" using i unfolding p by (auto simp: sample_paths_def names)
    show "p \<noteq> [] \<Longrightarrow> dir_in sample_tree (butlast p)" using i unfolding p by (auto simp: sample_paths_def dirs)
  next
    fix p q i assume "ino sample_tree p = Some i" "ino sample_tree q = Some i"
    from this [THEN sample_names] show "p = q" by simp
  next
    fix i assume "inode sample_tree i \<noteq> None"
    from sample_inodes [OF this] show "i < t_next sample_tree" by (auto simp: sample_tree_def)
  qed
  then show ?thesis using dirs(1) by (simp add: in_place_def sample_tree_def)
qed


end
