(* ===== verification/DeleteLaws.thy ===== *)
theory DeleteLaws
  imports CommandLaws
begin

text \<open>
  What deleting an image may touch. The subvolumes that the helper \<open>drax\<close> lists for an image are
  those whose path begins with the text of the image's path, so the images whose name extends the name of the deleted
  one may lose theirs; everything else stays, whatever fails.
\<close>

section \<open>Paths that begin with the path of an image\<close>

lemma split_clean_abs: "clean_abs p \<Longrightarrow> split_on (CHR ''/'') p = [] # resolve p"
proof -
  assume "clean_abs p"
  then have p: "p = [] @ CHR ''/'' # join_with ''/'' (resolve p)" "resolve p \<noteq> []" using clean_abs_resolve [of p] by simp_all
  have "split_on (CHR ''/'') (join_with ''/'' (resolve p)) = resolve p"
    using resolve_plain p(2) by (intro split_join_plain) auto
  with split_on_append [of "CHR ''/''" "[]" "join_with ''/'' (resolve p)"]
  have "split_on (CHR ''/'') ([] @ CHR ''/'' # join_with ''/'' (resolve p)) = [] # resolve p" by simp
  with p(1) show ?thesis by metis
qed

lemma split_extends: "c \<notin> set i \<Longrightarrow> \<exists>x r. split_on c (i @ s) = (i @ x) # r"
proof (cases "c \<in> set s")
  case True
  assume "c \<notin> set i"
  from True obtain a b where "s = a @ c # b" "c \<notin> set a" by (auto dest: split_list_first)
  with \<open>c \<notin> set i\<close> split_on_append [of c "i @ a" b] show ?thesis by auto
qed auto

lemma path_extends:
  assumes "clean_abs store" and "plain_name i" and "clean_abs p" and "has_prefix p (Join [store, ImageDirName, i])"
  shows "\<exists>x. prefix (image_entry store (i @ x)) (resolve p)"
proof -
  have dir: "plain_name ImageDirName" by (simp add: ImageDirName_def plain_name_def)
  from assms(4) obtain s where p: "p = store @ CHR ''/'' # ImageDirName @ CHR ''/'' # i @ s"
    by (auto simp: has_prefix_def prefix_def Join_plain3 [OF assms(1) dir assms(2)])
  obtain x r where x: "split_on (CHR ''/'') (i @ s) = (i @ x) # r"
    using split_extends [OF plain_no_slash [OF assms(2)]] by blast
  have "[] # resolve p = split_on (CHR ''/'') store @ split_on (CHR ''/'') (ImageDirName @ CHR ''/'' # i @ s)"
    using split_clean_abs [OF assms(3)] unfolding p by (simp only: split_on_append)
  also have "split_on (CHR ''/'') (ImageDirName @ CHR ''/'' # i @ s) = ImageDirName # (i @ x) # r"
    using split_on_plain [OF plain_no_slash [OF dir]] x by (simp only: split_on_append append.simps)
  also have "split_on (CHR ''/'') store = [] # resolve store" by (rule split_clean_abs [OF assms(1)])
  finally have "resolve p = images_dir store @ (i @ x) # r" by (simp add: images_dir_def)
  then show ?thesis by (auto simp: image_entry_def)
qed

section \<open>Lines\<close>

lemma norm_comps: "c \<in> set (norm True cs st) \<Longrightarrow> c \<in> set cs \<union> set st"
proof (induction cs arbitrary: st)
  case (Cons d cs)
  have "set (norm_step True d st) \<subseteq> insert d (set st)" by (auto simp: norm_step.simps split: list.splits)
  with Cons.IH [of "norm_step True d st"] Cons.prems show ?case by (simp only: norm_Cons) auto
qed simp

lemma set_join: "set (join_with sep xss) \<subseteq> set sep \<union> (\<Union>x\<in>set xss. set x)"
  by (induction sep xss rule: join_with.induct) auto

lemma set_split: "x \<in> set (split_on c s) \<Longrightarrow> set x \<subseteq> set s"
proof (induction s arbitrary: x)
  case (Cons a s)
  have IH: "set y \<subseteq> set s" if "y \<in> set (split_on c s)" for y using Cons.IH that .
  obtain y ys where y: "split_on c s = y # ys" by (cases "split_on c s") auto
  from Cons.prems y have "x = [] \<or> x \<in> set (split_on c s) \<or> x = a # y" by (auto split: if_splits)
  with IH [of x] IH [of y] y show ?case by auto
qed simp

lemma resolve_chars: "c \<in> set (resolve s) \<Longrightarrow> set c \<subseteq> set s"
  using norm_comps [of c "split_on (CHR ''/'') s" "[]"] set_split [of c "CHR ''/''" s] by (simp add: resolve_def)

lemma Clean_chars: "rooted s \<Longrightarrow> set (Go_Path.Clean s) \<subseteq> insert (CHR ''/'') (set s)"
  using set_join [of "''/''" "resolve s"] resolve_chars [of _ s] by (auto simp: Clean_rooted)

lemma trim_line:
  assumes "CHR 0x0A \<notin> set l" and "w \<in> set (split_on (CHR '' '') (trim_space (l @ e)))" and "e = [] \<or> e = [CHR 0x0A]"
  shows "CHR 0x0A \<notin> set (trim_space w)"
proof -
  have sub: "set (trim_space x) \<subseteq> set x" for x
    by (auto simp: trim_space_def dest!: set_dropWhileD)
  have "CHR 0x0A \<notin> set (trim_space (l @ e))"
  proof (cases "dropWhile is_space l = []")
    case True
    then have "dropWhile is_space (l @ [CHR 0x0A]) = []" by (simp add: is_space_def)
    with assms(1,3) sub [of l] show ?thesis by (auto simp: trim_space_def)
  next
    case False
    then have "dropWhile is_space (l @ [CHR 0x0A]) = dropWhile is_space l @ [CHR 0x0A]" by (simp add: dropWhile_append1 dropWhile_eq_Nil_conv) (metis dropWhile_append1)
    moreover have "is_space CHR 0x0A" by (simp add: is_space_def)
    ultimately have "trim_space (l @ [CHR 0x0A]) = trim_space l" by (simp add: trim_space_def)
    with assms(1,3) sub [of l] show ?thesis by auto
  qed
  with set_split [OF assms(2)] sub [of w] show ?thesis by blast
qed

lemma read_lines_line: "x \<in> set (read_lines out) \<Longrightarrow> \<exists>l e. x = l @ e \<and> CHR 0x0A \<notin> set l \<and> (e = [] \<or> e = [CHR 0x0A])"
proof -
  assume "x \<in> set (read_lines out)"
  then consider l where "l \<in> set (split_on (CHR 0x0A) out)" "x = l @ [CHR 0x0A]" | "x \<in> set (split_on (CHR 0x0A) out)"
    by (auto simp: read_lines_def Let_def dest: in_set_butlastD split: if_splits)
  then show ?thesis by cases (auto dest: split_on_no_sep)
qed

section \<open>What drax lists\<close>

lemma List_listed:
  assumes "run_state (Drax.List l path) w = (Some (Inr vs), w')" and path: "clean_abs path" "CHR 0x0A \<notin> set path" and v: "v \<in> set vs"
  shows "clean_abs v \<and> has_prefix v path \<and> CHR 0x0A \<notin> set v"
proof -
  obtain out contents mp where mp: "findMountPoint_loop contents path = Some (Inr mp)"
    and lines: "\<forall>x\<in>set (read_lines out). length (split_on (CHR '' '') (trim_space x)) = 9"
    and vs: "vs = sort_reverse (filter (\<lambda>p. has_prefix p path) (map (listed_path mp) (read_lines out)))"
    using assms(1) by (rule List_result) (rule that)
  from v obtain x where x: "x \<in> set (read_lines out)" "v = listed_path mp x" and pre: "has_prefix v path" by (auto simp: vs)
  from findMountPoint_loop_result [OF mp path(1)] have m: "prefix (resolve mp) (resolve path)" "clean_abs mp" by simp_all
  have "set mp \<subseteq> insert (CHR ''/'') (set path)"
  proof -
    have "set (resolve mp) \<subseteq> set (resolve path)" using m(1) by (rule set_mono_prefix)
    then have "set c \<subseteq> set path" if "c \<in> set (resolve mp)" for c using resolve_chars that by blast
    then have "set (CHR ''/'' # join_with ''/'' (resolve mp)) \<subseteq> insert (CHR ''/'') (set path)"
      using set_join [of "''/''" "resolve mp"] by auto
    then show ?thesis using clean_abs_resolve [OF m(2)] by (metis append_Cons append_Nil)
  qed
  then have mp_nl: "CHR 0x0A \<notin> set mp" using path(2) by auto
  define wd where "wd = trim_space (split_on (CHR '' '') (trim_space x) ! 8)"
  have "split_on (CHR '' '') (trim_space x) ! 8 \<in> set (split_on (CHR '' '') (trim_space x))" using lines x(1) by auto
  moreover obtain l e where "x = l @ e" "CHR 0x0A \<notin> set l" "e = [] \<or> e = [CHR 0x0A]" using read_lines_line [OF x(1)] by blast
  ultimately have wd_nl: "CHR 0x0A \<notin> set wd" using trim_line [of l _ e] unfolding wd_def by blast
  let ?full = "if wd = [] then mp else mp @ CHR ''/'' # wd"
  have full: "v = Go_Path.Clean ?full" using m(2) by (simp add: x(2) listed_path_def wd_def [symmetric] Join_def)
  have r: "rooted ?full" using clean_abs_rooted [OF m(2)] rooted_append by simp
  have "CHR 0x0A \<notin> set v" using Clean_chars [OF r] mp_nl wd_nl unfolding full by (auto split: if_splits)
  moreover have "clean_abs v"
  proof -
    have "v \<noteq> ''/''" using pre path(1) by (auto simp: has_prefix_def clean_abs_def rooted_def prefix_Cons)
    with Clean_abs [OF r] show ?thesis by (simp add: full)
  qed
  ultimately show ?thesis using pre by simp
qed

lemma List_silent: "run_state (Drax.List l path) w = (r, w') \<Longrightarrow> w_stdout w' = w_stdout w"
  by (auto simp: List_def findMountPoint_def run_cmd_def ioutil_ReadFile_def syscall_def
      split: prod.splits option.splits sum.splits)

lemma ListCommand_output:
  assumes "run_state (ListCommand b [path]) v = (Some 0, w')" and "w_stdout v = []" and "clean_abs path" and "CHR 0x0A \<notin> set path"
  shows "\<exists>vs. concat (w_stdout w') = join_with [CHR 0x0A] vs \<and> (\<forall>u\<in>set vs. clean_abs u \<and> has_prefix u path \<and> CHR 0x0A \<notin> set u)"
proof -
  obtain r w1 where r: "run_state (Drax.List \<lparr>bt_listerBin = b\<rparr> path) v = (r, w1)" by fastforce
  with assms(1) obtain vs where vs: "r = Some (Inr vs)" "w' = w1\<lparr>w_stdout := w_stdout w1 @ [join_with [CHR 0x0A] vs]\<rparr>"
    by (auto simp: ListCommand_def exit_error_def write_stdout_def split: option.splits sum.splits prod.splits if_splits)
  with r List_silent [OF r] assms(2) have "concat (w_stdout w') = join_with [CHR 0x0A] vs" by simp
  with List_listed [OF r [unfolded vs(1)] assms(3,4)] show ?thesis by blast
qed

lemma drax_listD:
  assumes "drax_tool b x v" and "rooted p" and "e_progs v x [''--btrfs-bin'', b, ''list'', p] fs = (r, fs')"
  shows "\<exists>faults code w'. run_state (ListCommand b [p]) (process v faults fs) = (Some code, w') \<and>
           fs' = w_fs w' \<and> c_out r = concat (w_stdout w') \<and> (c_status r = None \<longleftrightarrow> code = 0)"
proof -
  from assms(1) have "\<forall>p fs r fs'. rooted p \<longrightarrow> e_progs v x [''--btrfs-bin'', b, ''list'', p] fs = (r, fs') \<longrightarrow>
        (\<exists>faults code w'. run_state (ListCommand b [p]) (process v faults fs) = (Some code, w') \<and>
           fs' = w_fs w' \<and> c_out r = concat (w_stdout w') \<and> (c_status r = None \<longleftrightarrow> code = 0))"
    unfolding drax_tool_def by (elim conjE)
  then show ?thesis using assms(2,3) by (elim allE impE)
qed

lemma listSubvolumes_listed:
  assumes run: "run_state (listSubvolumes d path) w = (Inr subs, w')" and t: "tools d (w_env w)"
    and path: "clean_abs path" "CHR 0x0A \<notin> set path" and u: "u \<in> set subs"
  shows "u = [] \<or> clean_abs u \<and> has_prefix u path"
proof -
  let ?args = "[''--btrfs-bin'', btrfsBinPath d, ''list'', path]"
  obtain w1 r where r: "run_state (run_cmd (draxBinPath d) ?args) w1 = (r, w')" "c_status r = None" "subs = split_on (CHR 0x0A) (c_out r)"
    and env: "w_env w1 = w_env w"
  proof -
    obtain c where c: "run_state (runDrax d ?args) w = (Inr c, w')" "subs = split_on (CHR 0x0A) c"
      using run by (auto simp: listSubvolumes_def split: prod.splits sum.splits)
    obtain a w2 where a: "run_state (draxInPath d) w = (a, w2)" by fastforce
    obtain b w3 where b: "run_state (hasSUID d) w2 = (b, w3)" by fastforce
    have "evolves same_env (draxInPath d)" "evolves same_env (hasSUID d)"
      unfolding draxInPath_def hasSUID_def by (intro evolves_rules)+
    from evolvesD [OF this(1) a] evolvesD [OF this(2) b] have "w_env w3 = w_env w" by (simp add: same_env_def)
    moreover obtain r where "run_state (run_cmd (draxBinPath d) ?args) w3 = (r, w')" "c_status r = None" "c = c_out r"
      using c(1) a b by (auto simp: runDrax_def os_Geteuid_def split: if_splits prod.splits option.splits)
    ultimately show ?thesis using that c(2) by blast
  qed
  from r(1,2) have e: "e_progs (w_env w) (draxBinPath d) ?args (w_fs w1) = (r, w_fs w')"
    by (auto simp: run_cmd_def env split: option.splits prod.splits)
  obtain faults code w2 where cmd: "run_state (ListCommand (btrfsBinPath d) [path]) (process (w_env w) faults (w_fs w1)) = (Some code, w2)"
    and out: "c_out r = concat (w_stdout w2)" and code: "c_status r = None \<longleftrightarrow> code = 0"
    using drax_listD [OF toolsD(2) [OF t] clean_abs_rooted [OF path(1)] e] by (elim exE conjE) (rule that)
  have "code = 0" using code r(2) by simp
  from ListCommand_output [OF cmd [unfolded this] _ path] obtain vs where vs: "c_out r = join_with [CHR 0x0A] vs"
    "\<forall>u\<in>set vs. clean_abs u \<and> has_prefix u path \<and> CHR 0x0A \<notin> set u"
    unfolding out by (auto simp: process_def)
  show ?thesis
  proof (cases "vs = []")
    case True
    with vs(1) r(3) u show ?thesis by simp
  next
    case False
    with vs have "subs = vs" unfolding r(3) vs(1) by (intro split_on_join) auto
    with u vs(2) show ?thesis by blast
  qed
qed

section \<open>What a deletion touches\<close>

text \<open>Everything in the directory of an image whose name begins with \<open>i\<close>.\<close>

definition image_zone :: "string \<Rightarrow> string \<Rightarrow> path set" where
  "image_zone store i = {q. \<exists>x. prefix (image_entry store (i @ x)) q}"

lemma image_zone_self: "below (image_entry store i) \<subseteq> image_zone store i"
  by (auto simp: image_zone_def intro: exI [of _ "[]"])

lemma within_or_return:
  assumes "evolves (within E X) m" and "\<And>w x w'. E (w_env w) \<Longrightarrow> run_state m w = (Inr x, w') \<Longrightarrow> evolves (within E X) (k x)"
  shows "evolves (within E X) (or_return m h k)"
proof (rule evolvesI)
  fix w r w' assume run: "run_state (or_return m h k) w = (r, w')"
  obtain y w1 where y: "run_state m w = (y, w1)" by fastforce
  have 1: "within E X w w1" using assms(1) y by (rule evolvesD)
  show "within E X w w'"
  proof (cases "E (w_env w)")
    case E: True
    show ?thesis
    proof (cases y)
      case (Inl e)
      with run y 1 show ?thesis by simp
    next
      case (Inr x)
      with run y have "run_state (k x) w1 = (r, w')" by simp
      with assms(2) [OF E y [unfolded Inr]] have "within E X w1 w'" by (rule evolvesD)
      with 1 show ?thesis by (rule within_trans)
    qed
  qed (simp add: within_def)
qed

lemma destroy_all_zone:
  assumes "clean_abs store" and "plain_name i"
    and "\<forall>u\<in>set us. u = [] \<or> clean_abs u \<and> has_prefix u (Join [store, ImageDirName, i])"
  shows "evolves (within (tools d) (image_zone store i)) (destroy_all d us)"
  using assms(3)
proof (induction us)
  case (Cons u us)
  have one: "evolves (within (tools d) (image_zone store i)) (destroyBtrfsVolume d u)"
  proof (cases "u = []")
    case True
    show ?thesis
    proof (rule evolvesI)
      fix w r w' assume "run_state (destroyBtrfsVolume d u) w = (r, w')"
      then have "w' = tick w"
        by (auto simp: True destroyBtrfsVolume_def os_Stat_any_def syscall_def split: option.splits)
      then show "within (tools d) (image_zone store i) w w'" by (simp add: within_def)
    qed
  next
    case False
    with Cons.prems obtain x where x: "prefix (image_entry store (i @ x)) (resolve u)"
      using path_extends [OF assms(1,2), of u] by auto
    have "below (resolve u) \<subseteq> image_zone store i"
    proof
      fix q assume "q \<in> below (resolve u)"
      with x have "prefix (image_entry store (i @ x)) q" by (auto intro: prefix_order.trans)
      then show "q \<in> image_zone store i" by (auto simp: image_zone_def)
    qed
    then show ?thesis by (rule destroyBtrfsVolume_within)
  qed
  have "evolves (within (tools d) (image_zone store i)) (destroy_all d us)" using Cons by simp
  then show ?case unfolding destroy_all.simps by (intro evolves_rules one)
qed (simp add: evolves_ok)

lemma DestroyImage_zone:
  assumes "clean_abs store" and "plain_name i" and "CHR 0x0A \<notin> set (Join [store, ImageDirName, i])"
  shows "evolves (within (tools d) (image_zone store i)) (DestroyImage d (Join [store, ImageDirName, i]))"
proof -
  let ?p = "Join [store, ImageDirName, i]" and ?R = "within (tools d) (image_zone store i)"
  have dir: "plain_name ImageDirName" by (simp add: ImageDirName_def plain_name_def)
  have here: "resolve ?p = image_entry store i" using assms(2) dir by (simp add: image_entry_def images_dir_def)
  have clean: "clean_abs ?p"
  proof -
    have "Join [Join [store, ImageDirName], i] = Join [store, ImageDirName] @ ''/'' @ i"
      by (rule Join_plain2 [OF clean_abs_Join2 [OF assms(1) dir] assms(2)])
    also have "\<dots> = ?p" by (simp add: Join_plain2 [OF assms(1) dir] Join_plain3 [OF assms(1) dir assms(2)])
    finally show ?thesis using clean_abs_Join2 [OF clean_abs_Join2 [OF assms(1) dir] assms(2)] by simp
  qed
  have below: "below (image_entry store i @ [c]) \<subseteq> image_zone store i" for c
    by (rule subset_trans [OF _ image_zone_self]) (auto dest: append_prefixD)
  have volume: "evolves ?R (destroyBtrfsVolume d (Join [?p, c]))" if "plain_name c" for c
    by (rule destroyBtrfsVolume_within) (simp add: here that below)
  have remove: "evolves ?R (remove_image_path ?p r)" for r
    unfolding remove_image_path_def by (intro evolves_rules) (simp add: here image_zone_self)
  have list: "evolves ?R (listSubvolumes d ?p)"
    unfolding listSubvolumes_def by (intro evolves_rules runDrax_within drax_list_within clean_abs_rooted clean)
  have all: "evolves ?R (or_return (listSubvolumes d ?p) (Wrap ''list subvolumes'') (\<lambda>subvolumes.
            or_return (destroy_all d subvolumes) id (\<lambda>_. remove_image_path ?p (Inr ()))))"
    using listSubvolumes_listed [OF _ _ clean assms(3)]
    by (intro within_or_return list evolves_rules destroy_all_zone assms(1,2) remove) blast
  have snapshot: "evolves ?R (destroy_snapshot d ?p (Join [?p, c]))" if "plain_name c" for c
    unfolding destroy_snapshot_def by (intro evolves_rules volume that all remove)
  have "resolve (Join [?p, ''rootfs'']) \<in> image_zone store i"
    using below [of "''rootfs''"] by (auto simp: here plain_name_def)
  moreover have "plain_name ''rootfs''" "plain_name ''snapshot''" by (simp_all add: plain_name_def)
  ultimately show ?thesis
    unfolding DestroyImage_def Let_def by (intro evolves_rules snapshot)
qed

lemma Delete_zone:
  assumes "clean_abs (storePath d)" and "plain_name i" and "CHR 0x0A \<notin> set (storePath d @ i)"
  shows "evolves (within (tools d) (image_zone (storePath d) i \<union> {meta_dir (storePath d) @ [''dependencies'', dep_entry (image_ref i)]}))
    (Delete (IamDeleter (NewImageCloner (btrfs_ops d) (storePath d)) (store_registry (storePath d))) i)"
    (is "evolves (within _ ?X) _")
proof -
  let ?b = "NewImageCloner (btrfs_ops d) (storePath d)"
  have dir: "plain_name ImageDirName" "CHR 0x0A \<notin> set ImageDirName" by (simp_all add: ImageDirName_def plain_name_def)
  have "CHR 0x0A \<notin> set (Join [storePath d, ImageDirName, i])"
    using assms(3) dir(2) by (simp add: Join_plain3 [OF assms(1) dir(1) assms(2)])
  from DestroyImage_zone [OF assms(1,2) this, of d]
  have "evolves (within (tools d) ?X) (DestroyImage d (Join [storePath d, ImageDirName, i]))"
    by (rule evolves_mono) (auto elim: within_mono)
  then have image: "evolves (within (tools d) ?X) (DestroyImage d (imagePath ?b i))"
    by (simp add: imagePath_def NewImageCloner_def)
  have sel: "dr_DestroyImage (ic_imageDriver ?b) = DestroyImage d" by (simp add: NewImageCloner_def btrfs_ops_def)
  have "evolves (within (tools d) ?X) (ImageCloner.Destroy ?b i)"
    unfolding ImageCloner.Destroy_def sel by (intro evolves_rules image)
  then show ?thesis
    unfolding Delete_def IamDeleter_def Deleter.simps by (intro evolves_rules) (auto simp: store_registry_def NewDependencyManager_def meta_dir_def)
qed

section \<open>Property\<close>

text \<open>C12. Whatever fails, the command delete touches nothing but the image it was given, images whose name
  begins with that name, and the record of its layers: every other image, every volume and all metadata of volumes stay as they
  are.\<close>

theorem delete_command_frame:
  assumes "run_state (delete_command builder ctxt) w = (out, w')"
    and "ctx_Args ctxt = [idOrPath]" and "Build builder = Inr cfg" and "image_of (cf_StorePath cfg) idOrPath = Inr (i, p)"
    and "clean_abs (cf_StorePath cfg)" and "plain_name i" and "CHR 0x0A \<notin> set (cf_StorePath cfg @ i)"
    and "tools (createFileSystemDriver cfg) (w_env w)"
    and "q \<notin> image_zone (cf_StorePath cfg) i" and "q \<noteq> meta_dir (cf_StorePath cfg) @ [''dependencies'', dep_entry (image_ref i)]"
  shows "fs_get (w_fs w') q = fs_get (w_fs w) q"
proof -
  let ?d = "createFileSystemDriver cfg"
  let ?R = "within (tools ?d) (image_zone (cf_StorePath cfg) i \<union> {meta_dir (cf_StorePath cfg) @ [''dependencies'', dep_entry (image_ref i)]})"
  have d: "storePath ?d = cf_StorePath cfg" by (simp add: createFileSystemDriver_def NewDriver_def)
  from Delete_zone [of ?d i] assms(5-7)
  have del: "evolves ?R (Delete (IamDeleter (NewImageCloner (btrfs_ops ?d) (storePath ?d)) (store_registry (storePath ?d))) i)"
    by (simp add: d)
  have image: "evolves ?R (delete_image cfg i)"
    unfolding delete_image_def Let_def createImageDriver_def deferring_def or_exit_def newErrorHandler_def
    by (intro evolves_rules del)
  have "?R w w'"
  proof -
    obtain r w1 where f: "run_state (FindID (cf_StorePath cfg) idOrPath) w = (r, w1)" by fastforce
    have 1: "?R w w1" by (rule evolvesD [OF FindID_evolves(1) f])
    show ?thesis
    proof (cases r)
      case (Inl e)
      let ?rest = "if is_panic (Cause e) then State_Monad.return (Crash e) else do { _ \<leftarrow> println (error_text e); State_Monad.return Done }"
      have "evolves ?R ?rest" unfolding println_def by (intro evolves_rules)
      moreover have "run_state ?rest w1 = (out, w')" using assms(1-3) f Inl by (simp add: delete_command_def or_exit_def)
      ultimately have "?R w1 w'" by (rule evolvesD)
      with 1 show ?thesis by (rule within_trans)
    next
      case (Inr j)
      from FindID_Inr [OF f [unfolded Inr]] assms(4) have "j = i" by auto
      with assms(1-3) f Inr have "run_state (delete_image cfg i) w1 = (out, w')" by (simp add: delete_command_def or_exit_def)
      with image have "?R w1 w'" by (rule evolvesD)
      with 1 show ?thesis by (rule within_trans)
    qed
  qed
  from withinD [OF this assms(8)] assms(9,10) show ?thesis by simp
qed

theorem delete_command_frame_witness:
  "fs_get (w_fs (snd (run_state (delete_command sample_config (sample_context [''i''])) sample_world))) [''s'', ''volumes'', ''v1'', ''a''] =
     fs_get (w_fs sample_world) [''s'', ''volumes'', ''v1'', ''a'']"
proof (rule delete_command_frame [OF prod.collapse [symmetric] _ sample_built(2)])
  have s: "cf_StorePath sample_config = ''/s''" by (simp add: sample_config_def)
  have r: "resolve ''/s'' = [''s'']" by code_simp
  show "ctx_Args (sample_context [''i'']) = [''i'']" by (simp add: sample_context_def)
  show "image_of (cf_StorePath sample_config) ''i'' = Inr (''i'', ''/s/images/i'')" unfolding s by code_simp
  show "clean_abs (cf_StorePath sample_config)" unfolding s clean_abs_def by code_simp
  show "plain_name ''i''" by (simp add: plain_name_def)
  show "CHR 0x0A \<notin> set (cf_StorePath sample_config @ ''i'')" by (simp add: s)
  show "tools (createFileSystemDriver sample_config) (w_env sample_world)" by (simp add: sample_config_driver sample_host_ok sample_tools)
  show "[''s'', ''volumes'', ''v1'', ''a''] \<notin> image_zone (cf_StorePath sample_config) ''i''"
    by (simp add: s r image_zone_def image_entry_def images_dir_def ImageDirName_def)
  show "[''s'', ''volumes'', ''v1'', ''a''] \<noteq> meta_dir (cf_StorePath sample_config) @ [''dependencies'', dep_entry (image_ref ''i'')]"
    by (simp add: s r meta_dir_def MetaDirName_def)
qed

end
