(* ===== verification/Registry.thy ===== *)
theory Registry
  imports CommandLaws
begin

text \<open>
  The dependency manager as a map. \<open>Register\<close> and \<open>Deregister\<close> in any order are updates of a
  map from references to lists of layers, and \<open>Dependencies\<close> looks up in it, as long as no call fails and
  references have no slash (those with a slash share files: \<open>a/b\<close> and \<open>a__b\<close> do).
\<close>

section \<open>The abstract registry\<close>

datatype registry_op = Register_op string "string list" | Deregister_op string

fun op_ref :: "registry_op \<Rightarrow> string" where
  "op_ref (Register_op i cs) = i"
| "op_ref (Deregister_op i) = i"

fun map_op :: "registry_op \<Rightarrow> (string \<rightharpoonup> string list) \<Rightarrow> (string \<rightharpoonup> string list)" where
  "map_op (Register_op i cs) m = m(i \<mapsto> cs)"
| "map_op (Deregister_op i) m = m(i := None)"

fun run_op :: "DependencyManager \<Rightarrow> registry_op \<Rightarrow> (error + unit) io" where
  "run_op d (Register_op i cs) = Register d i cs"
| "run_op d (Deregister_op i) = Deregister d i"

fun run_ops :: "DependencyManager \<Rightarrow> registry_op list \<Rightarrow> unit io" where
  "run_ops d [] = State_Monad.return ()"
| "run_ops d (x # xs) = do { _ \<leftarrow> run_op d x; run_ops d xs }"

definition single_ref :: "string \<Rightarrow> bool" where
  "single_ref i \<longleftrightarrow> CHR ''/'' \<notin> set i"

text \<open>The directory is there, and none of its entries is a directory.\<close>

definition registry_ready :: "DependencyManager \<Rightarrow> fsys \<Rightarrow> bool" where
  "registry_ready d fs \<longleftrightarrow> dir_at fs (resolve (dependenciesPath d)) \<and> (\<forall>i. \<not> dir_at fs (resolve (dependenciesPath d) @ [dep_entry i]))"

section \<open>Each operation is an update\<close>

lemma op_within: "evolves (within (\<lambda>_. True) {resolve (dependenciesPath d) @ [dep_entry (op_ref x)]}) (run_op d x)"
  by (cases x) (auto intro: Register_within Deregister_within)

lemma op_same_env: "evolves same_env (run_op d x)"
  by (cases x) (auto intro: Register_same Deregister_same)

lemma Register_ready:
  assumes "quiet w" and "registry_ready d (w_fs w)" and "run_state (Register d i cs) w = (r, w')"
  shows "registered d (w_fs w') i = Some cs" and "\<not> dir_at (w_fs w') (resolve (dependenciesPath d) @ [dep_entry i])"
proof -
  obtain dn where dn: "fs_get (w_fs w) (resolve (dependenciesPath d)) = Some dn" "is_dir dn"
    using assms(2) by (auto simp: registry_ready_def dir_at_def split: option.splits)
  have "\<forall>n. fs_get (w_fs w) (resolve (dependenciesPath d) @ [dep_entry i]) = Some n \<longrightarrow> \<not> is_dir n"
    using assms(2) by (auto simp: registry_ready_def dir_at_def split: option.splits)
  from Register_quiet [OF assms(1) dn this, of cs] assms(3) have "r = Inr ()" by simp
  with assms(3) show reg: "registered d (w_fs w') i = Some cs" by (auto intro: Register_registered)
  then show "\<not> dir_at (w_fs w') (resolve (dependenciesPath d) @ [dep_entry i])"
    by (auto simp: registered_def dir_at_def is_dir_def split: option.splits kind.splits)
qed

lemma Deregister_ready:
  assumes "quiet w" and "registry_ready d (w_fs w)" and "run_state (Deregister d i) w = (r, w')"
  shows "fs_get (w_fs w') (resolve (dependenciesPath d) @ [dep_entry i]) = None"
proof -
  have "\<forall>n. fs_get (w_fs w) (resolve (dependenciesPath d) @ [dep_entry i]) = Some n \<longrightarrow> \<not> is_dir n"
    using assms(2) by (auto simp: registry_ready_def dir_at_def split: option.splits)
  with assms(1,3) show ?thesis
    by (auto simp: Deregister_def os_Remove_def syscall_def quiet_def k_remove_def fs_simps
        split: sum.splits if_splits dest: k_lookup_Inl)
qed

lemma op_step:
  assumes "quiet w" and "registry_ready d (w_fs w)" and "single_ref (op_ref x)" and "run_state (run_op d x) w = (r, w')"
  shows "quiet w' \<and> registry_ready d (w_fs w') \<and>
    (\<forall>j. single_ref j \<longrightarrow> registered d (w_fs w') j = map_op x (registered d (w_fs w)) j)"
proof -
  let ?dir = "resolve (dependenciesPath d)" and ?i = "op_ref x"
  have env: "w_env w' = w_env w" using evolvesD [OF op_same_env assms(4)] by (simp add: same_env_def)
  have frame: "within (\<lambda>_. True) {?dir @ [dep_entry ?i]} w w'" using op_within assms(4) by (rule evolvesD)
  have other: "fs_get (w_fs w') p = fs_get (w_fs w) p" if "p \<noteq> ?dir @ [dep_entry ?i]" for p
    using withinD [OF frame] that by simp
  have own: "registered d (w_fs w') ?i = map_op x (registered d (w_fs w)) ?i \<and> \<not> dir_at (w_fs w') (?dir @ [dep_entry ?i])"
  proof (cases x)
    case (Register_op i cs)
    with Register_ready [OF assms(1,2), of i cs r w'] assms(4) show ?thesis by simp
  next
    case (Deregister_op i)
    with Deregister_ready [OF assms(1,2), of i r w'] assms(4) show ?thesis by (simp add: registered_def dir_at_def)
  qed
  have "registered d (w_fs w') j = map_op x (registered d (w_fs w)) j" if j: "single_ref j" for j
  proof (cases "j = ?i")
    case False
    then have "dep_entry j \<noteq> dep_entry ?i" using j assms(3) by (simp add: single_ref_def dep_entry_inj)
    then have "registered d (w_fs w') j = registered d (w_fs w) j" by (intro registered_frame other) simp
    with False show ?thesis by (cases x) simp_all
  qed (use own in simp)
  moreover have "registry_ready d (w_fs w')"
    unfolding registry_ready_def
  proof (intro conjI allI)
    show "dir_at (w_fs w') ?dir" using assms(2) other [of ?dir] by (simp add: registry_ready_def dir_at_def)
    fix i show "\<not> dir_at (w_fs w') (?dir @ [dep_entry i])"
      using assms(2) other [of "?dir @ [dep_entry i]"] own
      by (cases "dep_entry i = dep_entry ?i") (simp_all add: registry_ready_def dir_at_def)
  qed
  moreover have "quiet w'" using assms(1) env by (simp add: quiet_def)
  ultimately show ?thesis by blast
qed

lemma ops_steps:
  "quiet w \<Longrightarrow> registry_ready d (w_fs w) \<Longrightarrow> \<forall>x\<in>set xs. single_ref (op_ref x) \<Longrightarrow> run_state (run_ops d xs) w = (r, w') \<Longrightarrow>
     (\<forall>j. single_ref j \<longrightarrow> m j = registered d (w_fs w) j) \<Longrightarrow>
     quiet w' \<and> (\<forall>j. single_ref j \<longrightarrow> registered d (w_fs w') j = fold map_op xs m j)"
proof (induction xs arbitrary: w m)
  case (Cons x xs)
  obtain y w1 where 1: "run_state (run_op d x) w = (y, w1)" by fastforce
  with Cons.prems(4) have 2: "run_state (run_ops d xs) w1 = (r, w')" by simp
  have x: "single_ref (op_ref x)" using Cons.prems(3) by simp
  note step = op_step [OF Cons.prems(1,2) x 1]
  have "map_op x m j = registered d (w_fs w1) j" if "single_ref j" for j
    using step that Cons.prems(5) x by (cases x) auto
  with step Cons.IH [OF _ _ _ 2, of "map_op x m"] Cons.prems(3) show ?case by simp
qed simp

section \<open>Property\<close>

text \<open>C13. The registry of dependencies is a map: after any sequence of registrations and deregistrations, a reference has the
  layers that the last of them left, and is not found if it was deregistered or never registered.\<close>

theorem registry_refines_map:
  assumes "quiet w" and "registry_ready d (w_fs w)" and "\<forall>x\<in>set xs. single_ref (op_ref x)" and "single_ref i"
    and "run_state (run_ops d xs) w = (r, w')"
  shows "(case fold map_op xs (registered d (w_fs w)) i of
      Some cs \<Rightarrow> fst (run_state (Dependencies d i) w') = Inr cs
    | None \<Rightarrow> isl (fst (run_state (Dependencies d i) w')))"
proof -
  have final: "quiet w'" "registered d (w_fs w') i = fold map_op xs (registered d (w_fs w)) i"
    using ops_steps [OF assms(1-3,5), of "registered d (w_fs w)"] assms(4) by auto
  show ?thesis
  proof (cases "registered d (w_fs w') i")
    case None
    obtain x v where "run_state (Dependencies d i) w' = (x, v)" by fastforce
    with Dependencies_result [of d i w' _ v] None final(2) show ?thesis by (cases x) auto
  next
    case (Some cs)
    from Dependencies_quiet [OF final(1) this] Some final(2) show ?thesis by simp
  qed
qed

section \<open>Example\<close>

definition sample_ops :: "registry_op list" where
  "sample_ops = [Register_op ''image:j'' [''v1'', ''v2''], Deregister_op ''image:i'', Register_op ''image:j'' [''v2'']]"

lemma sample_registry_dir: "resolve (dependenciesPath (store_registry ''/s'')) = [''s'', ''meta'', ''dependencies'']"
  by code_simp

lemma sample_registry_ready: "registry_ready (store_registry ''/s'') (w_fs sample_world)"
  unfolding registry_ready_def sample_registry_dir
  by (simp add: dir_at_def fs_get_def sample_fs_def dir_node_def file_node_def is_dir_def)

theorem registry_refines_map_witness:
  "fst (run_state (Dependencies (store_registry ''/s'') ''image:j'') (snd (run_state (run_ops (store_registry ''/s'') sample_ops) sample_world))) = Inr [''v2'']"
proof -
  have "\<forall>x\<in>set sample_ops. single_ref (op_ref x)" "single_ref ''image:j''" by (simp_all add: sample_ops_def single_ref_def)
  from registry_refines_map [OF quiet_sample sample_registry_ready this prod.collapse [symmetric]]
  show ?thesis by (simp add: sample_ops_def)
qed

end
