(* ===== verification/StoreCommands.thy ===== *)
theory StoreCommands
  imports CommandLaws
begin

text \<open>
  What \<open>init-store\<close> and \<open>clean\<close> guarantee: a store that was initialised is one that the other commands
  accept, and a clean-up below its threshold changes nothing.
\<close>

section \<open>init-store\<close>

lemma init_store_command_Done:
  assumes "run_state (init_store_command builder ctxt) w = (Done, w')"
  obtains cfg us gs where "Build (WithStoreSizeBytes (ctx_Int64 ctxt ''store-size-bytes'') builder) = Inr cfg"
    and "e_uid (w_env w) = 0" and "cmd_parseIDMappings (ctx_StringSlice ctxt ''uid-mapping'') = Inr us"
    and "cmd_parseIDMappings (ctx_StringSlice ctxt ''gid-mapping'') = Inr gs"
    and "run_state (init_store cfg us gs) w = (Done, w')"
  using assms by (auto simp: init_store_command_def os_Getuid_def split: sum.splits if_splits)

lemma init_store_Done:
  assumes "run_state (init_store cfg us gs) w = (Done, w')"
  shows "run_state (InitStore (command_manager (ApplyMappings (NewStoreNamespacer (cf_StorePath cfg))) cfg)
      \<lparr>in_UIDMappings = us, in_GIDMappings = gs, in_StoreSizeBytes = cf_StoreSizeBytes cfg\<rparr>) w = (Inr (), w')"
  using assms by (auto simp: init_store_def Let_def elim!: or_exit_Done)

lemma command_manager_sel [simp]:
  "mg_storePath (command_manager n cfg) = cf_StorePath cfg" "mg_applyMappings (command_manager n cfg) = n"
  "mg_storeDriver (command_manager n cfg) = btrfs_store_ops (createFileSystemDriver cfg)"
  by (simp_all add: command_manager_def New_def Let_def)

text \<open>C38. When the command init-store ends without an error, it was run by root, the mappings it was given
  could be read and are recorded, all directories of the store are there, and the check of the other commands accepts the store.\<close>

theorem init_store_command_ready:
  assumes "run_state (init_store_command builder ctxt) w = (Done, w')"
    and "Build (WithStoreSizeBytes (ctx_Int64 ctxt ''store-size-bytes'') builder) = Inr cfg"
    and "quiet v" and "w_fs v = w_fs w'"
  shows "e_uid (w_env w) = 0 \<and>
    (\<forall>f\<in>set StoreFolders. dir_at (w_fs w') (resolve (Join [cf_StorePath cfg, f]))) \<and>
    (\<exists>us gs. cmd_parseIDMappings (ctx_StringSlice ctxt ''uid-mapping'') = Inr us \<and>
       cmd_parseIDMappings (ctx_StringSlice ctxt ''gid-mapping'') = Inr gs \<and>
       records (NewStoreNamespacer (cf_StorePath cfg)) us gs (w_fs w')) \<and>
    fst (run_state (IsStoreInitialized (command_manager n cfg)) v) = True"
proof -
  let ?n = "NewStoreNamespacer (cf_StorePath cfg)"
  obtain us gs where root: "e_uid (w_env w) = 0" and us: "cmd_parseIDMappings (ctx_StringSlice ctxt ''uid-mapping'') = Inr us"
    and gs: "cmd_parseIDMappings (ctx_StringSlice ctxt ''gid-mapping'') = Inr gs"
    and run: "run_state (init_store cfg us gs) w = (Done, w')"
    using init_store_command_Done [OF assms(1)] assms(2) by (metis sum.inject(2))
  note made = InitStore_result [OF _ _ init_store_Done [OF run], of _ ?n, simplified]
  have "fst (run_state (IsStoreInitialized (command_manager n cfg)) v) = True"
    by (rule IsStoreInitialized_present [OF assms(3), of _ ?n us gs])
      (use made in \<open>simp_all add: assms(4) NewStoreNamespacer_def\<close>)
  with root us gs made show ?thesis by blast
qed

section \<open>clean\<close>

lemma Read_files:
  "run_state (Read n) w = (r, w') \<Longrightarrow> w_fs w' = w_fs w \<and> w_env w' = w_env w"
  by (auto simp: Read_def ioutil_ReadFile_def syscall_def k_read_file_def split: option.splits sum.splits prod.splits kind.splits)

lemma no_store_files:
  "run_state (no_store s) w = (r, w') \<Longrightarrow> w_fs w' = w_fs w \<and> w_env w' = w_env w"
  by (auto simp: no_store_def os_Stat_def syscall_def k_stat_def split: option.splits sum.splits prod.splits)

lemma Usage_used:
  "run_state (Usage s) w = (Inr u, w') \<Longrightarrow> u = snd (stats_bytes (e_statfs (w_env w) (w_fs w) (resolve (sm_storePath s))))"
  by (auto simp: Usage_def pathStats_def syscall_Statfs_def syscall_def split: option.splits sum.splits prod.splits)

text \<open>Below the threshold, or when the usage cannot be measured, the clean-up ends after measuring.\<close>

lemma Clean_below:
  assumes "0 < threshold"
    and "snd (stats_bytes (e_statfs (w_env w) (w_fs w) (resolve (sm_storePath (cl_storeMeasurer c))))) < threshold"
    and "run_state (Cleaner.Clean c threshold preserve) w = ((noop, err), w')"
  shows "noop \<and> fs_get (w_fs w') = fs_get (w_fs w)"
proof -
  obtain u w1 where 1: "run_state (Usage (cl_storeMeasurer c)) w = (u, w1)" by fastforce
  then have "noop \<and> fs_get (w_fs w') = fs_get (w_fs w1)"
    using assms Usage_used [of "cl_storeMeasurer c" w] by (auto simp: Clean_def clean_body_def timed_def time_Now_def
        TryEmitDurationFrom_def emit_def split: sum.splits if_splits prod.splits)
  with same_files [OF Usage_evolves(1) 1] show ?thesis by simp
qed

lemma clean_report_within [evolves_rules]: "evolves (within E X) (clean_report sm noop)"
  unfolding clean_report_def by (intro evolves_rules)

lemma clean_store_below:
  assumes "run_state (clean_store cfg ms) w = (out, w')" and "0 < cf_ThresholdBytes cfg"
    and "snd (stats_bytes (e_statfs (w_env w) (w_fs w) (resolve (cf_StorePath cfg)))) < cf_ThresholdBytes cfg"
  shows "fs_get (w_fs w') = fs_get (w_fs w)"
proof -
  let ?d = "createFileSystemDriver cfg"
  let ?ns = "commands_driver ?d ms (NewIDMapper (cf_NewuidmapBin cfg) (cf_NewgidmapBin cfg))"
  let ?sm = "NewStoreMeasurer (storePath ?d) (btrfs_ops ?d)"
  let ?c = "IamCleaner (file_locksmith (NewExclusiveFileSystem (storePath ?d))) ?sm (command_gc ?ns ?d)"
  let ?body = "do {
        (noop, err) \<leftarrow> Cleaner.Clean ?c (cf_ThresholdBytes cfg) [];
        (case err of Some err \<Rightarrow> newErrorHandler ''clean'' (error_text err) 1 | None \<Rightarrow> clean_report ?sm noop)
      }"
  have "run_state (deferring (emit_unused (command_gc ?ns ?d) ?sm) ?body) w = (out, w')"
    using assms(1) by (simp add: clean_store_def Let_def)
  then obtain w2 where body: "run_state ?body w = (out, w2)" and e: "run_state (emit_unused (command_gc ?ns ?d) ?sm) w2 = ((), w')"
    by (rule deferring_run)
  obtain noop err w1 where 1: "run_state (Cleaner.Clean ?c (cf_ThresholdBytes cfg) []) w = ((noop, err), w1)" by (metis prod.collapse)
  have "sm_storePath (cl_storeMeasurer ?c) = cf_StorePath cfg"
    by (simp add: IamCleaner_def NewStoreMeasurer_def createFileSystemDriver_def NewDriver_def)
  with Clean_below [OF assms(2) _ 1] assms(3) have "fs_get (w_fs w1) = fs_get (w_fs w)" by simp
  moreover have "fs_get (w_fs w2) = fs_get (w_fs w1)"
  proof (rule same_files)
    show "run_state (case err of Some err \<Rightarrow> newErrorHandler ''clean'' (error_text err) 1 | None \<Rightarrow> clean_report ?sm noop) w1 = (out, w2)"
      using body 1 by simp
  qed (cases err; simp only: option.case; intro evolves_rules)
  ultimately show ?thesis using same_files [OF command_gc_within(1) e] by simp
qed

text \<open>C39. Below its threshold the command clean changes nothing, whatever fails: when the file system of the
  store holds fewer bytes than the threshold of the configuration, every file stays as it is.\<close>

theorem clean_command_below:
  assumes "run_state (clean_command builder ctxt) w = (out, w')"
    and "Build (WithCleanThresholdBytes (ctx_Int64 ctxt ''threshold-bytes'') (ctx_IsSet ctxt ''threshold-bytes'') builder) = Inr cfg"
    and "0 < cf_ThresholdBytes cfg" and "s = e_statfs (w_env w) (w_fs w) (resolve (cf_StorePath cfg))"
    and "0 \<le> st_bsize s" and "0 \<le> st_bfree s" and "st_bfree s \<le> st_blocks s"
    and "st_blocks s * st_bsize s < 2 ^ 63" and "st_bsize s < 2 ^ 63"
    and "(st_blocks s - st_bfree s) * st_bsize s < cf_ThresholdBytes cfg"
  shows "fs_get (w_fs w') = fs_get (w_fs w)"
proof -
  obtain missing w1 where 1: "run_state (no_store (cf_StorePath cfg)) w = (missing, w1)" by fastforce
  obtain ms w2 where 2: "run_state (Read (NewStoreNamespacer (cf_StorePath cfg))) w1 = (ms, w2)" by fastforce
  have same: "w_fs w1 = w_fs w" "w_fs w2 = w_fs w" "w_env w2 = w_env w" using no_store_files [OF 1] Read_files [OF 2] by simp_all
  have used: "snd (stats_bytes s) < cf_ThresholdBytes cfg" using stats_bytes_exact [OF assms(5-9)] assms(10) by simp
  have report: "fs_get (w_fs w') = fs_get (w_fs v)" if "run_state (newErrorHandler ''clean'' m n) v = (out, w')" for m n v
    using that by (rule same_files [OF reports_evolve(1)])
  show ?thesis
  proof (cases "missing \<or> isl ms")
    case True
    then show ?thesis using assms(1,2) 1 2 same report [of _ _ w1] report [of _ _ w2]
      by (cases ms) (auto simp: clean_command_def or_exit_def split: if_splits)
  next
    case False
    then obtain m where "run_state (clean_store cfg m) w2 = (out, w')"
      using assms(1,2) 1 2 by (cases ms) (auto simp: clean_command_def or_exit_def)
    from clean_store_below [OF this assms(3)] used show ?thesis by (simp add: same assms(4))
  qed
qed

section \<open>Examples\<close>

lemma sample_init_store: "fst (run_state (init_store_command sample_config (sample_context [])) fresh_world) = Done"
  by code_simp

theorem init_store_command_ready_witness:
  "fst (run_state (IsStoreInitialized (command_manager (\<lambda>_ _. ok ()) sample_config))
     (fresh_world\<lparr>w_fs := w_fs (snd (run_state (init_store_command sample_config (sample_context [])) fresh_world))\<rparr>)) = True"
proof -
  have run: "run_state (init_store_command sample_config (sample_context [])) fresh_world =
      (Done, snd (run_state (init_store_command sample_config (sample_context [])) fresh_world))"
    using sample_init_store by (simp add: prod_eq_iff)
  have "Build (WithStoreSizeBytes (ctx_Int64 (sample_context []) ''store-size-bytes'') sample_config) = Inr sample_config" by code_simp
  from init_store_command_ready [OF run this, of "fresh_world\<lparr>w_fs := w_fs (snd (run_state (init_store_command sample_config (sample_context [])) fresh_world))\<rparr>"]
  show ?thesis by (simp add: fresh_world_def)
qed


definition cautious_config :: Config where
  "cautious_config = sample_config\<lparr>cf_ThresholdBytes := 300000\<rparr>"

theorem clean_command_below_witness:
  "fs_get (w_fs (snd (run_state (clean_command cautious_config (sample_context [])) ready_world))) [''s'', ''volumes'', ''v2'', ''b''] = Some (file_node ''y'')"
proof -
  have "Build (WithCleanThresholdBytes (ctx_Int64 (sample_context []) ''threshold-bytes'') (ctx_IsSet (sample_context []) ''threshold-bytes'') cautious_config) = Inr cautious_config"
    by code_simp
  from clean_command_below [OF prod.collapse [symmetric] this _ refl]
  have "fs_get (w_fs (snd (run_state (clean_command cautious_config (sample_context [])) ready_world))) = fs_get (w_fs ready_world)"
    by (simp add: cautious_config_def ready_world_def sample_host_def sample_env_def pull_world_def)
  then show ?thesis by (simp add: ready_world_def pull_world_def fs_get_def sample_fs_def)
qed

end
