(* ===== verification/CreateLaws.thy ===== *)
theory CreateLaws
  imports ImageLaws
begin

text \<open>
  Making an image, from the layers of its base image to the root file system. The contracts of the
  fetcher, the puller, the cloner and the registry are composed along the steps of \<open>Create\<close>: what each
  step leaves alone carries what the steps before it have achieved to the end.
\<close>

section \<open>Places\<close>

lemma in_image_not_layer:
  "image_entry store i @ y \<notin> layers_area store ls" "image_entry store i @ y \<notin> pull_places store"
  "image_entry store i @ y \<noteq> meta_dir store @ z"
  by (auto simp: layers_area_def layer_area_def pull_places_def image_entry_def images_dir_def volume_entry_def volumes_dir_def
      meta_dir_def dir_names prefix_def)

lemma in_volume_not_image:
  "volume_entry store v @ y \<notin> below (image_entry store i)" "volume_entry store v @ y \<noteq> meta_dir store @ z"
  "meta_dir store @ [m] \<notin> below (image_entry store i)" "volume_entry store v @ y \<noteq> resolve store @ LocksDirName # z"
  "volume_entry store v @ y \<noteq> resolve store @ TempDirName # z"
  by (auto simp: image_entry_def images_dir_def volume_entry_def volumes_dir_def meta_dir_def dir_names prefix_def)

lemma deps_entry_places:
  "resolve (dependenciesPath (store_registry store)) @ [dep_entry i] = meta_dir store @ [''dependencies'', dep_entry i]"
  by (simp add: store_registry_def NewDependencyManager_def meta_dir_def)

section \<open>Steps\<close>

context image_driver
begin

lemma Create_frame:
  assumes "run_state (ImageCloner.Create (NewImageCloner ops store) spec) w = (Inr info, w')"
    and "is_int64 (is_DiskLimit spec)" and "plain_name (is_ID spec)" and "E (w_env w)"
  shows "frame (below (image_entry store (is_ID spec))) w w'"
proof -
  let ?e = "image_entry store (is_ID spec)"
  have entry: "resolve (imagePath (NewImageCloner ops store) (is_ID spec)) = ?e" using assms(3) by (simp add: NewImageCloner_def)
  obtain mi w1 w2 where 1: "run_state (os_Mkdir (imagePath (NewImageCloner ops store) (is_ID spec)) 0x1C0) w = (Inr (), w1)"
    and 2: "run_state (dr_CreateImage ops \<lparr>ds_BaseVolumeIDs = is_BaseVolumeIDs spec, ds_Mount = is_Mount spec,
               ds_ImagePath = imagePath (NewImageCloner ops store) (is_ID spec), ds_DiskLimit = is_DiskLimit spec,
               ds_ExclusiveDiskLimit = is_ExcludeBaseImageFromQuota spec\<rparr>) w1 = (Inr mi, w2)"
    and 3: "within (\<lambda>_. True) ({?e, ?e @ [''rootfs'']} \<union> {?e @ [''vol-'' @ sha256_hex v] | v. True}) w2 w'"
    by (rule Create_run [OF assms]) blast
  note m = Mkdir_result [OF 1, unfolded entry]
  have env: "w_env w1 = w_env w" using m by blast
  have f1: "frame (below ?e) w w1"
    unfolding frame_def using env m by (metis below_iff prefix_order.refl)
  have f2: "frame (below ?e) w1 w2"
    by (rule within_frame [OF CreateImage_frame 2]) (simp_all add: assms(2,4) env entry image_area_resolve)
  have "frame ({?e, ?e @ [''rootfs'']} \<union> {?e @ [''vol-'' @ sha256_hex v] | v. True}) w2 w'"
    using within_envD [OF 3 TrueI] withinD [OF 3 TrueI] unfolding frame_def by blast
  then have "frame (below ?e) w2 w'" by (rule frame_mono) auto
  from frame_trans [OF frame_trans [OF f1 f2] this] show ?thesis .
qed

end

lemma fetch_frame:
  assumes "run_state (FetchBaseImageInfo (command_puller service uid d ms im ctxt cfg url) bspec) w = (r, w')"
  shows "frame X w w'"
  using within_frame_any [OF chosen_source.BaseImageInfo_frame] assms
  by (simp add: FetchBaseImageInfo_def command_puller_def create_puller_sel)

lemma temps_ok_frame:
  assumes "temps_ok store c (w_fs w)" and "frame X w w'" and "apart store X"
  shows "temps_ok store c (w_fs w')"
  using assms(1) frame_get [OF assms(2) apart_entries(1) [OF assms(3)]] by (simp add: temps_ok_def subvolume_at_def)

lemma pull_ready_frame:
  assumes "pull_ready store ls (w_fs w)" and "frame X w w'" and "apart store X"
  shows "pull_ready store ls (w_fs w')"
  using assms(1) store_dirs_frame [of store "[]" X w w'] temps_ok_frame [OF _ assms(2,3)] assms(2,3)
  by (simp add: pull_ready_def layers_area_def)

text \<open>The part of a creation up to its root file system, when no clean-up comes first.\<close>

definition base_fetched :: "Driver \<Rightarrow> BaseImagePuller \<Rightarrow> CreateSpec \<Rightarrow> world \<Rightarrow> bool" where
  "base_fetched d p spec w \<longleftrightarrow>
     (\<forall>info. fetched_for p spec w info \<longrightarrow> bi_LayerInfos info \<noteq> [] \<and> chains_ok (bi_LayerInfos info) \<and>
        (\<forall>li\<in>set (bi_LayerInfos info). plain_digest li) \<and> pull_ready (storePath d) (bi_LayerInfos info) (w_fs w))"

abbreviation deps_place :: "string \<Rightarrow> string \<Rightarrow> path" where
  "deps_place store i \<equiv> meta_dir store @ [''dependencies'', dep_entry (image_ref i)]"

lemma Create_stages:
  assumes run: "run_state (Creation.Create (command_creator service uid d ms im ctxt cfg url) spec) w = (Inr img, w')"
    and clean: "\<not> cs_CleanOnCreate spec" and store: "clean_abs (storePath d)"
    and temps: "\<not> contains (storePath d @ ''/volumes/'') ''-incomplete-''" and host: "host_tools d im read_tar (w_env w)"
    and maps: "\<forall>m\<in>set (cs_UIDMappings spec @ cs_GIDMappings spec). mapping64 m"
    and base: "base_fetched d (command_puller service uid d ms im ctxt cfg url) spec w"
  obtains info ispec w4 w5 w7 where "fetched_for (command_puller service uid d ms im ctxt cfg url) spec w info"
    and "pulled (storePath d) read_tar (layer_served service (store_temp (storePath d)) url ctxt cfg (cs_BaseImageURL spec))
        (pull_places (storePath d)) (bi_LayerInfos info) w (Inr ()) w4"
    and "run_state (ImageCloner.Create (NewImageCloner (btrfs_ops d) (storePath d)) ispec) w4 = (Inr img, w5)"
    and "is_ID ispec = cs_ID spec" and "is_BaseVolumeIDs ispec = chainIDs (bi_LayerInfos info)"
    and "is_DiskLimit ispec = cs_DiskLimit spec" and "is_Mount ispec = cs_Mount spec"
    and "frame {deps_place (storePath d) (cs_ID spec)} w5 w7" and "w_fs w' = w_fs w7"
    and "store_deps (storePath d) (w_fs w') (cs_ID spec) = Some (chainIDs (bi_LayerInfos info))"
proof -
  obtain info bspec w0 w1 w2 w3 fd w4 w5 w6 w7 x ispec where
    f: "run_state (FetchBaseImageInfo (command_puller service uid d ms im ctxt cfg url) bspec) w0 = (Inr info, w1)"
    and c: "run_state (clean_on_create (command_creator service uid d ms im ctxt cfg url) spec (chainIDs (bi_LayerInfos info))) w1 = (Inr (), w2)"
    and l: "run_state (Lock (NewSharedFileSystem (storePath d)) GlobalLockKey) w2 = (Inr fd, w3)"
    and p: "run_state (Pull (command_puller service uid d ms im ctxt cfg url) info bspec) w3 = (Inr (), w4)"
    and m: "run_state (ImageCloner.Create (NewImageCloner (btrfs_ops d) (storePath d)) ispec) w4 = (Inr img, w5)"
    and r: "run_state (Register (store_registry (storePath d)) (image_ref (cs_ID spec)) (chainIDs (bi_LayerInfos info))) w5 = (Inr (), w6)"
    and u: "run_state (Unlock (NewSharedFileSystem (storePath d)) fd) w6 = (x, w7)"
    and fs: "w_fs w' = w_fs w7" and s: "is_ID ispec = cs_ID spec" "is_BaseVolumeIDs ispec = chainIDs (bi_LayerInfos info)"
      "is_DiskLimit ispec = cs_DiskLimit spec" "is_Mount ispec = cs_Mount spec"
    and b: "bs_BaseImageSrc bspec = cs_BaseImageURL spec" "bs_UIDMappings bspec = cs_UIDMappings spec"
      "bs_GIDMappings bspec = cs_GIDMappings spec" and e: "within (\<lambda>_. True) {} w w0"
    by (rule Creation_steps [OF run, unfolded command_creator_sel]) (rule that)
  let ?X = "pull_places (storePath d)"
  have fetched: "fetched_for (command_puller service uid d ms im ctxt cfg url) spec w info" by (rule fetched_forI [OF f b(1) e])
  have "frame ?X w w0" using within_envD [OF e TrueI] withinD [OF e TrueI] by (simp add: frame_def)
  moreover have "frame ?X w0 w1" by (rule fetch_frame [OF f])
  moreover have "w2 = w1" using c clean by (simp add: clean_on_create_def)
  moreover have "frame ?X w2 w3"
  proof (rule within_frame_any [OF locksmith.lock_frame l])
    show "lock_files (NewSharedFileSystem (storePath d)) \<subseteq> ?X"
      by (auto simp: lock_files_def NewSharedFileSystem_def pull_places_def)
  qed
  ultimately have before: "frame ?X w w3" using frame_trans by metis
  have "pullable d im read_tar info bspec w3"
    using base fetched store temps host maps b(2,3) pull_ready_frame [OF _ before temp_apart] frame_env [OF before]
    by (simp add: pullable_def base_fetched_def)
  from pulled_around [OF Pull_command [OF this p] before frame_refl temp_apart]
  have pulled: "pulled (storePath d) read_tar (layer_served service (store_temp (storePath d)) url ctxt cfg (cs_BaseImageURL spec))
      ?X (bi_LayerInfos info) w (Inr ()) w4" by (simp add: b(1))
  have "frame {deps_place (storePath d) (cs_ID spec)} w5 w6"
    by (rule within_frame_any [OF Register_within r]) (simp add: deps_entry_places)
  moreover have unlock: "frame {} w6 w7" by (rule within_frame_any [OF locksmith.unlock_frame u])
  ultimately have after: "frame {deps_place (storePath d) (cs_ID spec)} w5 w7"
    using frame_trans frame_mono [OF unlock empty_subsetI] by blast
  have "store_deps (storePath d) (w_fs w') (cs_ID spec) = Some (chainIDs (bi_LayerInfos info))"
    using Register_registered [OF r] registered_frame [OF frame_get [OF unlock]] by (simp add: store_deps_def fs)
  from that [OF fetched pulled m s after fs this] show thesis .
qed

text \<open>What creating an image leaves of the volumes after the pull.\<close>

lemma volumes_after:
  assumes "frame (below (image_entry store i)) w4 w5" and "frame {deps_place store i} w5 w7"
  shows "fs_get (w_fs w7) (volume_entry store v @ y) = fs_get (w_fs w4) (volume_entry store v @ y)"
  using frame_get [OF assms(1) in_volume_not_image(1)] frame_get [OF assms(2), of "volume_entry store v @ y"] in_volume_not_image(2)
  by simp

lemma complete_after:
  assumes "complete_layer store read_tar served li (w_fs w4)"
    and "frame (below (image_entry store i)) w4 w5" and "frame {deps_place store i} w5 w7"
  shows "complete_layer store read_tar served li (w_fs w7)"
proof -
  have "complete_layer store read_tar served li (w_fs w5)"
    by (rule complete_frame [OF assms(1,2)]) (use in_volume_not_image(1) [of store _ "[]"] in_volume_not_image(3) in auto)
  then show ?thesis
    by (rule complete_frame [OF _ assms(3)]) (use in_volume_not_image(2) [of store _ "[]"] in auto)
qed

section \<open>Property\<close>


section \<open>Example\<close>

lemma sample_base_fetched: "base_fetched sample_driver (cr_baseImagePuller sample_creator) make_spec pull_world"
  unfolding base_fetched_def
proof (intro allI impI)
  fix info assume "fetched_for (cr_baseImagePuller sample_creator) make_spec pull_world info"
  then obtain bspec v v' where "run_state (FetchBaseImageInfo (cr_baseImagePuller sample_creator) bspec) v = (Inr info, v')"
    by (auto simp: fetched_for_def)
  from sample_base_info [OF this] obtain li where li: "bi_LayerInfos info = [li]" "li_ChainID li = ''v1''" "li_BaseDirectory li = []"
    "li_BlobID li = ''sha256:b1''" by auto
  have "temps_ok ''/s'' ''v1'' (([''t''], file_node ''xyz'') # sample_fs)"
    by (auto simp: temps_ok_def incomplete_entry_def incomplete_name_def volume_entry_def volumes_dir_def
        VolumesDirName_def fs_get_def sample_fs_def)
  moreover have "chain_ok ''v1''" by code_simp
  ultimately show "bi_LayerInfos info \<noteq> [] \<and> chains_ok (bi_LayerInfos info) \<and> (\<forall>li\<in>set (bi_LayerInfos info). plain_digest li) \<and>
      pull_ready (storePath sample_driver) (bi_LayerInfos info) (w_fs pull_world)"
    by (simp add: li chains_ok_def plain_digest_def pull_ready_def store_s_dirs)
qed

lemma made_flat: "no_nested_subvolume [''s'', ''volumes'', ''v1''] (w_fs (snd made))"
proof -
  have "list_all (\<lambda>(q, n). strict_prefix [''s'', ''volumes'', ''v1''] q \<longrightarrow> nd_kind n \<noteq> Subvolume) (w_fs (snd made))"
    by code_simp
  then show ?thesis by (auto simp: no_nested_subvolume_def fs_get_def list_all_iff dest!: map_of_SomeD)
qed


end
