(* ===== verification/QuotaLaws.thy ===== *)
theory QuotaLaws
  imports CreateLaws
begin

text \<open>The quota of an image: what is fetched and does not fit is refused before a layer is built.\<close>

definition over_quota :: "BaseImageInfo \<Rightarrow> CreateSpec \<Rightarrow> bool" where
  "over_quota info spec \<longleftrightarrow> \<not> cs_ExcludeBaseImageFromQuota spec \<and> cs_DiskLimit spec \<noteq> 0 \<and>
     cs_DiskLimit spec < wrap64 (sum_list (map li_Size (bi_LayerInfos info)))"

lemma Pull_over_quota:
  assumes "over_quota info spec" and "bs_DiskLimit bspec = cs_DiskLimit spec"
    and "bs_ExcludeBaseImageFromQuota bspec = cs_ExcludeBaseImageFromQuota spec"
  shows "\<exists>e. run_state (Pull p info bspec) v = (Inl e, v)"
  using assms by (simp add: Pull_def over_quota_def quotaExceeded_def layersSize_sum Let_def)

lemma create_image_over_quota:
  assumes "over_quota info spec" and "bs_DiskLimit bspec = cs_DiskLimit spec"
    and "bs_ExcludeBaseImageFromQuota bspec = cs_ExcludeBaseImageFromQuota spec" and "\<not> cs_CleanOnCreate spec"
    and "run_state (create_image (command_creator service uid d ms im ctxt cfg url) spec bspec info) w = (r, w')"
  shows "isl r \<and> frame (pull_places (storePath d)) w w'"
proof -
  let ?c = "command_creator service uid d ms im ctxt cfg url"
  obtain l w1 where 1: "run_state (Lock (NewSharedFileSystem (storePath d)) GlobalLockKey) w = (l, w1)" by fastforce
  have f1: "frame (pull_places (storePath d)) w w1"
    by (rule within_frame_any [OF locksmith.lock_frame 1])
      (auto simp: lock_files_def NewSharedFileSystem_def pull_places_def)
  show ?thesis
  proof (cases l)
    case (Inl e)
    with assms(4,5) 1 f1 show ?thesis by (auto simp: create_image_def clean_on_create_def command_creator_sel)
  next
    case (Inr fd)
    obtain e where e: "run_state (Pull (cr_baseImagePuller ?c) info bspec) w1 = (Inl e, w1)"
      using Pull_over_quota [OF assms(1-3)] by blast
    obtain x w2 where 2: "run_state (Unlock (NewSharedFileSystem (storePath d)) fd) w1 = (x, w2)" by fastforce
    have "frame {} w1 w2" by (rule within_frame_any [OF locksmith.unlock_frame 2])
    then have f2: "frame (pull_places (storePath d)) w1 w2" by (rule frame_mono) simp
    from assms(4,5) 1 2 e Inr have "isl r" "w' = w2"
      by (auto simp: create_image_def clean_on_create_def command_creator_sel create_locked_def)
    with frame_trans [OF f1 f2] show ?thesis by simp
  qed
qed


section \<open>Example\<close>

definition small_spec :: CreateSpec where
  "small_spec = make_spec\<lparr>cs_DiskLimit := 5\<rparr>"


end
