(* ===== verification/Spec2Isabelle.thy ===== *)
theory Spec2Isabelle
  imports Cleaner Fetchers StoreManager Unpackers PullerLaws ImageLaws CommandLaws Reclaim Lock_Protocol
    LockTraces TreeTypes DeleteLaws Registry StoreCommands CreateLaws QuotaLaws
begin

text \<open>
  Verification of groot-btrfs, the image plugin that makes root file systems for containers out of
  layered images, on a btrfs file system.

  \<^bold>\<open>The program.\<close> A store is a directory with the volumes of layers (\<^verbatim>\<open>volumes/<chain id>\<close>), the
  images made from them (\<^verbatim>\<open>images/<id>\<close>, with a snapshot of the topmost layer as \<^verbatim>\<open>rootfs\<close>), the metadata
  (sizes of volumes, ID mappings, the layers that each image uses), lock files and temporary files.
  \<^verbatim>\<open>init-store\<close> makes it; \<^verbatim>\<open>create\<close> fetches the layers of a base image, unpacks each into a volume, and
  makes and registers an image; \<^verbatim>\<open>delete\<close> takes one away; \<^verbatim>\<open>clean\<close> destroys the volumes that no image
  needs; \<^verbatim>\<open>list\<close>, \<^verbatim>\<open>stats\<close> and \<^verbatim>\<open>generate-volume-size-metadata\<close> report; \<^verbatim>\<open>delete-store\<close> removes it. Several
  processes work at one store at once and agree by file locks.

  \<^bold>\<open>Go and the operating system.\<close>
  \<^item> \<open>Prelude\<close>: the state monad. A function that returns a value and an error is a computation of
    \<open>error + 'a\<close>; \<open>or_return m f k\<close> is the early return with the error wrapped by \<open>f\<close>. \<open>evolves R m\<close> (a relation
    that every run keeps, with one rule per construct in \<open>evolves_rules\<close>) and \<open>wp\<close> are the two ways of
    reasoning; \<open>wrap64\<close> is the wrap-around of \<open>int64\<close>.
  \<^item> \<open>Go_Strings\<close>, \<open>Go_Path\<close>, \<open>Go_Errors\<close>, \<open>Go_Json\<close>, \<open>Go_Sha256\<close>: the parts of the standard library that
    the program uses, as functions that compute, with the laws that the components need.
  \<^item> \<open>Go_OS\<close>, \<open>Go_World\<close>, \<open>Go_Laws\<close>: files as a map from paths to nodes, system calls on them, and the
    frame of each call. Every system call may fail: the environment has a fault for any tick of the clock,
    so a theorem without the hypothesis \<open>quiet\<close> holds whatever fails. The programs that are run
    (\<^verbatim>\<open>btrfs\<close>, \<^verbatim>\<open>mkfs\<close>, \<^verbatim>\<open>mount\<close>, \<^verbatim>\<open>newuidmap\<close>) are functions of the environment; what is assumed
    of them is what they document (\<open>btrfs_tool\<close>, \<open>drax_tool\<close>, \<open>userns_tools\<close>, \<open>unpack_tools\<close>).
  \<^item> \<open>Chroot\<close>: the files as the unpacking process sees them, with inodes, hard links and symbolic links, a root and a
    working directory.

  \<^bold>\<open>The components, and the files under src/ that they model.\<close>
  \<^item> \<open>Groot_Types\<close> (groot/groot.go, store/store.go), \<open>Metrics\<close> (metrics/emitter.go), \<open>Locksmith\<close>
    (store/locksmith), \<open>DependencyManager\<close> (store/dependency\_manager), \<open>Filesystems\<close> (store/filesystems/common.go
    and filesystems.go), \<open>Drivers\<close> (the Go interfaces).
  \<^item> \<open>Drax\<close> (the setuid helper in store/filesystems/btrfs/drax), \<open>BtrfsDriver\<close> (btrfs/driver.go), \<open>Namespaced\<close>
    (namespaced/driver.go, the driver that works in a user namespace).
  \<^item> \<open>ImageCloner\<close>, \<open>GarbageCollector\<close>, \<open>StoreMeasurer\<close>, \<open>StoreManager\<close> (the packages of these names under store/), \<open>Cleaner\<close>,
    \<open>StoreNamespacer\<close> and \<open>Creation\<close> (groot/: cleaner, store\_namespacer, creator, deleter, lister, statser).
  \<^item> \<open>Puller\<close> (base\_image\_puller.go), \<open>Untar\<close> and \<open>Unpackers\<close> (base\_image\_puller/unpacker), \<open>Fetchers\<close>
    (fetcher/tar\_fetcher and fetcher/layer\_fetcher).
  \<^item> \<open>Config\<close> (commands/config/builder.go), \<open>Pulling\<close> (what commands/create.go builds the puller from), \<open>IdFinder\<close>
    (commands/idfinder), \<open>Commands\<close> (the actions of commands/) and \<open>GrootApp\<close> (main.go).

  Definitions carry the names of the code. A struct is a record, its methods take it as first argument, a Go interface is
  a record of operations (\<open>driver_ops\<close>, \<open>fetcher_ops\<close>, \<open>locksmith_ops\<close>), a loop is a recursive function. The order in which Go goes
  through a map is any permutation that the environment chooses. A panic ends a command with \<open>Crash\<close>.

  \<^bold>\<open>The interfaces\<close> are locales, each interpreted on the modelled code: \<open>lock_service\<close> (the file locks),
  \<open>volume_store\<close> and its extensions \<open>layer_store\<close> and \<open>image_driver\<close> (the btrfs driver and, for the first two, the namespaced
  one), \<open>image_registry\<close>, \<open>gc_parts\<close>, \<open>cleaning\<close> and \<open>reclaiming\<close> (the collector and the cleaner over a driver, the cloner
  and the dependency manager), \<open>layer_source\<close> (the two fetchers), \<open>layer_unpacker\<close> (the two unpackers) and \<open>pulling\<close>
  (the puller over all of them).

  \<^bold>\<open>What is shown.\<close>
  \<^item> Clean-up (\<open>Cleaner\<close>, \<open>Reclaim\<close>, \<open>StoreCommands\<close>): what an image needs survives, whatever fails; when nothing fails the
    store afterwards is the abstract clean-up of the store before; below the threshold nothing changes.
  \<^item> Unpacking (\<open>Untar\<close>, \<open>TreeTypes\<close>): no archive changes anything outside its volume; the file system stays well formed; files,
    whiteouts, sizes and owners come out as the archive says (owners for ranges that begin at 1).
  \<^item> Pulling (\<open>PullerLaws\<close>, \<open>Pulling\<close>): a volume that appears is complete and was checked; nothing but the layer's own
    places changes; locks are given back.
  \<^item> Images (\<open>ImageLaws\<close>, \<open>CreateLaws\<close>, \<open>CommandLaws\<close>, \<open>DeleteLaws\<close>, \<open>IdFinder\<close>): an image that was created is there, is a
    copy of the topmost layer that was fetched for it and is registered with its layers, so that later clean-ups keep them; one that exceeds its quota (\<open>QuotaLaws\<close>) is refused before a layer is built; one that was deleted
    is gone, and nothing else is touched but images whose names extend its own.
  \<^item> Stores (\<open>StoreManager\<close>, \<open>StoreNamespacer\<close>, \<open>Registry\<close>, \<open>StoreCommands\<close>): an initialised store is one that the other commands
    accept, its mappings are read back, its registry of dependencies is a map.
  \<^item> Locks (\<open>Lock_Protocol\<close>, \<open>LockTraces\<close>): \<open>Create\<close> takes its locks in the order of the protocol, and processes that
    follow the protocol never deadlock, also when some of them die.

  \<open>Sample\<close> and \<open>SampleHost\<close> hold a concrete environment and store; the witnesses evaluate the code there.

  \<^bold>\<open>Bounds.\<close> The only fuel is the kernel's own: a walk follows at most 40 symbolic links and then fails (\<open>ELOOP\<close>), and
  the library's JSON reader gets as much as the text is long, which is enough by \<open>json_decode_print\<close>. Fetching is tried
  \<open>MAX_DOCKER_RETRIES\<close> times, as in the code. Recursions of the code that may not end are partial functions
  (\<open>base_dirs\<close>, \<open>findMountPoint_loop\<close>), and it is shown when they do.

  \<^bold>\<open>Not modelled.\<close> Code that is not the repository's own: containers/image, the registry, gzip, archive/tar, YAML, URLs and
  the user database are parameters of the definitions. Logging. The parsing of command-line flags, by the cli library (so also
  the tables of flags in main.go and drax/main.go). Regular expressions other than characters, full stops and one group at the end.
  Symbolic links in the paths of the host (a store lies in directories without them); the unpacking process does follow them.
  The goroutine that downloads a layer while its parents are built: here the download comes first. Steps of other processes between
  two calls of one: each theorem on files is of one process at a time, and \<open>Lock_Protocol\<close> is about the locks alone. Generated test
  doubles, tests and vendored packages.
\<close>

end
